(* ===== verification/Go_Base.thy ===== *)
theory Go_Base
  imports Main "HOL-Library.AList" "HOL-Library.Word" "HOL-Library.Signed_Division"
begin

text \<open>
  The prelude of the development: what the Go components share.
  \<^item> outcomes of a piece of Go code that runs in one goroutine: it returns, it panics
    (or exits the process through \<^verbatim>\<open>logrus.Fatal\<close>), or it blocks forever on a lock or a
    channel that nobody else will release;
  \<^item> the state monad over these outcomes, with \<^verbatim>\<open>defer\<close> and \<^verbatim>\<open>for range\<close> loops that may
    return early;
  \<^item> Go maps as association lists with distinct keys. The order of the list is the (arbitrary)
    order in which a \<^verbatim>\<open>for range\<close> visits the map, so a theorem for every list holds for every
    iteration order;
  \<^item> decimal formatting as done by \<^verbatim>\<open>strconv.Itoa\<close> and \<^verbatim>\<open>fmt.Sprintf("%d")\<close>.
\<close>

section \<open>Collections of facts\<close>

named_theorems go_monad \<open>unfolding of the goroutine monad\<close>
named_theorems wp \<open>weakest preconditions of goroutines that must return\<close>
named_theorems pc \<open>what holds if a goroutine returns\<close>
named_theorems gomap \<open>facts on Go maps\<close>

section \<open>Machine integers\<close>

type_synonym int32 = "32 word"
type_synonym uint32 = "32 word"
type_synonym int64 = "64 word"
type_synonym uint64 = "64 word"

section \<open>Outcomes of goroutines\<close>

datatype ('s, 'a) outcome = Ret 'a 's | Panic string 's | Blocked string 's

type_synonym ('s, 'a) go = "'s \<Rightarrow> ('s, 'a) outcome"

definition gret :: "'a \<Rightarrow> ('s, 'a) go" where
  "gret x s = Ret x s"

definition gbind :: "('s, 'a) go \<Rightarrow> ('a \<Rightarrow> ('s, 'b) go) \<Rightarrow> ('s, 'b) go" where
  "gbind m f s = (case m s of Ret x s' \<Rightarrow> f x s' | Panic e s' \<Rightarrow> Panic e s'
                   | Blocked e s' \<Rightarrow> Blocked e s')"

definition gthen :: "('s, 'a) go \<Rightarrow> ('s, 'b) go \<Rightarrow> ('s, 'b) go" where
  "gthen m n = gbind m (\<lambda>_. n)"

definition gget :: "('s \<Rightarrow> 'a) \<Rightarrow> ('s, 'a) go" where
  "gget f s = Ret (f s) s"

definition gmodify :: "('s \<Rightarrow> 's) \<Rightarrow> ('s, unit) go" where
  "gmodify f s = Ret () (f s)"

definition gpanic :: "string \<Rightarrow> ('s, 'a) go" where
  "gpanic e s = Panic e s"

definition gblock :: "string \<Rightarrow> ('s, 'a) go" where
  "gblock e s = Blocked e s"

definition gwhen :: "bool \<Rightarrow> ('s, unit) go \<Rightarrow> ('s, unit) go" where
  "gwhen b m = (if b then m else gret ())"

text \<open>
  \<^verbatim>\<open>defer cleanup\<close> before \<open>m\<close>: the clean-up runs when \<open>m\<close> returns and when it panics, and never
  when \<open>m\<close> blocks forever.
\<close>

definition gdefer :: "('s, unit) go \<Rightarrow> ('s, 'a) go \<Rightarrow> ('s, 'a) go" where
  "gdefer cleanup m s = (case m s of
       Ret x s' \<Rightarrow> gbind cleanup (\<lambda>_. gret x) s'
     | Panic e s' \<Rightarrow> gbind cleanup (\<lambda>_. gpanic e) s'
     | Blocked e s' \<Rightarrow> Blocked e s')"

text \<open>
  \<^verbatim>\<open>for _, x := range xs { body }\<close>: the body answers \<^term>\<open>None\<close> to go on and \<^term>\<open>Some r\<close> for
  a \<^verbatim>\<open>return r\<close> inside the loop.
\<close>

fun grange :: "'x list \<Rightarrow> ('x \<Rightarrow> ('s, 'r option) go) \<Rightarrow> ('s, 'r option) go" where
  "grange [] body = gret None"
| "grange (x # xs) body =
     gbind (body x) (\<lambda>r. case r of None \<Rightarrow> grange xs body | Some v \<Rightarrow> gret (Some v))"

text \<open>A method called on one field of a larger object.\<close>

definition gzoom :: "('s \<Rightarrow> 't) \<Rightarrow> ('t \<Rightarrow> 's \<Rightarrow> 's) \<Rightarrow> ('t, 'a) go \<Rightarrow> ('s, 'a) go" where
  "gzoom get put m s = (case m (get s) of
       Ret x t \<Rightarrow> Ret x (put t s)
     | Panic e t \<Rightarrow> Panic e (put t s)
     | Blocked e t \<Rightarrow> Blocked e (put t s))"

definition returned :: "('s, 'a) outcome \<Rightarrow> bool" where
  "returned out = (case out of Ret _ _ \<Rightarrow> True | _ \<Rightarrow> False)"

fun out_state :: "('s, 'a) outcome \<Rightarrow> 's" where
  "out_state (Ret x s) = s"
| "out_state (Panic e s) = s"
| "out_state (Blocked e s) = s"

lemmas [go_monad] =
  gret_def gbind_def gthen_def gget_def gmodify_def gpanic_def gblock_def gwhen_def gdefer_def
  gzoom_def

lemma gthen_apply:
  "gthen m n s = (case m s of Ret x s' \<Rightarrow> n s' | Panic e s' \<Rightarrow> Panic e s' | Blocked e s' \<Rightarrow> Blocked e s')"
  by (simp add: gthen_def gbind_def)

lemma gbind_assoc: "gbind (gbind m f) g = gbind m (\<lambda>x. gbind (f x) g)"
  by (rule ext) (simp add: gbind_def split: outcome.splits)

lemma gbind_ret [simp]: "gbind (gret x) f = f x" and gbind_ret_right [simp]: "gbind m gret = m"
  by (rule ext, simp add: gbind_def gret_def split: outcome.splits)+

lemma gbind_RetE:
  assumes "gbind m f s = Ret x s'"
  obtains y t where "m s = Ret y t" and "f y t = Ret x s'"
  using assms by (auto simp: gbind_def split: outcome.splits)

lemma grange_append:
  "grange (xs @ ys) body =
     gbind (grange xs body) (\<lambda>r. case r of None \<Rightarrow> grange ys body | Some v \<Rightarrow> gret (Some v))"
proof (induction xs)
  case Nil
  show ?case by simp
next
  case (Cons x xs)
  then show ?case
    by (auto simp: gbind_assoc fun_eq_iff gbind_def gret_def split: outcome.splits option.splits)
qed

text \<open>A loop whose body always goes on folds the body's effect over the list.\<close>

lemma grange_fold:
  assumes "\<And>x s. x \<in> set xs \<Longrightarrow> body x s = Ret None (f x s)"
  shows "grange xs body s = Ret None (fold f xs s)"
  using assms
proof (induction xs arbitrary: s)
  case Nil
  show ?case by (simp add: gret_def)
next
  case (Cons x xs)
  then show ?case by (simp add: gbind_def)
qed

section \<open>Code that returns\<close>

text \<open>
  \<open>runs m s Q\<close>: started in \<open>s\<close>, \<open>m\<close> returns (it neither panics nor blocks), with a result and a state
  that satisfy \<open>Q\<close>. The equations \<open>wp\<close> compute it for straight-line code, \<open>runs_grange\<close> is the rule for
  loops.
\<close>

definition runs :: "('s, 'a) go \<Rightarrow> 's \<Rightarrow> ('a \<Rightarrow> 's \<Rightarrow> bool) \<Rightarrow> bool" where
  "runs m s Q \<longleftrightarrow> (case m s of Ret x s' \<Rightarrow> Q x s' | _ \<Rightarrow> False)"

lemma runs_gret [wp]: "runs (gret x) s Q = Q x s"
  by (simp add: runs_def gret_def)

lemma runs_gbind [wp]: "runs (gbind m f) s Q = runs m s (\<lambda>x s'. runs (f x) s' Q)"
  by (simp add: runs_def gbind_def split: outcome.splits)

lemma runs_gthen [wp]: "runs (gthen m n) s Q = runs m s (\<lambda>_ s'. runs n s' Q)"
  by (simp add: gthen_def runs_gbind)

lemma runs_gget [wp]: "runs (gget f) s Q = Q (f s) s"
  by (simp add: runs_def gget_def)

lemma runs_gmodify [wp]: "runs (gmodify f) s Q = Q () (f s)"
  by (simp add: runs_def gmodify_def)

lemma runs_gpanic [wp]: "\<not> runs (gpanic e) s Q" and runs_gblock [wp]: "\<not> runs (gblock e) s Q"
  by (simp_all add: runs_def gpanic_def gblock_def)

lemma runs_gwhen [wp]: "runs (gwhen b m) s Q = (if b then runs m s Q else Q () s)"
  by (simp add: gwhen_def runs_gret)

lemma runs_gdefer [wp]: "runs (gdefer c m) s Q = runs m s (\<lambda>x s'. runs c s' (\<lambda>_ s''. Q x s''))"
  by (simp add: runs_def gdefer_def gbind_def gret_def gpanic_def split: outcome.splits)

lemma runs_gzoom [wp]: "runs (gzoom get put m) s Q = runs m (get s) (\<lambda>x t. Q x (put t s))"
  by (simp add: runs_def gzoom_def split: outcome.splits)

lemma runs_mono: "runs m s Q \<Longrightarrow> (\<And>x s'. Q x s' \<Longrightarrow> Q' x s') \<Longrightarrow> runs m s Q'"
  by (simp add: runs_def split: outcome.splits)

lemma runs_conj: "runs m s Q \<Longrightarrow> runs m s Q' \<Longrightarrow> runs m s (\<lambda>x s'. Q x s' \<and> Q' x s')"
  by (simp add: runs_def split: outcome.splits)

lemma runs_Ret: "m s = Ret x s' \<Longrightarrow> runs m s Q = Q x s'"
  by (simp add: runs_def)

lemma runsE:
  assumes "runs m s Q"
  obtains x s' where "m s = Ret x s'" and "Q x s'"
  using assms by (auto simp: runs_def split: outcome.splits)

lemma runs_grange:
  assumes "I xs s" and "\<And>x ys s. I (x # ys) s \<Longrightarrow> runs (body x) s (\<lambda>r s'. r = None \<and> I ys s')"
  shows "runs (grange xs body) s (\<lambda>r s'. r = None \<and> I [] s')"
  using assms(1)
proof (induction xs arbitrary: s)
  case (Cons x xs)
  have "runs (body x) s (\<lambda>r s'. r = None \<and> I xs s')" by (rule assms(2) [OF Cons.prems])
  then have "runs (body x) s (\<lambda>r s'. runs (case r of None \<Rightarrow> grange xs body | Some v \<Rightarrow> gret (Some v)) s'
      (\<lambda>r s'. r = None \<and> I [] s'))"
    by (rule runs_mono) (auto intro: Cons.IH)
  then show ?case by (simp add: wp)
qed (simp add: wp)

lemma runs_grange_exit:
  assumes "I xs s"
    and "\<And>x ys s. I (x # ys) s \<Longrightarrow> runs (body x) s (\<lambda>r s'. case r of None \<Rightarrow> I ys s' | Some v \<Rightarrow> E v s')"
  shows "runs (grange xs body) s (\<lambda>r s'. case r of None \<Rightarrow> I [] s' | Some v \<Rightarrow> E v s')"
  using assms(1)
proof (induction xs arbitrary: s)
  case (Cons x xs)
  have "runs (body x) s (\<lambda>r s'. case r of None \<Rightarrow> I xs s' | Some v \<Rightarrow> E v s')" by (rule assms(2) [OF Cons.prems])
  then have "runs (body x) s (\<lambda>r s'. runs (case r of None \<Rightarrow> grange xs body | Some v \<Rightarrow> gret (Some v)) s'
      (\<lambda>r s'. case r of None \<Rightarrow> I [] s' | Some v \<Rightarrow> E v s'))"
  proof (rule runs_mono)
    fix r s'
    assume "case r of None \<Rightarrow> I xs s' | Some v \<Rightarrow> E v s'"
    with Cons.IH [of s'] show "runs (case r of None \<Rightarrow> grange xs body | Some v \<Rightarrow> gret (Some v)) s'
        (\<lambda>r s'. case r of None \<Rightarrow> I [] s' | Some v \<Rightarrow> E v s')"
      by (cases r) (simp_all add: runs_gret)
  qed
  then show ?case by (simp add: runs_gbind)
qed (simp add: runs_gret)

section \<open>Code that may not return\<close>

text \<open>\<open>rets m s Q\<close>: if \<open>m\<close> returns then \<open>Q\<close> holds.\<close>

definition rets :: "('s, 'a) go \<Rightarrow> 's \<Rightarrow> ('a \<Rightarrow> 's \<Rightarrow> bool) \<Rightarrow> bool" where
  "rets m s Q \<longleftrightarrow> (\<forall>x s'. m s = Ret x s' \<longrightarrow> Q x s')"

lemma rets_simps [pc]:
  "rets (gret x) s Q = Q x s"
  "rets (gbind m f) s Q = rets m s (\<lambda>x s'. rets (f x) s' Q)"
  "rets (gthen m n) s Q = rets m s (\<lambda>_ s'. rets n s' Q)"
  "rets (gget g) s Q = Q (g s) s"
  "rets (gmodify h) s R = R () (h s)"
  "rets (gwhen b k) s R = (if b then rets k s R else R () s)"
  "rets (gzoom get put l) s Q = rets l (get s) (\<lambda>x t. Q x (put t s))"
  "rets (gpanic e) s Q" "rets (gblock e) s Q"
  "rets (gdefer c m') s Q = rets m' s (\<lambda>x s'. rets c s' (\<lambda>_ s''. Q x s''))"
  by (auto simp: rets_def go_monad split: outcome.splits)

lemma rets_mono: "rets m s P \<Longrightarrow> (\<And>x s'. P x s' \<Longrightarrow> Q x s') \<Longrightarrow> rets m s Q"
  by (auto simp: rets_def)

section \<open>Go maps\<close>

type_synonym ('k, 'v) gomap = "('k \<times> 'v) list"

definition gm_wf :: "('k, 'v) gomap \<Rightarrow> bool" where
  "gm_wf m = distinct (map fst m)"

definition gm_get :: "'v \<Rightarrow> ('k, 'v) gomap \<Rightarrow> 'k \<Rightarrow> 'v" where
  \<comment> \<open>\<^verbatim>\<open>m[k]\<close> with the zero value \<open>d\<close> of the element type\<close>
  "gm_get d m k = (case map_of m k of None \<Rightarrow> d | Some v \<Rightarrow> v)"

abbreviation gm_set :: "'k \<Rightarrow> 'v \<Rightarrow> ('k, 'v) gomap \<Rightarrow> ('k, 'v) gomap" where
  "gm_set k v m \<equiv> AList.update k v m"

abbreviation gm_del :: "'k \<Rightarrow> ('k, 'v) gomap \<Rightarrow> ('k, 'v) gomap" where
  "gm_del k m \<equiv> AList.delete k m"

lemma map_of_gm_set [simp, gomap]: "map_of (gm_set k v m) = (map_of m)(k \<mapsto> v)"
  by (rule update_conv')

lemma map_of_gm_del [simp, gomap]: "map_of (gm_del k m) = (map_of m)(k := None)"
  by (rule delete_conv')

lemma gm_wf_empty [simp, intro]: "gm_wf []"
  by (simp add: gm_wf_def)

lemma gm_wf_set [simp, intro]: "gm_wf m \<Longrightarrow> gm_wf (gm_set k v m)"
  by (simp add: gm_wf_def distinct_update)

lemma gm_wf_del [simp, intro]: "gm_wf m \<Longrightarrow> gm_wf (gm_del k m)"
  by (simp add: gm_wf_def distinct_delete)

lemma gm_wf_Cons [simp]: "gm_wf ((k, v) # m) \<longleftrightarrow> k \<notin> fst ` set m \<and> gm_wf m"
  by (auto simp: gm_wf_def)

lemma gm_get_set [simp]: "gm_get d (gm_set k v m) k' = (if k' = k then v else gm_get d m k')"
  by (simp add: gm_get_def)

lemma gm_get_del [simp]: "gm_get d (gm_del k m) k' = (if k' = k then d else gm_get d m k')"
  by (simp add: gm_get_def)

lemma set_gm_set:
  "gm_wf m \<Longrightarrow> set (gm_set k v m) = insert (k, v) {p \<in> set m. fst p \<noteq> k}"
proof (induction m)
  case (Cons p m)
  then show ?case by (cases p) (force simp: gm_wf_def)
qed simp

lemma set_gm_del: "set (gm_del k m) = {p \<in> set m. fst p \<noteq> k}"
  by (auto simp: AList.delete_eq)

lemma gm_set_fresh: "k \<notin> fst ` set m \<Longrightarrow> gm_set k v m = m @ [(k, v)]"
  by (induction m) auto

lemma gm_del_fresh [simp]: "k \<notin> fst ` set m \<Longrightarrow> gm_del k m = m"
  by (induction m) auto

lemma gm_del_set_fresh: "k \<notin> fst ` set m \<Longrightarrow> gm_del k (gm_set k v m) = m"
  by (simp add: gm_set_fresh AList.delete_eq) (induction m, auto)

lemma map_of_gm_wf: "gm_wf m \<Longrightarrow> map_of m k = Some v \<longleftrightarrow> (k, v) \<in> set m"
  by (simp add: gm_wf_def)

lemma length_gm_del: "gm_wf m \<Longrightarrow> k \<in> fst ` set m \<Longrightarrow> Suc (length (gm_del k m)) = length m"
proof (induction m)
  case (Cons p m)
  show ?case
  proof (cases "fst p = k")
    case True
    with Cons.prems have "k \<notin> fst ` set m" by (cases p) auto
    with True show ?thesis by (cases p) simp
  next
    case False
    with Cons show ?thesis by (cases p) auto
  qed
qed simp

section \<open>Lists\<close>

text \<open>\<^verbatim>\<open>append(xs[:i], xs[i+1:]...)\<close>: the list without the element at \<open>i\<close>.\<close>

definition remove_nth :: "nat \<Rightarrow> 'a list \<Rightarrow> 'a list" where
  "remove_nth i xs = take i xs @ drop (Suc i) xs"

lemma length_remove_nth [simp]: "i < length xs \<Longrightarrow> length (remove_nth i xs) = length xs - 1"
  by (simp add: remove_nth_def)

lemma set_remove_nth_subset: "set (remove_nth i xs) \<subseteq> set xs"
  by (auto simp: remove_nth_def dest: in_set_takeD in_set_dropD)

lemma distinct_remove_nth: "distinct xs \<Longrightarrow> distinct (remove_nth i xs)"
  using set_take_disj_set_drop_if_distinct [of xs i "Suc i"]
  by (auto simp: remove_nth_def)

lemma set_remove_nth_distinct:
  assumes "distinct xs" and "i < length xs"
  shows "set (remove_nth i xs) = set xs - {xs ! i}"
proof -
  have xs: "xs = take i xs @ xs ! i # drop (Suc i) xs"
    using assms(2) by (rule id_take_nth_drop)
  with assms(1) have "xs ! i \<notin> set (take i xs)" and "xs ! i \<notin> set (drop (Suc i) xs)"
    by (metis distinct.simps(2) distinct_append not_distinct_conv_prefix,
        metis distinct.simps(2) distinct_append xs)
  moreover have "set xs = set (take i xs) \<union> {xs ! i} \<union> set (drop (Suc i) xs)"
    by (subst (1) xs) auto
  ultimately show ?thesis by (auto simp: remove_nth_def)
qed

section \<open>Decimal formatting\<close>

definition digit_char :: "nat \<Rightarrow> char" where
  "digit_char d = char_of (48 + d)"

fun dec :: "nat \<Rightarrow> string" where
  "dec n = (if n < 10 then [digit_char n] else dec (n div 10) @ [digit_char (n mod 10)])"

declare dec.simps [simp del]

definition itoa :: "int \<Rightarrow> string" where
  "itoa i = (if i < 0 then CHR ''-'' # dec (nat (- i)) else dec (nat i))"

fun dec_val :: "nat \<Rightarrow> string \<Rightarrow> nat" where
  "dec_val a [] = a"
| "dec_val a (c # cs) = dec_val (10 * a + (of_char c - 48)) cs"

lemma of_digit_char [simp]: "d < 10 \<Longrightarrow> of_char (digit_char d) = 48 + d"
  by (simp add: digit_char_def)

lemma dec_val_append: "dec_val a (xs @ ys) = dec_val (dec_val a xs) ys"
  by (induction xs arbitrary: a) auto

lemma dec_val_dec [simp]: "dec_val 0 (dec n) = n"
proof (induction n rule: dec.induct)
  case (1 n)
  then show ?case
    by (subst dec.simps) (auto simp: dec_val_append)
qed

lemma dec_inj [simp]: "dec m = dec n \<longleftrightarrow> m = n"
  by (metis dec_val_dec)

lemma dec_chars: "c \<in> set (dec n) \<Longrightarrow> of_char c \<in> {48..57::nat}"
proof (induction n rule: dec.induct)
  case (1 n)
  from "1.prems" show ?case
    by (subst (asm) dec.simps) (auto split: if_splits dest: "1.IH")
qed

lemma dec_nonempty [simp]: "dec n \<noteq> []"
  by (subst dec.simps) simp

text \<open>
  The decimal numerals are injective in front of any separator that is not a digit, which is
  what makes \<^verbatim>\<open>host:port\<close> and dotted addresses unambiguous.
\<close>

lemma sep_inj:
  assumes "c \<notin> set xs" and "c \<notin> set xs'"
  shows "xs @ c # ys = xs' @ c # ys' \<longleftrightarrow> xs = xs' \<and> ys = ys'"
  using assms
proof (induction xs arbitrary: xs')
  case Nil
  then show ?case by (cases xs') auto
next
  case (Cons x xs)
  then show ?case by (cases xs') auto
qed

lemma not_digit_dec [simp]:
  "CHR ''.'' \<notin> set (dec n)" "CHR '':'' \<notin> set (dec n)" "CHR ''-'' \<notin> set (dec n)"
  by (auto dest!: dec_chars)

lemma itoa_inj [simp]: "itoa i = itoa j \<longleftrightarrow> i = j"
proof
  assume eq: "itoa i = itoa j"
  have "hd (dec n) \<noteq> CHR ''-''" for n
    using not_digit_dec(3) [of n] by (metis dec_nonempty hd_in_set)
  then have ne: "CHR ''-'' # xs \<noteq> dec n" for xs n by (metis list.sel(1))
  from eq show "i = j"
    by (auto simp: itoa_def ne ne [symmetric] split: if_splits)
qed simp

lemma colon_itoa [simp]: "CHR '':'' \<notin> set (itoa i)"
  by (simp add: itoa_def)

end
