(* ===== verification/Sync_Maps.thy ===== *)
theory Sync_Maps
  imports Go_Base
begin

text \<open>
  The shared containers of \<^verbatim>\<open>pkg/\<close>: \<^verbatim>\<open>pkg/synchronization\<close> (a map behind a read-write mutex),
  \<^verbatim>\<open>pkg/atomic_map\<close> (typed wrappers of \<^verbatim>\<open>sync.Map\<close>, and a map of counters) and \<^verbatim>\<open>pkg/map\<close>
  (keys, values, difference, field extraction). The mutex is part of the model: locking what
  the same goroutine already holds blocks it forever, unlocking what nobody holds is a fatal
  error of the Go runtime. The contract the clients use is the locale \<open>keyed_store\<close>, interpreted
  on both kinds of map.
\<close>

section \<open>pkg/synchronization\<close>

record ('k, 'v) Structure =
  InternalMap :: "('k, 'v) gomap"
  wlocked :: bool
  rlocks :: nat

definition NewControlPlaneSyncStructure :: "('k, 'v) Structure" where
  "NewControlPlaneSyncStructure = \<lparr>InternalMap = [], wlocked = False, rlocks = 0\<rparr>"

definition Structure_Lock :: "(('k, 'v) Structure, unit) go" where
  "Structure_Lock s =
     (if wlocked s \<or> rlocks s \<noteq> 0 then Blocked ''Lock'' s else Ret () (s\<lparr>wlocked := True\<rparr>))"

definition Structure_RLock :: "(('k, 'v) Structure, unit) go" where
  "Structure_RLock s =
     (if wlocked s then Blocked ''RLock'' s else Ret () (s\<lparr>rlocks := rlocks s + 1\<rparr>))"

definition Structure_Unlock :: "(('k, 'v) Structure, unit) go" where
  "Structure_Unlock s =
     (if wlocked s then Ret () (s\<lparr>wlocked := False\<rparr>) else Panic ''Unlock of unlocked RWMutex'' s)"

definition Structure_RUnlock :: "(('k, 'v) Structure, unit) go" where
  "Structure_RUnlock s =
     (if rlocks s = 0 then Panic ''RUnlock of unlocked RWMutex'' s
      else Ret () (s\<lparr>rlocks := rlocks s - 1\<rparr>))"

definition Structure_GetMap :: "('k, 'v) Structure \<Rightarrow> ('k, 'v) gomap" where
  "Structure_GetMap s = InternalMap s"

definition Structure_Set :: "'k \<Rightarrow> 'v \<Rightarrow> ('k, 'v) Structure \<Rightarrow> ('k, 'v) Structure" where
  "Structure_Set k v s = s\<lparr>InternalMap := gm_set k v (InternalMap s)\<rparr>"

definition Structure_Get :: "('k, 'v) Structure \<Rightarrow> 'k \<Rightarrow> 'v option" where
  \<comment> \<open>\<^verbatim>\<open>v, ok\<close> as an option\<close>
  "Structure_Get s k = map_of (InternalMap s) k"

definition Structure_GetNoCheck :: "'v \<Rightarrow> ('k, 'v) Structure \<Rightarrow> 'k \<Rightarrow> 'v" where
  \<comment> \<open>the zero value of the element type for a missing key\<close>
  "Structure_GetNoCheck zero s k = gm_get zero (InternalMap s) k"

definition Structure_Remove :: "'k \<Rightarrow> ('k, 'v) Structure \<Rightarrow> ('k, 'v) Structure" where
  "Structure_Remove k s = s\<lparr>InternalMap := gm_del k (InternalMap s)\<rparr>"

definition Structure_Present :: "('k, 'v) Structure \<Rightarrow> 'k \<Rightarrow> bool" where
  "Structure_Present s k = (map_of (InternalMap s) k \<noteq> None)"

definition Structure_AtomicSet :: "'k \<Rightarrow> 'v \<Rightarrow> (('k, 'v) Structure, unit) go" where
  "Structure_AtomicSet k v =
     gthen Structure_Lock (gdefer Structure_Unlock (gmodify (Structure_Set k v)))"

definition Structure_AtomicGet :: "'k \<Rightarrow> (('k, 'v) Structure, 'v option) go" where
  "Structure_AtomicGet k =
     gthen Structure_RLock (gdefer Structure_RUnlock (gget (\<lambda>s. Structure_Get s k)))"

definition Structure_AtomicGetNoCheck :: "'v \<Rightarrow> 'k \<Rightarrow> (('k, 'v) Structure, 'v) go" where
  "Structure_AtomicGetNoCheck zero k =
     gthen Structure_RLock (gdefer Structure_RUnlock (gget (\<lambda>s. Structure_GetNoCheck zero s k)))"

definition Structure_AtomicRemove :: "'k \<Rightarrow> (('k, 'v) Structure, unit) go" where
  "Structure_AtomicRemove k =
     gthen Structure_Lock (gdefer Structure_Unlock (gmodify (Structure_Remove k)))"

definition Structure_Len :: "('k, 'v) Structure \<Rightarrow> nat" where
  "Structure_Len s = length (InternalMap s)"

definition Structure_AtomicLen :: "(('k, 'v) Structure, nat) go" where
  "Structure_AtomicLen = gthen Structure_RLock (gdefer Structure_RUnlock (gget Structure_Len))"

definition Structure_GetKeys :: "('k, 'v) Structure \<Rightarrow> 'k list" where
  "Structure_GetKeys s = map fst (Structure_GetMap s)"

definition Structure_GetValues :: "('k, 'v) Structure \<Rightarrow> 'v list" where
  "Structure_GetValues s = map snd (Structure_GetMap s)"

lemmas Structure_defs =
  Structure_Lock_def Structure_RLock_def Structure_Unlock_def Structure_RUnlock_def
  Structure_GetMap_def Structure_Set_def Structure_Get_def Structure_GetNoCheck_def
  Structure_Remove_def Structure_Present_def Structure_AtomicSet_def Structure_AtomicGet_def
  Structure_AtomicGetNoCheck_def Structure_AtomicRemove_def Structure_Len_def
  Structure_AtomicLen_def Structure_GetKeys_def Structure_GetValues_def
  NewControlPlaneSyncStructure_def

section \<open>pkg/atomic\_map\<close>

text \<open>\<^verbatim>\<open>sync.Map\<close> is the map itself; \<^verbatim>\<open>Range\<close> visits its entries in the order of the list.\<close>

record ('k, 'v) AtomicMap =
  entries :: "('k, 'v) gomap"

definition NewAtomicMap :: "('k, 'v) AtomicMap" where
  "NewAtomicMap = \<lparr>entries = []\<rparr>"

definition AtomicMap_Find :: "('k, 'v) AtomicMap \<Rightarrow> 'k \<Rightarrow> bool" where
  "AtomicMap_Find c k = (map_of (entries c) k \<noteq> None)"

definition AtomicMap_Get :: "('k, 'v) AtomicMap \<Rightarrow> 'k \<Rightarrow> 'v option" where
  "AtomicMap_Get c k = map_of (entries c) k"

definition AtomicMap_GetUnsafe :: "'v \<Rightarrow> ('k, 'v) AtomicMap \<Rightarrow> 'k \<Rightarrow> 'v" where
  "AtomicMap_GetUnsafe zero c k = (case AtomicMap_Get c k of Some v \<Rightarrow> v | None \<Rightarrow> zero)"

definition AtomicMap_Set :: "'k \<Rightarrow> 'v \<Rightarrow> ('k, 'v) AtomicMap \<Rightarrow> ('k, 'v) AtomicMap" where
  "AtomicMap_Set k v c = c\<lparr>entries := gm_set k v (entries c)\<rparr>"

definition AtomicMap_RemoveKey :: "'k \<Rightarrow> ('k, 'v) AtomicMap \<Rightarrow> ('k, 'v) AtomicMap" where
  "AtomicMap_RemoveKey k c = c\<lparr>entries := gm_del k (entries c)\<rparr>"

definition AtomicMap_LoadOrStore ::
  "'k \<Rightarrow> 'v \<Rightarrow> ('k, 'v) AtomicMap \<Rightarrow> ('v \<times> bool) \<times> ('k, 'v) AtomicMap" where
  \<comment> \<open>promoted method of the embedded \<^verbatim>\<open>sync.Map\<close>\<close>
  "AtomicMap_LoadOrStore k v c =
     (case map_of (entries c) k of Some w \<Rightarrow> ((w, True), c)
      | None \<Rightarrow> ((v, False), AtomicMap_Set k v c))"

definition AtomicMap_Keys :: "('k, 'v) AtomicMap \<Rightarrow> 'k list" where
  "AtomicMap_Keys c = map fst (entries c)"

definition AtomicMap_Values :: "('k, 'v) AtomicMap \<Rightarrow> 'v list" where
  "AtomicMap_Values c = map snd (entries c)"

definition AtomicMap_KeyValues :: "('k, 'v) AtomicMap \<Rightarrow> 'k list \<times> 'v list" where
  "AtomicMap_KeyValues c =
     foldl (\<lambda>(ks, vs) (k, v). (ks @ [k], vs @ [v])) ([], []) (entries c)"

definition AtomicMap_Len :: "('k, 'v) AtomicMap \<Rightarrow> nat" where
  "AtomicMap_Len c = length (AtomicMap_Keys c)"

text \<open>The counters are 64-bit and wrap around.\<close>

type_synonym 'k AtomicMapCounter = "('k, int64) AtomicMap"

definition AtomicMapCounter_Get :: "'k AtomicMapCounter \<Rightarrow> 'k \<Rightarrow> int64" where
  "AtomicMapCounter_Get c k = (case map_of (entries c) k of Some v \<Rightarrow> v | None \<Rightarrow> 0)"

definition AtomicMapCounter_AtomicAdd ::
  "'k \<Rightarrow> int64 \<Rightarrow> 'k AtomicMapCounter \<Rightarrow> int64 \<times> 'k AtomicMapCounter" where
  "AtomicMapCounter_AtomicAdd k v c =
     (case AtomicMap_LoadOrStore k v c of
        ((w, True), c') \<Rightarrow> (w + v, AtomicMap_Set k (w + v) c')
      | ((w, False), c') \<Rightarrow> (w, c'))"

definition AtomicMapCounter_AtomicIncrement :: "'k \<Rightarrow> 'k AtomicMapCounter \<Rightarrow> 'k AtomicMapCounter" where
  "AtomicMapCounter_AtomicIncrement k c = snd (AtomicMapCounter_AtomicAdd k 1 c)"

definition AtomicMapCounter_AtomicDecrement :: "'k \<Rightarrow> 'k AtomicMapCounter \<Rightarrow> 'k AtomicMapCounter" where
  "AtomicMapCounter_AtomicDecrement k c = snd (AtomicMapCounter_AtomicAdd k (-1) c)"

definition AtomicMapCounter_Delete :: "'k \<Rightarrow> 'k AtomicMapCounter \<Rightarrow> 'k AtomicMapCounter" where
  "AtomicMapCounter_Delete k c = AtomicMap_RemoveKey k c"

lemmas AtomicMap_defs =
  NewAtomicMap_def AtomicMap_Find_def AtomicMap_Get_def AtomicMap_GetUnsafe_def AtomicMap_Set_def
  AtomicMap_RemoveKey_def AtomicMap_LoadOrStore_def AtomicMap_Keys_def AtomicMap_Values_def
  AtomicMap_Len_def

section \<open>pkg/map\<close>

definition map_Keys :: "('k, 'v) gomap \<Rightarrow> 'k list" where
  "map_Keys m = map fst m"

definition map_Values :: "('k, 'v) gomap \<Rightarrow> 'v list" where
  "map_Values m = map snd m"

fun not_found :: "('a, unit) gomap \<Rightarrow> 'a list \<Rightarrow> 'a list" where
  \<comment> \<open>the second loop of \<^verbatim>\<open>Difference\<close>\<close>
  "not_found mb [] = []"
| "not_found mb (x # a) = (if map_of mb x = None then x # not_found mb a else not_found mb a)"

definition Difference :: "'a list \<Rightarrow> 'a list \<Rightarrow> 'a list" where
  "Difference a b = not_found (foldl (\<lambda>mb x. gm_set x () mb) [] b) a"

definition ExtractField :: "'t list \<Rightarrow> ('t \<Rightarrow> string) \<Rightarrow> string list \<times> (string, 't) gomap" where
  "ExtractField m extractor =
     foldl (\<lambda>(res, mm) x. (res @ [extractor x], gm_set (extractor x) x mm)) ([], []) m"

section \<open>The contract of a keyed store\<close>

locale keyed_store =
  fixes lookup :: "'m \<Rightarrow> 'k \<Rightarrow> 'v option"
    and put :: "'k \<Rightarrow> 'v \<Rightarrow> 'm \<Rightarrow> 'm"
    and remove :: "'k \<Rightarrow> 'm \<Rightarrow> 'm"
    and keys :: "'m \<Rightarrow> 'k list"
    and invar :: "'m \<Rightarrow> bool"
  assumes lookup_put: "invar m \<Longrightarrow> lookup (put k v m) = (lookup m)(k \<mapsto> v)"
    and lookup_remove: "invar m \<Longrightarrow> lookup (remove k m) = (lookup m)(k := None)"
    and set_keys: "invar m \<Longrightarrow> set (keys m) = dom (lookup m)"
    and distinct_keys: "invar m \<Longrightarrow> distinct (keys m)"
    and invar_put: "invar m \<Longrightarrow> invar (put k v m)"
    and invar_remove: "invar m \<Longrightarrow> invar (remove k m)"
begin

lemma length_keys: "invar m \<Longrightarrow> length (keys m) = card (dom (lookup m))"
  using set_keys distinct_keys by (metis distinct_card)

lemma length_put:
  assumes "invar m"
  shows "length (keys (put k v m)) = (if lookup m k = None then Suc (length (keys m)) else length (keys m))"
proof -
  have fin: "finite (dom (lookup m))" using set_keys [OF assms] by (metis List.finite_set)
  have "length (keys (put k v m)) = card (insert k (dom (lookup m)))"
    using assms by (simp add: length_keys invar_put lookup_put)
  then show ?thesis
    using fin assms by (auto simp: card_insert_if length_keys dom_def)
qed

lemma length_remove:
  assumes "invar m"
  shows "length (keys (remove k m)) = (if lookup m k = None then length (keys m) else length (keys m) - 1)"
proof -
  have fin: "finite (dom (lookup m))" using set_keys [OF assms] by (metis List.finite_set)
  have "length (keys (remove k m)) = card (dom (lookup m) - {k})"
    using assms by (simp add: length_keys invar_remove lookup_remove)
  then show ?thesis
    using fin assms by (auto simp: card_Diff_singleton_if length_keys dom_def)
qed

lemma put_then_remove: "invar m \<Longrightarrow> lookup (remove k (put k v m)) = (lookup m)(k := None)"
  by (simp add: lookup_put lookup_remove invar_put)

end

locale counter_store = keyed_store lookup put remove keys invar
  for lookup :: "'m \<Rightarrow> 'k \<Rightarrow> ('v :: comm_monoid_add) option" and put remove keys invar +
  fixes count :: "'m \<Rightarrow> 'k \<Rightarrow> 'v"
    and add :: "'k \<Rightarrow> 'v \<Rightarrow> 'm \<Rightarrow> 'v \<times> 'm"
  assumes count_lookup: "count m k = (case lookup m k of None \<Rightarrow> 0 | Some v \<Rightarrow> v)"
    and add_eq: "invar m \<Longrightarrow> fst (add k v m) = count m k + v"
    and lookup_add: "invar m \<Longrightarrow> lookup (snd (add k v m)) = (lookup m)(k \<mapsto> count m k + v)"
    and invar_add: "invar m \<Longrightarrow> invar (snd (add k v m))"
begin

lemma count_add: "invar m \<Longrightarrow> count (snd (add k v m)) k' = (if k' = k then count m k + v else count m k')"
  by (simp add: count_lookup [of _ k'] lookup_add)

lemma count_adds:
  assumes "invar m"
  shows "count (fold (\<lambda>k m. snd (add k v m)) ks m) k = count m k + (\<Sum>x\<leftarrow>filter ((=) k) ks. v)"
  using assms
proof (induction ks arbitrary: m)
  case (Cons x ks)
  then show ?case by (auto simp: invar_add count_add add.assoc)
qed simp

end

interpretation sync_store: keyed_store Structure_Get Structure_Set Structure_Remove Structure_GetKeys
  "\<lambda>s. gm_wf (InternalMap s)"
  by unfold_locales
    (auto simp: Structure_defs gm_wf_def dom_map_of_conv_image_fst [symmetric] distinct_update
       distinct_delete)

interpretation atomic_store: keyed_store AtomicMap_Get AtomicMap_Set AtomicMap_RemoveKey AtomicMap_Keys
  "\<lambda>c. gm_wf (entries c)"
  by unfold_locales
    (auto simp: AtomicMap_defs gm_wf_def dom_map_of_conv_image_fst [symmetric] distinct_update
       distinct_delete)

interpretation atomic_counter: counter_store AtomicMap_Get AtomicMap_Set AtomicMap_RemoveKey
  AtomicMap_Keys "\<lambda>c. gm_wf (entries c)" AtomicMapCounter_Get AtomicMapCounter_AtomicAdd
  by unfold_locales
    (auto simp: AtomicMap_defs AtomicMapCounter_Get_def AtomicMapCounter_AtomicAdd_def
       fun_eq_iff split: option.splits)

section \<open>Atomic operations and the mutex\<close>

definition unlocked :: "('k, 'v) Structure \<Rightarrow> bool" where
  "unlocked s \<longleftrightarrow> \<not> wlocked s \<and> rlocks s = 0"

lemma Structure_AtomicSet_unlocked:
  "unlocked s \<Longrightarrow> Structure_AtomicSet k v s = Ret () (Structure_Set k v s)"
  by (simp add: unlocked_def Structure_defs go_monad)

lemma Structure_AtomicRemove_unlocked:
  "unlocked s \<Longrightarrow> Structure_AtomicRemove k s = Ret () (Structure_Remove k s)"
  by (simp add: unlocked_def Structure_defs go_monad)

lemma Structure_AtomicGet_not_wlocked:
  "\<not> wlocked s \<Longrightarrow> Structure_AtomicGet k s = Ret (Structure_Get s k) s"
  by (simp add: Structure_defs go_monad)

lemma Structure_AtomicGetNoCheck_not_wlocked:
  "\<not> wlocked s \<Longrightarrow> Structure_AtomicGetNoCheck z k s = Ret (Structure_GetNoCheck z s k) s"
  by (simp add: Structure_defs go_monad)

lemma Structure_AtomicLen_not_wlocked:
  "\<not> wlocked s \<Longrightarrow> Structure_AtomicLen s = Ret (Structure_Len s) s"
  by (simp add: Structure_defs go_monad)

lemma runs_Lock [wp]:
  "runs Structure_Lock s Q = (unlocked s \<and> Q () (s\<lparr>wlocked := True\<rparr>))"
  by (auto simp: runs_def unlocked_def Structure_Lock_def)

lemma runs_Unlock [wp]: "runs Structure_Unlock s Q = (wlocked s \<and> Q () (s\<lparr>wlocked := False\<rparr>))"
  by (auto simp: runs_def Structure_Unlock_def)

lemma runs_RLock [wp]:
  "runs Structure_RLock s Q = (\<not> wlocked s \<and> Q () (s\<lparr>rlocks := rlocks s + 1\<rparr>))"
  by (auto simp: runs_def Structure_RLock_def)

lemma runs_RUnlock [wp]: "runs Structure_RUnlock s Q = (rlocks s \<noteq> 0 \<and> Q () (s\<lparr>rlocks := rlocks s - 1\<rparr>))"
  by (auto simp: runs_def Structure_RUnlock_def)

text \<open>The mutex is not reentrant: an atomic operation under the write lock never returns.\<close>

lemma Structure_atomic_wlocked:
  assumes "wlocked s"
  shows "Structure_AtomicSet k v s = Blocked ''Lock'' s"
    and "Structure_AtomicRemove k s = Blocked ''Lock'' s"
    and "Structure_AtomicGet k s = Blocked ''RLock'' s"
    and "Structure_AtomicGetNoCheck z k s = Blocked ''RLock'' s"
    and "Structure_AtomicLen s = Blocked ''RLock'' s"
  using assms by (simp_all add: Structure_defs go_monad)

lemma Structure_unlocked_set [simp]:
  "unlocked (Structure_Set k v s) = unlocked s" "unlocked (Structure_Remove k s) = unlocked s"
  by (simp_all add: unlocked_def Structure_defs)

lemma AtomicMap_KeyValues_eq: "AtomicMap_KeyValues c = (AtomicMap_Keys c, AtomicMap_Values c)"
proof -
  have "foldl (\<lambda>(ks, vs) (k, v). (ks @ [k], vs @ [v])) (ks0, vs0) m = (ks0 @ map fst m, vs0 @ map snd m)"
    for ks0 :: "'a list" and vs0 :: "'b list" and m
    by (induction m arbitrary: ks0 vs0) auto
  then show ?thesis
    by (simp add: AtomicMap_KeyValues_def AtomicMap_Keys_def AtomicMap_Values_def)
qed

section \<open>Difference and ExtractField\<close>

lemma map_of_foldl_set:
  "map_of (foldl (\<lambda>mb x. gm_set x () mb) mb b) x =
     (if x \<in> set b then Some () else map_of mb x)"
  by (induction b arbitrary: mb) auto

lemma not_found_filter: "not_found mb a = filter (\<lambda>x. map_of mb x = None) a"
  by (induction a) auto

lemma Difference_filter: "Difference a b = filter (\<lambda>x. x \<notin> set b) a"
  by (simp add: Difference_def not_found_filter map_of_foldl_set cong: filter_cong)

lemma set_Difference [simp]: "set (Difference a b) = set a - set b"
  by (auto simp: Difference_filter)

lemma distinct_Difference: "distinct a \<Longrightarrow> distinct (Difference a b)"
  by (simp add: Difference_filter)

lemma Difference_self [simp]: "Difference a a = []"
  by (simp add: Difference_filter filter_empty_conv)

lemma ExtractField_fold:
  "foldl (\<lambda>(res, mm) x. (res @ [f x], gm_set (f x) x mm)) (r0, m0) xs =
     (r0 @ map f xs, foldl (\<lambda>mm x. gm_set (f x) x mm) m0 xs)"
  by (induction xs arbitrary: r0 m0) auto

lemma fst_ExtractField [simp]: "fst (ExtractField xs f) = map f xs"
  by (simp add: ExtractField_def ExtractField_fold)

lemma snd_ExtractField_lookup:
  assumes "map_of (snd (ExtractField xs f)) k = Some x"
  shows "x \<in> set xs \<and> f x = k"
proof -
  have "map_of (foldl (\<lambda>mm x. gm_set (f x) x mm) m xs) k = Some x \<Longrightarrow>
      (x \<in> set xs \<and> f x = k) \<or> map_of m k = Some x" for m
    by (induction xs arbitrary: m) (fastforce split: if_splits)+
  from this [of "[]"] assms show ?thesis by (auto simp: ExtractField_def ExtractField_fold)
qed

lemma count_list_Difference:
  "count_list (Difference a b) x = (if x \<in> set b then 0 else count_list a x)"
proof -
  have "count_list (filter P a) x = (if P x then count_list a x else 0)" for P
    by (induction a) auto
  then show ?thesis by (simp add: Difference_filter)
qed

end
