(* ===== verification/Proto_Types.thy ===== *)
theory Proto_Types
  imports Go_Base Complex_Main
begin

text \<open>
  The messages the components exchange, from the structures of \<^verbatim>\<open>api/proto\<close>. The reflection and
  size-cache fields of the generated structures carry no data and are left out. Narrow integers
  that are only stored, compared or widened are \<^typ>\<open>int\<close>; the counters on which the code does
  wrapping arithmetic are words. Floating point fields are \<^typ>\<open>real\<close>.
\<close>

section \<open>common.proto\<close>

datatype L4Protocol = L4Protocol_TCP | L4Protocol_UDP

record PortMapping =
  pm_HostPort :: int
  pm_GuestPort :: int
  pm_Protocol :: L4Protocol

record AutoscalingConfiguration =
  ScalingUpperBound :: int
  ScalingLowerBound :: int
  PanicThresholdPercentage :: real
  MaxScaleUpRate :: real
  MaxScaleDownRate :: real
  ContainerConcurrency :: int
  ContainerConcurrencyTargetPercentage :: int
  StableWindowWidthSeconds :: int
  PanicWindowWidthSeconds :: int
  ScalingPeriodSeconds :: int
  ScalingMethod :: int

record ServiceInfo =
  si_Name :: string
  si_Image :: string
  si_RequestedCpu :: uint64
  si_RequestedMemory :: uint64
  si_PortForwarding :: PortMapping
  si_AutoscalingConfig :: AutoscalingConfiguration

record ActionStatus =
  as_Success :: bool
  as_Message :: string

record DataplaneInformation =
  di_Address :: string
  di_ApiPort :: string
  di_ProxyPort :: string

record WorkerNodeInformation =
  wi_Name :: string
  wi_Ip :: string
  wi_Port :: string
  wi_CpuCores :: uint64
  wi_Memory :: uint64

record ProtoEndpoint =
  \<comment> \<open>\<^verbatim>\<open>proto.Endpoint\<close>\<close>
  pe_SandboxID :: string
  pe_URL :: string
  pe_NodeName :: string
  pe_ServiceName :: string
  pe_HostPort :: int

section \<open>control\_plane\_interface.proto\<close>

record NodeInfo =
  ni_NodeID :: string
  ni_IP :: string
  ni_Port :: int
  ni_CpuCores :: uint64
  ni_MemorySize :: uint64

record NodeHeartbeatMessage =
  hb_NodeID :: string
  hb_CpuUsage :: uint64
  hb_MemoryUsage :: uint64

record AutoscalingMetric =
  am_ServiceName :: string
  am_DataplaneName :: string
  am_InflightRequests :: int32

record DataplaneInfo =
  dpi_IP :: string
  dpi_APIPort :: int
  dpi_ProxyPort :: int

datatype FailureType = SANDBOX_FAILURE | SANDBOX_DAEMON_FAILURE | WORKER_NODE_FAILURE

record Failure =
  f_Type :: FailureType
  f_ServiceName :: string
  f_SandboxIDs :: "string list"

record HAProxyConfig =
  hc_Dataplanes :: "string list"
  hc_RegistrationServers :: "string list"

section \<open>data\_plane\_interface.proto\<close>

record EndpointInfo =
  ei_ID :: string
  ei_URL :: string

record DeploymentEndpointPatch =
  \<comment> \<open>a nil \<^verbatim>\<open>Service\<close> and a nil \<^verbatim>\<open>Endpoints\<close> slice are \<^term>\<open>None\<close>\<close>
  patch_Service :: "ServiceInfo option"
  patch_Endpoints :: "EndpointInfo list option"

section \<open>raft.proto\<close>

record RequestVoteArgs =
  rv_Term :: int
  rv_CandidateID :: int

record RequestVoteReply =
  rvr_Term :: int
  rvr_VoteGranted :: bool

record AppendEntriesArgs =
  ae_Term :: int
  ae_LeaderID :: int

record AppendEntriesReply =
  aer_Term :: int
  aer_Success :: bool

section \<open>worker\_node\_interface.proto\<close>

record SandboxID =
  sid_ID :: string
  sid_HostPort :: int

record SandboxCreationStatus =
  \<comment> \<open>the latency breakdown is measurement data and is left out\<close>
  sc_Success :: bool
  sc_ID :: string
  sc_PortMappings :: "PortMapping option"

abbreviation Success :: ActionStatus where
  "Success \<equiv> \<lparr>as_Success = True, as_Message = ''''\<rparr>"

abbreviation Failed :: ActionStatus where
  "Failed \<equiv> \<lparr>as_Success = False, as_Message = ''''\<rparr>"

end
