(* ===== verification/Function_Metadata.thy ===== *)
theory Function_Metadata
  imports Sync_Maps Proto_Types
begin

text \<open>
  The data plane's view of a function (\<^verbatim>\<open>internal/data_plane/function_metadata\<close>): the sandboxes it can
  send requests to, the requests waiting for a cold start, the counters for the autoscaler and for the
  statistics, and the list of deployments. Endpoints and wait channels are objects that requests keep
  pointers to, so the record holds them in two heaps and the lists hold addresses. Times are only measured
  for the traces and are left out, except the time stamp of the scaling metric.
\<close>

section \<open>Mutexes and channels\<close>

record RWMutex =
  mu_w :: bool
  mu_r :: nat

definition mu_Lock :: "(RWMutex, unit) go" where
  "mu_Lock m = (if mu_w m \<or> mu_r m \<noteq> 0 then Blocked ''Lock'' m else Ret () (m\<lparr>mu_w := True\<rparr>))"

definition mu_Unlock :: "(RWMutex, unit) go" where
  "mu_Unlock m = (if mu_w m then Ret () (m\<lparr>mu_w := False\<rparr>) else Panic ''Unlock of unlocked RWMutex'' m)"

definition mu_RLock :: "(RWMutex, unit) go" where
  "mu_RLock m = (if mu_w m then Blocked ''RLock'' m else Ret () (m\<lparr>mu_r := mu_r m + 1\<rparr>))"

definition mu_RUnlock :: "(RWMutex, unit) go" where
  "mu_RUnlock m = (if mu_r m = 0 then Panic ''RUnlock of unlocked RWMutex'' m else Ret () (m\<lparr>mu_r := mu_r m - 1\<rparr>))"

abbreviation mu_free :: RWMutex where
  "mu_free \<equiv> \<lparr>mu_w = False, mu_r = 0\<rparr>"

text \<open>A buffered channel of empty structs.\<close>

record tokens =
  tk_cap :: nat
  tk_len :: nat

definition tk_send :: "(tokens, unit) go" where
  "tk_send c = (if tk_len c < tk_cap c then Ret () (c\<lparr>tk_len := tk_len c + 1\<rparr>) else Blocked ''send'' c)"

definition tk_recv :: "(tokens, unit) go" where
  "tk_recv c = (if tk_len c > 0 then Ret () (c\<lparr>tk_len := tk_len c - 1\<rparr>) else Blocked ''receive'' c)"

section \<open>The metadata of a function\<close>

type_synonym RequestThrottler = tokens

record UpstreamEndpoint =
  \<comment> \<open>a nil channel is \<^term>\<open>None\<close>\<close>
  ue_ID :: string
  ue_Capacity :: "RequestThrottler option"
  ue_URL :: string
  ue_Drained :: int32
  ue_DrainingCallback :: "tokens option"
  ue_InFlight :: int32

record LoadBalancingMetadata =
  RoundRobinCounter :: uint32
  KubernetesRoundRobinCounter :: uint32
  RequestCountPerInstance :: "nat AtomicMapCounter"

datatype ColdStartOutcome = SuccessfulColdStart | CanceledColdStart

record ScalingMetric =
  sm_timestamp :: int
  sm_timeWindowSize :: int
  sm_inflightRequests :: int32

record FunctionStatistics =
  SuccessfulInvocations :: int64
  Inflight :: int64
  QueueDepth :: int64

record FunctionMetadata =
  fm_mu :: RWMutex
  fm_dataPlaneID :: string
  fm_identifier :: string
  fm_sandboxParallelism :: nat
  fm_upstreamEndpoints :: "nat list"
  fm_activeEndpointCount :: int32
  fm_queue :: "nat list"
  fm_loadBalancingMetadata :: LoadBalancingMetadata
  fm_scalingMetric :: ScalingMetric
  fm_statistics :: FunctionStatistics
  fm_autoscalingTriggered :: int32
  \<comment> \<open>the objects: endpoints, wait channels with their buffer (of capacity 1), the next free address\<close>
  fm_objects :: "(nat, UpstreamEndpoint) gomap"
  fm_channels :: "(nat, ColdStartOutcome list) gomap"
  fm_next :: nat

definition UnlimitedConcurrency :: nat where
  "UnlimitedConcurrency = 0"

definition NewFunctionMetadata :: "string \<Rightarrow> string \<Rightarrow> FunctionMetadata" where
  "NewFunctionMetadata name dataplaneID = \<lparr>fm_mu = mu_free, fm_dataPlaneID = dataplaneID, fm_identifier = name,
     fm_sandboxParallelism = 1, fm_upstreamEndpoints = [], fm_activeEndpointCount = 0, fm_queue = [],
     fm_loadBalancingMetadata = \<lparr>RoundRobinCounter = 0, KubernetesRoundRobinCounter = 0,
        RequestCountPerInstance = NewAtomicMap\<rparr>,
     fm_scalingMetric = \<lparr>sm_timestamp = 0, sm_timeWindowSize = 2000000000, sm_inflightRequests = 0\<rparr>,
     fm_statistics = \<lparr>SuccessfulInvocations = 0, Inflight = 0, QueueDepth = 0\<rparr>, fm_autoscalingTriggered = 0,
     fm_objects = [], fm_channels = [], fm_next = 0\<rparr>"

abbreviation on_mu :: "(RWMutex, 'a) go \<Rightarrow> (FunctionMetadata, 'a) go" where
  "on_mu m \<equiv> gzoom fm_mu (\<lambda>x s. s\<lparr>fm_mu := x\<rparr>) m"

definition on_endpoint :: "nat \<Rightarrow> (UpstreamEndpoint, 'a) go \<Rightarrow> (FunctionMetadata, 'a) go" where
  \<comment> \<open>a method on the endpoint a pointer refers to\<close>
  "on_endpoint a m s = (case map_of (fm_objects s) a of
       None \<Rightarrow> Panic ''nil pointer dereference'' s
     | Some e \<Rightarrow> gzoom (\<lambda>_. e) (\<lambda>e' s. s\<lparr>fm_objects := gm_set a e' (fm_objects s)\<rparr>) m s)"

section \<open>Statistics\<close>

definition IncrementSuccessfulInvocations :: "FunctionStatistics \<Rightarrow> FunctionStatistics" where
  "IncrementSuccessfulInvocations fs = fs\<lparr>SuccessfulInvocations := SuccessfulInvocations fs + 1\<rparr>"

definition IncrementInflight :: "FunctionStatistics \<Rightarrow> FunctionStatistics" where
  "IncrementInflight fs = fs\<lparr>Inflight := Inflight fs + 1\<rparr>"

definition DecrementInflight :: "FunctionStatistics \<Rightarrow> FunctionStatistics" where
  "DecrementInflight fs = fs\<lparr>Inflight := Inflight fs - 1\<rparr>"

definition IncrementQueueDepth :: "FunctionStatistics \<Rightarrow> FunctionStatistics" where
  "IncrementQueueDepth fs = fs\<lparr>QueueDepth := QueueDepth fs + 1\<rparr>"

definition DecrementQueueDepth :: "FunctionStatistics \<Rightarrow> FunctionStatistics" where
  "DecrementQueueDepth fs = fs\<lparr>QueueDepth := QueueDepth fs - 1\<rparr>"

definition AggregateStatistics :: "FunctionMetadata list \<Rightarrow> FunctionStatistics" where
  \<comment> \<open>the additions of the goroutines are atomic and commute\<close>
  "AggregateStatistics fns = foldl (\<lambda>agg f. \<lparr>
       SuccessfulInvocations = SuccessfulInvocations agg + SuccessfulInvocations (fm_statistics f),
       Inflight = Inflight agg + Inflight (fm_statistics f),
       QueueDepth = QueueDepth agg + QueueDepth (fm_statistics f)\<rparr>)
     \<lparr>SuccessfulInvocations = 0, Inflight = 0, QueueDepth = 0\<rparr> fns"

lemmas statistics_defs = IncrementSuccessfulInvocations_def IncrementInflight_def DecrementInflight_def
  IncrementQueueDepth_def DecrementQueueDepth_def

abbreviation on_statistics :: "(FunctionStatistics \<Rightarrow> FunctionStatistics) \<Rightarrow> (FunctionMetadata, unit) go" where
  "on_statistics f \<equiv> gmodify (\<lambda>s. s\<lparr>fm_statistics := f (fm_statistics s)\<rparr>)"

section \<open>Load balancing counters\<close>

definition GetRoundRobinCounter :: "(FunctionMetadata, nat) go" where
  \<comment> \<open>panics on an empty list: integer divide by zero\<close>
  "GetRoundRobinCounter = gbind (gget (\<lambda>s. (RoundRobinCounter (fm_loadBalancingMetadata s), fm_upstreamEndpoints s))) (\<lambda>(c, es).
     if (of_nat (length es) :: uint32) = 0 then gpanic ''integer divide by zero''
     else gret (unat (c mod of_nat (length es))))"

definition IncrementRoundRobinCounter :: "FunctionMetadata \<Rightarrow> FunctionMetadata" where
  "IncrementRoundRobinCounter s = s\<lparr>fm_loadBalancingMetadata := (fm_loadBalancingMetadata s)
     \<lparr>RoundRobinCounter := RoundRobinCounter (fm_loadBalancingMetadata s) + 1\<rparr>\<rparr>"

definition GetKubernetesRoundRobinCounter :: "(FunctionMetadata, nat) go" where
  "GetKubernetesRoundRobinCounter = gbind (gget (\<lambda>s. (KubernetesRoundRobinCounter (fm_loadBalancingMetadata s), fm_upstreamEndpoints s))) (\<lambda>(c, es).
     if (of_nat (length es) :: uint32) = 0 then gpanic ''integer divide by zero''
     else gret (unat (c mod of_nat (length es))))"

definition IncrementKubernetesRoundRobinCounter :: "FunctionMetadata \<Rightarrow> FunctionMetadata" where
  "IncrementKubernetesRoundRobinCounter s = s\<lparr>fm_loadBalancingMetadata := (fm_loadBalancingMetadata s)
     \<lparr>KubernetesRoundRobinCounter := KubernetesRoundRobinCounter (fm_loadBalancingMetadata s) + 1\<rparr>\<rparr>"

definition IncrementRequestCountPerInstance :: "nat \<Rightarrow> FunctionMetadata \<Rightarrow> FunctionMetadata" where
  "IncrementRequestCountPerInstance a s = s\<lparr>fm_loadBalancingMetadata := (fm_loadBalancingMetadata s)
     \<lparr>RequestCountPerInstance := AtomicMapCounter_AtomicIncrement a (RequestCountPerInstance (fm_loadBalancingMetadata s))\<rparr>\<rparr>"

definition GetLocalQueueLength :: "FunctionMetadata \<Rightarrow> nat \<Rightarrow> int64" where
  "GetLocalQueueLength s a = AtomicMapCounter_Get (RequestCountPerInstance (fm_loadBalancingMetadata s)) a"

section \<open>Endpoints\<close>

fun fillThrottler :: "nat \<Rightarrow> (tokens, unit) go" where
  "fillThrottler 0 = gret ()"
| "fillThrottler (Suc n) = gthen tk_send (fillThrottler n)"

definition createThrottlerChannel :: "nat \<Rightarrow> RequestThrottler" where
  "createThrottlerChannel capacity = out_state (fillThrottler capacity \<lparr>tk_cap = capacity, tk_len = 0\<rparr>)"

definition endpointDelta :: "UpstreamEndpoint list \<Rightarrow> EndpointInfo list \<Rightarrow>
   (string, UpstreamEndpoint) gomap \<times> (string, EndpointInfo) gomap \<times> string list \<times> string list" where
  "endpointDelta oldEndpoints newEndpoints =
     (let (oldURLs, mmOld) = ExtractField oldEndpoints ue_URL;
          (newURLs, mmNew) = ExtractField newEndpoints ei_URL
      in (mmOld, mmNew, Difference newURLs oldURLs, Difference oldURLs newURLs))"

definition newUpstreamEndpoint :: "nat \<Rightarrow> EndpointInfo \<Rightarrow> UpstreamEndpoint" where
  "newUpstreamEndpoint parallelism d = \<lparr>ue_ID = ei_ID d, ue_Capacity = Some (createThrottlerChannel parallelism),
     ue_URL = ei_URL d, ue_Drained = 0, ue_DrainingCallback = None, ue_InFlight = 0\<rparr>"

definition addEndpoint :: "EndpointInfo \<Rightarrow> FunctionMetadata \<Rightarrow> FunctionMetadata" where
  "addEndpoint d s = s\<lparr>fm_objects := gm_set (fm_next s) (newUpstreamEndpoint (fm_sandboxParallelism s) d) (fm_objects s),
     fm_upstreamEndpoints := fm_upstreamEndpoints s @ [fm_next s], fm_next := fm_next s + 1\<rparr>"

definition addToEndpointList :: "EndpointInfo list \<Rightarrow> FunctionMetadata \<Rightarrow> FunctionMetadata" where
  "addToEndpointList data s = foldl (\<lambda>s d. addEndpoint d s) s data"

definition setActiveEndpointCount :: "FunctionMetadata \<Rightarrow> FunctionMetadata" where
  "setActiveEndpointCount s = s\<lparr>fm_activeEndpointCount := of_nat (length (fm_upstreamEndpoints s))\<rparr>"

definition signal :: "nat \<Rightarrow> ColdStartOutcome \<Rightarrow> (FunctionMetadata, unit) go" where
  \<comment> \<open>a send on a wait channel, whose buffer has room for one value\<close>
  "signal ch outcome s = (case gm_get [] (fm_channels s) ch of
       [] \<Rightarrow> Ret () (s\<lparr>fm_channels := gm_set ch [outcome] (fm_channels s)\<rparr>)
     | _ \<Rightarrow> Blocked ''send'' s)"

fun dequeueAll :: "nat list \<Rightarrow> (FunctionMetadata, unit) go" where
  \<comment> \<open>the loop over the queue, which is locked meanwhile\<close>
  "dequeueAll [] = gret ()"
| "dequeueAll (ch # rest) = gthen (gmodify (\<lambda>s. s\<lparr>fm_queue := rest\<rparr>)) (gthen (signal ch SuccessfulColdStart) (dequeueAll rest))"

definition AddEndpoints :: "EndpointInfo list \<Rightarrow> (FunctionMetadata, unit) go" where
  "AddEndpoints endpoints = gthen (on_mu mu_Lock) (gdefer (on_mu mu_Unlock)
     (gthen (gmodify (addToEndpointList endpoints))
       (gthen (gmodify setActiveEndpointCount)
         (gbind (gget (\<lambda>s. (fm_upstreamEndpoints s, fm_queue s))) (\<lambda>(es, q).
            gwhen (es \<noteq> []) (dequeueAll q))))))"

fun removeFirst :: "(nat \<Rightarrow> string) \<Rightarrow> string \<Rightarrow> nat list \<Rightarrow> nat list" where
  "removeFirst url u [] = []"
| "removeFirst url u (a # es) = (if url a = u then es else a # removeFirst url u es)"

definition urlOf :: "FunctionMetadata \<Rightarrow> nat \<Rightarrow> string" where
  "urlOf s a = (case map_of (fm_objects s) a of None \<Rightarrow> [] | Some e \<Rightarrow> ue_URL e)"

definition fm_removeEndpoints :: "EndpointInfo list \<Rightarrow> FunctionMetadata \<Rightarrow> FunctionMetadata" where
  "fm_removeEndpoints endpoints s = setActiveEndpointCount (s\<lparr>fm_upstreamEndpoints :=
     foldl (\<lambda>es d. removeFirst (urlOf s) (ei_URL d) es) (fm_upstreamEndpoints s) endpoints\<rparr>)"

definition markDraining :: "(UpstreamEndpoint, bool) go" where
  \<comment> \<open>marks one endpoint; \<^term>\<open>True\<close> if it was not marked before\<close>
  "markDraining e = (let e' = e\<lparr>ue_Drained := 1\<rparr> in
     if ue_Drained e = 0
     then Ret True (e'\<lparr>ue_DrainingCallback := Some \<lparr>tk_cap = 1, tk_len = (if ue_InFlight e = 0 then 1 else 0)\<rparr>\<rparr>)
     else Ret False e')"

fun markAll :: "string set \<Rightarrow> nat list \<Rightarrow> nat list \<Rightarrow> (FunctionMetadata, nat list) go" where
  "markAll ids [] barriers = gret barriers"
| "markAll ids (a # es) barriers =
     gbind (on_endpoint a (gget ue_ID)) (\<lambda>i.
       if i \<in> ids then gbind (on_endpoint a markDraining) (\<lambda>new. markAll ids es (if new then barriers @ [a] else barriers))
       else markAll ids es barriers)"

definition markEndpointsAsDraining :: "EndpointInfo list \<Rightarrow> (FunctionMetadata, nat list) go" where
  \<comment> \<open>the callback channel of an endpoint is made once; its barrier is the address of the endpoint\<close>
  "markEndpointsAsDraining endpoints = gbind (gget fm_upstreamEndpoints) (\<lambda>es. markAll (ei_ID ` set endpoints) es [])"

definition startDraining :: "EndpointInfo list \<Rightarrow> (FunctionMetadata, nat list) go" where
  \<comment> \<open>the locked section of \<^verbatim>\<open>DrainEndpoints\<close>\<close>
  "startDraining endpoints = gthen (on_mu mu_Lock)
     (gbind (markEndpointsAsDraining endpoints) (\<lambda>barriers.
        gthen (gmodify (fm_removeEndpoints endpoints)) (gthen (on_mu mu_Unlock) (gret barriers))))"

definition waitForBarrier :: "nat \<Rightarrow> (FunctionMetadata, unit) go" where
  "waitForBarrier a = on_endpoint a (\<lambda>e. case ue_DrainingCallback e of
       None \<Rightarrow> Blocked ''receive from nil channel'' e
     | Some c \<Rightarrow> (case tk_recv c of Ret x c' \<Rightarrow> Ret x (e\<lparr>ue_DrainingCallback := Some c'\<rparr>)
                   | Panic r _ \<Rightarrow> Panic r e | Blocked r _ \<Rightarrow> Blocked r e))"

definition waitForDrainingToComplete :: "nat list \<Rightarrow> (FunctionMetadata, unit) go" where
  "waitForDrainingToComplete barriers =
     gthen (grange barriers (\<lambda>a. gthen (waitForBarrier a) (gret (None :: unit option)))) (gret ())"

definition DrainEndpoints :: "EndpointInfo list \<Rightarrow> (FunctionMetadata, unit) go" where
  "DrainEndpoints endpoints = gbind (startDraining endpoints) waitForDrainingToComplete"

definition RemoveAllEndpoints :: "(FunctionMetadata, unit) go" where
  "RemoveAllEndpoints = gthen (on_mu mu_Lock) (gdefer (on_mu mu_Unlock)
     (gmodify (\<lambda>s. s\<lparr>fm_upstreamEndpoints := [], fm_activeEndpointCount := 0\<rparr>)))"

definition SetEndpoints :: "nat list \<Rightarrow> FunctionMetadata \<Rightarrow> FunctionMetadata" where
  "SetEndpoints newEndpoints s = s\<lparr>fm_upstreamEndpoints := newEndpoints\<rparr>"

section \<open>Requests and the autoscaling metric\<close>

definition addInflight :: "int32 \<Rightarrow> FunctionMetadata \<Rightarrow> FunctionMetadata" where
  "addInflight d s = s\<lparr>fm_scalingMetric := (fm_scalingMetric s)\<lparr>sm_inflightRequests := sm_inflightRequests (fm_scalingMetric s) + d\<rparr>\<rparr>"

definition DecreaseInflight :: "FunctionMetadata \<Rightarrow> FunctionMetadata" where
  "DecreaseInflight s = addInflight (-1) s"

definition triggerAutoscaling :: "int \<Rightarrow> (FunctionMetadata, bool) go" where
  \<comment> \<open>\<^term>\<open>True\<close> if the goroutine \<^verbatim>\<open>sendMetricsToAutoscaler\<close> has been started\<close>
  "triggerAutoscaling now s =
     (if fm_autoscalingTriggered s = 0
      then Ret True (s\<lparr>fm_autoscalingTriggered := 1, fm_scalingMetric := (fm_scalingMetric s)\<lparr>sm_timestamp := now\<rparr>\<rparr>)
      else Ret False s)"

definition enqueue :: "(FunctionMetadata, nat) go" where
  \<comment> \<open>the cold branch of \<^verbatim>\<open>TryWarmStart\<close>, entered after the counter has been read as 0\<close>
  "enqueue = gbind (gget fm_next) (\<lambda>ch.
     gthen (gmodify (\<lambda>s. s\<lparr>fm_channels := gm_set ch [] (fm_channels s), fm_next := fm_next s + 1\<rparr>))
       (gthen (on_mu mu_Lock) (gdefer (on_mu mu_Unlock)
          (gthen (gmodify (\<lambda>s. s\<lparr>fm_queue := fm_queue s @ [ch]\<rparr>))
            (gthen (on_statistics IncrementQueueDepth) (gret ch))))))"

definition admit :: "int \<Rightarrow> (FunctionMetadata, bool) go" where
  \<comment> \<open>the first part of \<^verbatim>\<open>TryWarmStart\<close>, up to the read of the counter: \<^term>\<open>True\<close> for a warm start\<close>
  "admit now = gthen (gmodify (addInflight 1))
     (gthen (on_statistics IncrementInflight)
       (gthen (triggerAutoscaling now) (gget (\<lambda>s. fm_activeEndpointCount s \<noteq> 0))))"

definition TryWarmStart :: "int \<Rightarrow> (FunctionMetadata, nat option) go" where
  \<comment> \<open>the channel to wait on, nil for a warm start\<close>
  "TryWarmStart now = gbind (admit now) (\<lambda>warm. if warm then gret None else gbind enqueue (\<lambda>ch. gret (Some ch)))"

definition metricsRound :: "(FunctionMetadata, AutoscalingMetric \<times> bool) go" where
  \<comment> \<open>one round of \<^verbatim>\<open>sendMetricsToAutoscaler\<close>: the metric it sends, and whether the loop ends\<close>
  "metricsRound = gthen (on_mu mu_Lock)
     (gbind (gget (\<lambda>s. (sm_inflightRequests (fm_scalingMetric s), fm_identifier s, fm_dataPlaneID s))) (\<lambda>(n, name, dp).
        gthen (gwhen (n = 0) (gmodify (\<lambda>s. s\<lparr>fm_autoscalingTriggered := 0\<rparr>)))
          (gthen (on_mu mu_Unlock)
            (gret (\<lparr>am_ServiceName = name, am_DataplaneName = dp, am_InflightRequests = n\<rparr>, n = 0)))))"

section \<open>Deployments\<close>

record Deployments =
  dep_data :: "(string, FunctionMetadata) gomap"
  dep_mu :: RWMutex

definition NewDeploymentList :: Deployments where
  "NewDeploymentList = \<lparr>dep_data = [], dep_mu = mu_free\<rparr>"

abbreviation on_dep_mu :: "(RWMutex, 'a) go \<Rightarrow> (Deployments, 'a) go" where
  "on_dep_mu m \<equiv> gzoom dep_mu (\<lambda>x s. s\<lparr>dep_mu := x\<rparr>) m"

definition AddDeployment :: "string \<Rightarrow> string \<Rightarrow> (Deployments, bool) go" where
  "AddDeployment name dataplaneID = gthen (on_dep_mu mu_Lock) (gdefer (on_dep_mu mu_Unlock)
     (gbind (gget (\<lambda>d. map_of (dep_data d) name)) (\<lambda>old. case old of
         Some _ \<Rightarrow> gret False
       | None \<Rightarrow> gthen (gmodify (\<lambda>d. d\<lparr>dep_data := gm_set name (NewFunctionMetadata name dataplaneID) (dep_data d)\<rparr>))
                   (gret True))))"

definition GetDeployment :: "string \<Rightarrow> (Deployments, FunctionMetadata option) go" where
  "GetDeployment name = gthen (on_dep_mu mu_RLock) (gdefer (on_dep_mu mu_RUnlock) (gget (\<lambda>d. map_of (dep_data d) name)))"

definition DeleteDeployment :: "string \<Rightarrow> (Deployments, bool) go" where
  "DeleteDeployment name = gthen (on_dep_mu mu_Lock) (gdefer (on_dep_mu mu_Unlock)
     (gbind (gget (\<lambda>d. map_of (dep_data d) name)) (\<lambda>old. case old of
         Some _ \<Rightarrow> gthen (gmodify (\<lambda>d. d\<lparr>dep_data := gm_del name (dep_data d)\<rparr>)) (gret True)
       | None \<Rightarrow> gret False)))"

definition ListDeployments :: "(Deployments, FunctionMetadata list) go" where
  "ListDeployments = gthen (on_dep_mu mu_RLock) (gdefer (on_dep_mu mu_RUnlock) (gget (\<lambda>d. map snd (dep_data d))))"

end
