(* ===== verification/Load_Balancing.thy ===== *)
theory Load_Balancing
  imports Function_Metadata "HOL-Library.Multiset"
begin

text \<open>
  The load balancing policies of the data plane (\<^verbatim>\<open>proxy/load_balancing\<close>). The random numbers are an
  argument: \<open>rnd n\<close> is the answer of \<^verbatim>\<open>rand.Intn(n)\<close>. The loop that looks for an endpoint and for capacity
  is the one of \<^verbatim>\<open>DoLoadBalancing\<close>; a wait for capacity that takes too long is a step that fails.
\<close>

section \<open>The policies\<close>

datatype LoadBalancingPolicy = LOAD_BALANCING_RANDOM | LOAD_BALANCING_ROUND_ROBIN
  | LOAD_BALANCING_LEAST_PROCESSED | LOAD_BALANCING_KNATIVE

definition index_at :: "nat list \<Rightarrow> nat \<Rightarrow> (FunctionMetadata, nat) go" where
  "index_at es i = (if i < length es then gret (es ! i) else gpanic ''index out of range'')"

definition randomEndpoint :: "(nat \<Rightarrow> nat) \<Rightarrow> nat list \<Rightarrow> (FunctionMetadata, nat) go" where
  "randomEndpoint rnd endpoints =
     (if endpoints = [] then gpanic ''invalid argument to Intn'' else index_at endpoints (rnd (length endpoints)))"

definition randomLoadBalancing :: "(nat \<Rightarrow> nat) \<Rightarrow> (FunctionMetadata, nat) go" where
  "randomLoadBalancing rnd = gbind (gget fm_upstreamEndpoints) (randomEndpoint rnd)"

definition roundRobinLoadBalancing :: "(FunctionMetadata, nat) go" where
  "roundRobinLoadBalancing = gbind (gget fm_upstreamEndpoints) (\<lambda>endpoints.
     gbind GetRoundRobinCounter (\<lambda>c. gbind (index_at endpoints c) (\<lambda>outputEndpoint.
       gthen (gmodify IncrementRoundRobinCounter) (gret outputEndpoint))))"

fun leastLoop :: "(nat \<Rightarrow> int64) \<Rightarrow> nat list \<Rightarrow> nat \<times> int64 \<Rightarrow> nat" where
  "leastLoop cnt [] (minEndpoint, minValue) = minEndpoint"
| "leastLoop cnt (a # es) (minEndpoint, minValue) =
     (if sint (cnt a) < sint minValue then leastLoop cnt es (a, cnt a)
      else leastLoop cnt es (minEndpoint, minValue))"

definition leastProcessedLoadBalancing :: "(FunctionMetadata, nat) go" where
  "leastProcessedLoadBalancing = gbind (gget (\<lambda>s. (fm_upstreamEndpoints s, GetLocalQueueLength s))) (\<lambda>(endpoints, cnt).
     gbind (index_at endpoints 0) (\<lambda>minEndpoint. gret (leastLoop cnt endpoints (minEndpoint, cnt minEndpoint))))"

definition generateTwoUniformRandomEndpoints :: "(nat \<Rightarrow> nat) \<Rightarrow> nat list \<Rightarrow> (FunctionMetadata, nat \<times> nat) go" where
  "generateTwoUniformRandomEndpoints rnd endpoints = (let size = length endpoints in
     if size \<le> 1 then gpanic ''invalid argument to Intn''
     else let r1 = rnd size; r2 = rnd (size - 1); r2 = (if r2 \<ge> r1 then r2 + 1 else r2)
       in gbind (index_at endpoints r1) (\<lambda>e1. gbind (index_at endpoints r2) (\<lambda>e2. gret (e1, e2))))"

definition bestOfTwoRandoms :: "(nat \<Rightarrow> nat) \<Rightarrow> (FunctionMetadata, nat) go" where
  "bestOfTwoRandoms rnd = gbind (gget (\<lambda>s. (fm_upstreamEndpoints s, GetLocalQueueLength s))) (\<lambda>(endpoints, cnt).
     if length endpoints = 1 then index_at endpoints 0
     else gbind (generateTwoUniformRandomEndpoints rnd endpoints) (\<lambda>(endpoint1, endpoint2).
       gret (if sint (cnt endpoint1) > sint (cnt endpoint2) then endpoint1 else endpoint2)))"

definition hasCapacity :: "FunctionMetadata \<Rightarrow> nat \<Rightarrow> bool" where
  \<comment> \<open>\<^verbatim>\<open>len(endpoint.Capacity) > 0\<close>; a nil channel has length 0\<close>
  "hasCapacity s a = (case map_of (fm_objects s) a of
       Some e \<Rightarrow> (case ue_Capacity e of Some c \<Rightarrow> tk_len c > 0 | None \<Rightarrow> False)
     | None \<Rightarrow> False)"

definition kubernetesFirstAvailableLoadBalancing :: "(nat \<Rightarrow> nat) \<Rightarrow> (FunctionMetadata, nat) go" where
  "kubernetesFirstAvailableLoadBalancing rnd = gbind (gget (\<lambda>s. (fm_upstreamEndpoints s, hasCapacity s))) (\<lambda>(endpoints, free).
     case find free endpoints of Some a \<Rightarrow> gret a | None \<Rightarrow> randomEndpoint rnd endpoints)"

partial_function (option) nextFree :: "(nat \<Rightarrow> bool) \<Rightarrow> uint32 \<Rightarrow> nat \<Rightarrow> uint32 \<Rightarrow> uint32 option" where
  \<comment> \<open>the loop of \<^verbatim>\<open>kubernetesRoundRobinLoadBalancing\<close> on the counter\<close>
  "nextFree free n baseIdx c =
     (if free (unat (c mod n)) then Some c
      else if unat ((c + 1) mod n) = baseIdx then Some (c + 1)
      else nextFree free n baseIdx (c + 1))"

definition setKubernetesCounter :: "uint32 \<Rightarrow> FunctionMetadata \<Rightarrow> FunctionMetadata" where
  "setKubernetesCounter c s = s\<lparr>fm_loadBalancingMetadata := (fm_loadBalancingMetadata s)\<lparr>KubernetesRoundRobinCounter := c\<rparr>\<rparr>"

definition kubernetesRoundRobinLoadBalancing :: "(nat \<Rightarrow> nat) \<Rightarrow> (FunctionMetadata, nat) go" where
  \<comment> \<open>a loop without end blocks\<close>
  "kubernetesRoundRobinLoadBalancing rnd =
     gbind (gget (\<lambda>s. (fm_upstreamEndpoints s, hasCapacity s, KubernetesRoundRobinCounter (fm_loadBalancingMetadata s)))) (\<lambda>(endpoints, free, c).
     gbind GetKubernetesRoundRobinCounter (\<lambda>baseIdx.
       case nextFree (\<lambda>i. free (endpoints ! i)) (of_nat (length endpoints)) baseIdx c of
         None \<Rightarrow> gblock ''loop without end''
       | Some c' \<Rightarrow> gthen (gmodify (setKubernetesCounter c'))
           (gbind GetKubernetesRoundRobinCounter (\<lambda>idx. gbind (index_at endpoints idx) (\<lambda>a.
              if free a then gthen (gmodify IncrementKubernetesRoundRobinCounter) (gret a)
              else randomEndpoint rnd endpoints)))))"

definition kubernetesNativeLoadBalancing :: "(nat \<Rightarrow> nat) \<Rightarrow> (FunctionMetadata, nat) go" where
  "kubernetesNativeLoadBalancing rnd = gbind (gget fm_sandboxParallelism) (\<lambda>containerConcurrency.
     if containerConcurrency = UnlimitedConcurrency then bestOfTwoRandoms rnd
     else if containerConcurrency \<le> 3 then kubernetesFirstAvailableLoadBalancing rnd
     else kubernetesRoundRobinLoadBalancing rnd)"

definition runLoadBalancingAlgorithm :: "(nat \<Rightarrow> nat) \<Rightarrow> LoadBalancingPolicy \<Rightarrow> (FunctionMetadata, nat option) go" where
  "runLoadBalancingAlgorithm rnd policy = gthen (on_mu mu_RLock) (gdefer (on_mu mu_RUnlock)
     (gbind (gget fm_upstreamEndpoints) (\<lambda>endpoints.
        if endpoints = [] then gret None
        else gbind (case policy of
              LOAD_BALANCING_RANDOM \<Rightarrow> randomLoadBalancing rnd
            | LOAD_BALANCING_ROUND_ROBIN \<Rightarrow> roundRobinLoadBalancing
            | LOAD_BALANCING_LEAST_PROCESSED \<Rightarrow> leastProcessedLoadBalancing
            | LOAD_BALANCING_KNATIVE \<Rightarrow> kubernetesNativeLoadBalancing rnd) (\<lambda>a. gret (Some a)))))"

section \<open>Capacity\<close>

definition waitForCapacityOrDie :: "nat \<Rightarrow> (FunctionMetadata, bool) go" where
  \<comment> \<open>a token if there is one, a time-out otherwise; the wait in between belongs to other goroutines\<close>
  "waitForCapacityOrDie a = on_endpoint a (\<lambda>e. case ue_Capacity e of
       None \<Rightarrow> Ret False e
     | Some c \<Rightarrow> if tk_len c > 0 then Ret True (e\<lparr>ue_Capacity := Some (c\<lparr>tk_len := tk_len c - 1\<rparr>)\<rparr>) else Ret False e)"

fun balanceLoop :: "nat \<Rightarrow> (nat \<Rightarrow> nat) \<Rightarrow> LoadBalancingPolicy \<Rightarrow> (FunctionMetadata, nat option) go" where
  "balanceLoop 0 rnd policy = gret None"
| "balanceLoop (Suc retries) rnd policy =
     gbind (runLoadBalancingAlgorithm rnd policy) (\<lambda>endpoint. case endpoint of
         None \<Rightarrow> gpanic ''nil pointer dereference''
       | Some a \<Rightarrow> gbind (waitForCapacityOrDie a) (\<lambda>gotCapacity.
           if gotCapacity then gret (Some a) else balanceLoop retries rnd policy))"

definition startRequest :: "nat \<Rightarrow> (FunctionMetadata, unit) go" where
  \<comment> \<open>the end of \<^verbatim>\<open>DoLoadBalancing\<close>\<close>
  "startRequest a = gthen (on_endpoint a (gmodify (\<lambda>e. e\<lparr>ue_InFlight := ue_InFlight e + 1\<rparr>)))
     (gmodify (IncrementRequestCountPerInstance a))"

definition DoLoadBalancing :: "(nat \<Rightarrow> nat) \<Rightarrow> LoadBalancingPolicy \<Rightarrow> (FunctionMetadata, nat option) go" where
  "DoLoadBalancing rnd policy = gthen (on_statistics IncrementQueueDepth) (gdefer (on_statistics DecrementQueueDepth)
     (gbind (balanceLoop 60 rnd policy) (\<lambda>endpoint. case endpoint of
         None \<Rightarrow> gret None
       | Some a \<Rightarrow> gthen (startRequest a) (gret (Some a)))))"


section \<open>Running code\<close>

lemma runs_mu [wp]:
  "runs mu_Lock m Q = (m = mu_free \<and> Q () (m\<lparr>mu_w := True\<rparr>))"
  "runs mu_Unlock m Q = (mu_w m \<and> Q () (m\<lparr>mu_w := False\<rparr>))"
  "runs mu_RLock m Q = (\<not> mu_w m \<and> Q () (m\<lparr>mu_r := mu_r m + 1\<rparr>))"
  "runs mu_RUnlock m Q = (mu_r m \<noteq> 0 \<and> Q () (m\<lparr>mu_r := mu_r m - 1\<rparr>))"
  by (cases m; auto simp: runs_def mu_Lock_def mu_Unlock_def mu_RLock_def mu_RUnlock_def)+

lemma runs_index_at [wp]: "runs (index_at es i) s Q = (i < length es \<and> Q (es ! i) s)"
  by (simp add: index_at_def wp)

lemma runs_on_endpoint:
  "map_of (fm_objects s) a = Some e \<Longrightarrow>
     runs (on_endpoint a m) s Q = runs m e (\<lambda>x e'. Q x (s\<lparr>fm_objects := gm_set a e' (fm_objects s)\<rparr>))"
  by (simp add: on_endpoint_def runs_def gzoom_def split: outcome.splits)

section \<open>The contract of a policy\<close>

definition rand_ok :: "(nat \<Rightarrow> nat) \<Rightarrow> bool" where
  \<comment> \<open>what \<^verbatim>\<open>rand.Intn\<close> promises\<close>
  "rand_ok rnd \<longleftrightarrow> (\<forall>n > 0. rnd n < n)"

definition lb_frame :: "FunctionMetadata \<Rightarrow> FunctionMetadata \<Rightarrow> bool" where
  \<comment> \<open>only the counters of the load balancer differ\<close>
  "lb_frame s s' \<longleftrightarrow> s' = s\<lparr>fm_loadBalancingMetadata := fm_loadBalancingMetadata s'\<rparr>"

definition some_endpoints :: "FunctionMetadata \<Rightarrow> bool" where
  "some_endpoints s \<longleftrightarrow> fm_upstreamEndpoints s \<noteq> [] \<and> length (fm_upstreamEndpoints s) < 2 ^ 32"

locale lb_policy =
  fixes pick :: "(nat \<Rightarrow> nat) \<Rightarrow> (FunctionMetadata, nat) go"
  assumes picks_endpoint: "rand_ok rnd \<Longrightarrow> some_endpoints s \<Longrightarrow>
     runs (pick rnd) s (\<lambda>a s'. a \<in> set (fm_upstreamEndpoints s) \<and> lb_frame s s')"

lemma unat_len: "some_endpoints s \<Longrightarrow> unat (of_nat (length (fm_upstreamEndpoints s)) :: uint32) = length (fm_upstreamEndpoints s)"
  by (simp add: some_endpoints_def unsigned_of_nat take_bit_eq_mod)

lemma len_word: "some_endpoints s \<Longrightarrow> (of_nat (length (fm_upstreamEndpoints s)) :: uint32) \<noteq> 0"
  using unat_len [of s] by (metis length_0_conv some_endpoints_def unat_0)

lemma randomEndpoint_runs:
  "rand_ok rnd \<Longrightarrow> es \<noteq> [] \<Longrightarrow> runs (randomEndpoint rnd es) s Q = Q (es ! rnd (length es)) s \<and> rnd (length es) < length es"
  by (simp add: randomEndpoint_def wp rand_ok_def)

interpretation random_lb: lb_policy randomLoadBalancing
  by unfold_locales (simp add: randomLoadBalancing_def wp randomEndpoint_runs some_endpoints_def lb_frame_def)

lemma GetRoundRobinCounter_runs:
  assumes "some_endpoints s"
  shows "runs GetRoundRobinCounter s Q =
     Q (unat (RoundRobinCounter (fm_loadBalancingMetadata s)) mod length (fm_upstreamEndpoints s)) s"
  using len_word [OF assms] unat_len [OF assms] by (simp add: GetRoundRobinCounter_def wp unat_mod_distrib)

lemma GetKubernetesRoundRobinCounter_runs:
  assumes "some_endpoints s"
  shows "runs GetKubernetesRoundRobinCounter s Q =
     Q (unat (KubernetesRoundRobinCounter (fm_loadBalancingMetadata s)) mod length (fm_upstreamEndpoints s)) s"
  using len_word [OF assms] unat_len [OF assms] by (simp add: GetKubernetesRoundRobinCounter_def wp unat_mod_distrib)

interpretation round_robin_lb: lb_policy "\<lambda>_. roundRobinLoadBalancing"
  by unfold_locales
    (simp add: roundRobinLoadBalancing_def wp GetRoundRobinCounter_runs, simp add: some_endpoints_def lb_frame_def IncrementRoundRobinCounter_def)

lemma leastLoop_min:
  "leastLoop cnt es (m, cnt m) \<in> insert m (set es)"
  "\<forall>a \<in> insert m (set es). sint (cnt (leastLoop cnt es (m, cnt m))) \<le> sint (cnt a)"
proof (induction es arbitrary: m)
  case (Cons a es)
  { case 1 show ?case using Cons.IH(1) [of m] Cons.IH(1) [of a] by auto }
  { case 2 show ?case using Cons.IH(2) [of m] Cons.IH(2) [of a] by (auto simp: not_less intro: order_trans) }
qed simp_all

interpretation least_lb: lb_policy "\<lambda>_. leastProcessedLoadBalancing"
proof
  fix rnd s
  assume s: "some_endpoints s"
  let ?es = "fm_upstreamEndpoints s" and ?cnt = "GetLocalQueueLength s"
  have "leastLoop ?cnt ?es (?es ! 0, ?cnt (?es ! 0)) \<in> set ?es"
    using leastLoop_min(1) [of ?cnt ?es "?es ! 0"] s by (auto simp: some_endpoints_def)
  with s show "runs leastProcessedLoadBalancing s (\<lambda>a s'. a \<in> set ?es \<and> lb_frame s s')"
    by (simp add: leastProcessedLoadBalancing_def wp lb_frame_def some_endpoints_def)
qed

definition second_random :: "(nat \<Rightarrow> nat) \<Rightarrow> nat \<Rightarrow> nat" where
  "second_random rnd k = (if rnd (k - 1) \<ge> rnd k then rnd (k - 1) + 1 else rnd (k - 1))"

lemma two_randoms:
  assumes "rand_ok rnd" "1 < k"
  shows "rnd k < k \<and> second_random rnd k < k \<and> rnd k \<noteq> second_random rnd k"
proof -
  have "0 < k" "0 < k - 1" using assms(2) by linarith+
  with assms(1) have "rnd k < k" "rnd (k - 1) < k - 1" unfolding rand_ok_def by blast+
  then show ?thesis by (simp add: second_random_def) linarith
qed

lemma generateTwo_runs:
  assumes "rand_ok rnd" "1 < length es"
  shows "runs (generateTwoUniformRandomEndpoints rnd es) s Q =
     Q (es ! rnd (length es), es ! second_random rnd (length es)) s"
  using two_randoms [OF assms] assms(2)
  by (auto simp: generateTwoUniformRandomEndpoints_def Let_def wp second_random_def)

lemma bestOfTwo_runs:
  assumes "rand_ok rnd" "some_endpoints s"
  shows "runs (bestOfTwoRandoms rnd) s (\<lambda>a s'. a \<in> set (fm_upstreamEndpoints s) \<and> lb_frame s s')"
proof (cases "length (fm_upstreamEndpoints s) = 1")
  case True
  then show ?thesis by (simp add: bestOfTwoRandoms_def wp lb_frame_def)
next
  case False
  then have "length (fm_upstreamEndpoints s) > 1" using assms(2) by (cases "fm_upstreamEndpoints s") (auto simp: some_endpoints_def)
  with two_randoms [OF assms(1) this] False show ?thesis
    by (simp add: bestOfTwoRandoms_def wp generateTwo_runs [OF assms(1)] lb_frame_def)
qed

lemma firstAvailable_runs:
  assumes "rand_ok rnd" "some_endpoints s"
  shows "runs (kubernetesFirstAvailableLoadBalancing rnd) s (\<lambda>a s'. a \<in> set (fm_upstreamEndpoints s) \<and> lb_frame s s' \<and>
     ((\<exists>b \<in> set (fm_upstreamEndpoints s). hasCapacity s b) \<longrightarrow> hasCapacity s a))"
proof (cases "find (hasCapacity s) (fm_upstreamEndpoints s)")
  case None
  have "fm_upstreamEndpoints s \<noteq> []" using assms(2) by (simp add: some_endpoints_def)
  note random = randomEndpoint_runs [OF assms(1) this]
  have "\<forall>b \<in> set (fm_upstreamEndpoints s). \<not> hasCapacity s b" using None by (auto simp: find_None_iff)
  with None random show ?thesis
    by (simp add: kubernetesFirstAvailableLoadBalancing_def wp lb_frame_def)
next
  case (Some a)
  then have "a \<in> set (fm_upstreamEndpoints s) \<and> hasCapacity s a" by (auto simp: find_Some_iff)
  with Some show ?thesis by (simp add: kubernetesFirstAvailableLoadBalancing_def wp lb_frame_def)
qed

subsection \<open>The round robin of Kubernetes\<close>

lemma nextFree_returns:
  "unat ((c + of_nat (Suc k)) mod n) = baseIdx \<Longrightarrow> \<exists>c'. nextFree free n baseIdx c = Some c'"
proof (induction k arbitrary: c)
  case 0
  then show ?case by (subst nextFree.simps) simp
next
  case (Suc k)
  have "\<exists>c'. nextFree free n baseIdx (c + 1) = Some c'"
    using Suc.prems by (intro Suc.IH) (simp add: add.assoc)
  then show ?case by (subst nextFree.simps) simp
qed

lemma nextFree_ends: "\<exists>c'. nextFree free n (unat (c mod n)) c = Some c'"
proof (rule nextFree_returns [where k = "2 ^ 32 - 1"])
  have "(of_nat (Suc (2 ^ 32 - 1)) :: uint32) = 0" by simp
  then show "unat ((c + of_nat (Suc (2 ^ 32 - 1))) mod n) = unat (c mod n)" by (simp only: add_0_right)
qed

text \<open>While the counter does not wrap around, the loop finds the first free index of a whole turn.\<close>

lemma unat_counter: "unat c + i < 2 ^ 32 \<Longrightarrow> unat (c + of_nat i :: uint32) = unat c + i"
  by (simp add: unat_word_ariths(1) unsigned_of_nat take_bit_eq_mod)

lemma other_index: "0 < m \<Longrightarrow> m < l \<Longrightarrow> (u + m) mod l \<noteq> u mod (l :: nat)"
  by (metis Nat.add_diff_assoc2 add_diff_cancel_left' le_refl mod_add_self2 mod_eq_dvd_iff_nat nat_dvd_not_less le_add1)

lemma nextFree_finds:
  assumes n: "unat n = l" and nowrap: "unat c + l < 2 ^ 32" and "i \<le> j" "j < l"
    and free: "free ((unat c + j) mod l)" "\<forall>k. i \<le> k \<and> k < j \<longrightarrow> \<not> free ((unat c + k) mod l)"
  shows "nextFree free n (unat c mod l) (c + of_nat i) = Some (c + of_nat j)"
  using assms(3-6)
proof (induction "j - i" arbitrary: i)
  case 0
  then have "i = j" by simp
  moreover have "unat ((c + of_nat j) mod n) = (unat c + j) mod l"
    using n nowrap 0 by (simp add: unat_mod_distrib unat_counter)
  ultimately show ?case using 0 by (subst nextFree.simps) simp
next
  case (Suc d)
  then have i: "i < j" "i + 1 < l" by linarith+
  have idx: "unat ((c + of_nat i) mod n) = (unat c + i) mod l" "unat ((c + of_nat i + 1) mod n) = (unat c + (i + 1)) mod l"
    using n nowrap i unat_counter [of c i] unat_counter [of c "i + 1"] by (simp_all add: unat_mod_distrib ac_simps)
  have "\<not> free ((unat c + i) mod l)" using Suc.prems(4) i by auto
  moreover have "(unat c + (i + 1)) mod l \<noteq> unat c mod l" by (rule other_index) (use i in linarith)+
  moreover have eq: "c + of_nat i + 1 = c + of_nat (i + 1)" by (simp add: ac_simps)
  moreover have "nextFree free n (unat c mod l) (c + of_nat i + 1) = Some (c + of_nat j)"
    unfolding eq using Suc by (intro Suc.hyps) auto
  ultimately show ?case by (subst nextFree.simps) (simp add: idx del: of_nat_Suc of_nat_add)
qed

lemma kubernetesRoundRobin_runs:
  assumes rnd: "rand_ok rnd" and s: "some_endpoints s"
  shows "runs (kubernetesRoundRobinLoadBalancing rnd) s (\<lambda>a s'. a \<in> set (fm_upstreamEndpoints s) \<and> lb_frame s s')"
proof -
  let ?es = "fm_upstreamEndpoints s" and ?c = "KubernetesRoundRobinCounter (fm_loadBalancingMetadata s)"
  let ?n = "of_nat (length ?es) :: uint32" and ?free = "\<lambda>i. hasCapacity s (?es ! i)"
  have base: "unat ?c mod length ?es = unat (?c mod ?n)" using unat_len [OF s] by (simp add: unat_mod_distrib)
  obtain c' where c': "nextFree ?free ?n (unat ?c mod length ?es) ?c = Some c'"
    using nextFree_ends [of ?free ?n ?c] base by auto
  have ne: "?es \<noteq> []" using s by (simp add: some_endpoints_def)
  have s': "some_endpoints (setKubernetesCounter c' s)" using s by (simp add: some_endpoints_def setKubernetesCounter_def)
  have "unat c' mod length ?es < length ?es" using ne by simp
  then show ?thesis
    unfolding kubernetesRoundRobinLoadBalancing_def
    by (simp add: wp GetKubernetesRoundRobinCounter_runs [OF s] c' GetKubernetesRoundRobinCounter_runs [OF s']
        randomEndpoint_runs [OF rnd ne]) (simp add: setKubernetesCounter_def lb_frame_def IncrementKubernetesRoundRobinCounter_def)
qed

interpretation knative_lb: lb_policy kubernetesNativeLoadBalancing
proof
  fix rnd s
  assume "rand_ok rnd" "some_endpoints s"
  then show "runs (kubernetesNativeLoadBalancing rnd) s (\<lambda>a s'. a \<in> set (fm_upstreamEndpoints s) \<and> lb_frame s s')"
    using bestOfTwo_runs [of rnd s] firstAvailable_runs [of rnd s] kubernetesRoundRobin_runs [of rnd s]
    by (auto simp: kubernetesNativeLoadBalancing_def wp elim!: runs_mono)
qed

lemma index_reached:
  assumes "k < (l :: nat)"
  shows "\<exists>j < l. (u + j) mod l = k"
proof (intro exI conjI)
  let ?j = "(k + l - u mod l) mod l"
  have "u mod l < l" using assms by simp
  then have eq: "u mod l + (k + l - u mod l) = k + l" by linarith
  have "(u + ?j) mod l = (u mod l + (k + l - u mod l)) mod l" by (metis mod_add_eq mod_mod_trivial)
  then show "(u + ?j) mod l = k" unfolding eq using assms by simp
  show "?j < l" using assms by simp
qed

lemma kubernetesRoundRobin_finds:
  assumes rnd: "rand_ok rnd" and s: "some_endpoints s"
    and nowrap: "unat (KubernetesRoundRobinCounter (fm_loadBalancingMetadata s)) + length (fm_upstreamEndpoints s) < 2 ^ 32"
    and free: "\<exists>a \<in> set (fm_upstreamEndpoints s). hasCapacity s a"
  shows "runs (kubernetesRoundRobinLoadBalancing rnd) s (\<lambda>a s'. a \<in> set (fm_upstreamEndpoints s) \<and> hasCapacity s a \<and> lb_frame s s')"
proof -
  let ?es = "fm_upstreamEndpoints s" and ?c = "KubernetesRoundRobinCounter (fm_loadBalancingMetadata s)"
  let ?l = "length ?es" and ?n = "of_nat (length ?es) :: uint32" and ?free = "\<lambda>i. hasCapacity s (?es ! i)"
  have ne: "?es \<noteq> []" using s by (simp add: some_endpoints_def)
  obtain k where k: "k < ?l" "?free k" using free by (auto simp: in_set_conv_nth)
  let ?P = "\<lambda>j. j < ?l \<and> ?free ((unat ?c + j) mod ?l)"
  from index_reached [OF k(1), of "unat ?c"] obtain j0 where "?P j0" using k(2) by auto
  then have j: "?P (LEAST j. ?P j)" by (rule LeastI)
  have least: "\<not> ?free ((unat ?c + i) mod ?l)" if "i < (LEAST j. ?P j)" for i
    using not_less_Least [OF that] that j by auto
  define j where "j = (LEAST j. ?P j)"
  have j: "j < ?l" "?free ((unat ?c + j) mod ?l)" "\<forall>i < j. \<not> ?free ((unat ?c + i) mod ?l)"
    using j least unfolding j_def by blast+
  have found: "nextFree ?free ?n (unat ?c mod ?l) ?c = Some (?c + of_nat j)"
    using nextFree_finds [of ?n ?l ?c 0 j ?free] unat_len [OF s] nowrap j by simp
  let ?s = "setKubernetesCounter (?c + of_nat j) s"
  have s': "some_endpoints ?s" using s by (simp add: some_endpoints_def setKubernetesCounter_def)
  have "unat (?c + of_nat j) mod ?l = (unat ?c + j) mod ?l" using nowrap j(1) by (simp add: unat_counter)
  moreover have "(unat ?c + j) mod ?l < ?l" using ne by simp
  ultimately show ?thesis
    unfolding kubernetesRoundRobinLoadBalancing_def using j(2)
    by (simp add: wp GetKubernetesRoundRobinCounter_runs [OF s] found GetKubernetesRoundRobinCounter_runs [OF s'])
      (simp add: setKubernetesCounter_def lb_frame_def IncrementKubernetesRoundRobinCounter_def)
qed

section \<open>The algorithm\<close>

lemma runLoadBalancing_runs:
  assumes rnd: "rand_ok rnd" and s: "some_endpoints s" and mu: "fm_mu s = mu_free"
  shows "runs (runLoadBalancingAlgorithm rnd policy) s (\<lambda>r s'. (\<exists>a \<in> set (fm_upstreamEndpoints s). r = Some a) \<and> lb_frame s s')"
proof -
  let ?s = "s\<lparr>fm_mu := \<lparr>mu_w = False, mu_r = 1\<rparr>\<rparr>"
  have s': "some_endpoints ?s" using s by (simp add: some_endpoints_def)
  have frame: "lb_frame ?s t \<Longrightarrow> mu_r (fm_mu t) = 1 \<and> lb_frame s (t\<lparr>fm_mu := (fm_mu t)\<lparr>mu_r := 0\<rparr>\<rparr>)" for t
    using mu by (cases t) (auto simp: lb_frame_def)
  have "runs (case policy of LOAD_BALANCING_RANDOM \<Rightarrow> randomLoadBalancing rnd
            | LOAD_BALANCING_ROUND_ROBIN \<Rightarrow> roundRobinLoadBalancing
            | LOAD_BALANCING_LEAST_PROCESSED \<Rightarrow> leastProcessedLoadBalancing
            | LOAD_BALANCING_KNATIVE \<Rightarrow> kubernetesNativeLoadBalancing rnd) ?s
     (\<lambda>a t. a \<in> set (fm_upstreamEndpoints ?s) \<and> lb_frame ?s t)"
    using random_lb.picks_endpoint [OF rnd s'] round_robin_lb.picks_endpoint [OF rnd s']
      least_lb.picks_endpoint [OF rnd s'] knative_lb.picks_endpoint [OF rnd s'] by (cases policy) simp_all
  then have "runs (case policy of LOAD_BALANCING_RANDOM \<Rightarrow> randomLoadBalancing rnd
            | LOAD_BALANCING_ROUND_ROBIN \<Rightarrow> roundRobinLoadBalancing
            | LOAD_BALANCING_LEAST_PROCESSED \<Rightarrow> leastProcessedLoadBalancing
            | LOAD_BALANCING_KNATIVE \<Rightarrow> kubernetesNativeLoadBalancing rnd) ?s
     (\<lambda>a t. a \<in> set (fm_upstreamEndpoints s) \<and> mu_r (fm_mu t) = 1 \<and> lb_frame s (t\<lparr>fm_mu := (fm_mu t)\<lparr>mu_r := 0\<rparr>\<rparr>))"
    by (rule runs_mono) (use frame in simp)
  then show ?thesis
    unfolding runLoadBalancingAlgorithm_def using mu s
    by (simp add: wp) (auto simp: some_endpoints_def elim!: runs_mono)
qed


section \<open>Properties\<close>

fun roundRobinPicks :: "nat \<Rightarrow> (FunctionMetadata, nat list) go" where
  "roundRobinPicks 0 = gret []"
| "roundRobinPicks (Suc k) = gbind roundRobinLoadBalancing (\<lambda>a. gbind (roundRobinPicks k) (\<lambda>as. gret (a # as)))"

lemma roundRobinPicks_runs:
  assumes "some_endpoints s"
  shows "runs (roundRobinPicks k) s (\<lambda>as s'. as = map (\<lambda>i. fm_upstreamEndpoints s !
     ((unat (RoundRobinCounter (fm_loadBalancingMetadata s)) + i) mod 2 ^ 32 mod length (fm_upstreamEndpoints s))) [0..<k])"
  using assms
proof (induction k arbitrary: s)
  case 0
  then show ?case by (simp add: wp)
next
  case (Suc k)
  let ?s = "IncrementRoundRobinCounter s" and ?c = "RoundRobinCounter (fm_loadBalancingMetadata s)"
  let ?es = "fm_upstreamEndpoints s"
  have s': "some_endpoints ?s" using Suc.prems by (simp add: some_endpoints_def IncrementRoundRobinCounter_def)
  have es: "fm_upstreamEndpoints ?s = ?es" "RoundRobinCounter (fm_loadBalancingMetadata ?s) = ?c + 1"
    by (simp_all add: IncrementRoundRobinCounter_def)
  have c: "(unat (?c + 1) + i) mod 2 ^ 32 = (unat ?c + Suc i) mod 2 ^ 32" for i
    by (simp add: unat_word_ariths(1) mod_simps)
  have lt2: "unat ?c < 2 ^ 32" by (rule order.strict_trans2 [OF unsigned_less]) simp
  have lt: "unat ?c mod length ?es < length ?es" using Suc.prems by (simp add: some_endpoints_def)
  have "runs (roundRobinPicks k) ?s (\<lambda>as s'. as = map (\<lambda>i. ?es ! ((unat ?c + Suc i) mod 2 ^ 32 mod length ?es)) [0..<k])"
    using Suc.IH [OF s'] unfolding es c .
  moreover have "map (\<lambda>i. ?es ! ((unat ?c + i) mod 2 ^ 32 mod length ?es)) [0..<Suc k] =
     ?es ! (unat ?c mod length ?es) # map (\<lambda>i. ?es ! ((unat ?c + Suc i) mod 2 ^ 32 mod length ?es)) [0..<k]"
    using lt2 by (simp add: upt_conv_Cons map_Suc_upt [symmetric] del: upt_Suc)
  ultimately show ?case
    using lt unfolding roundRobinPicks.simps roundRobinLoadBalancing_def
    by (simp add: wp GetRoundRobinCounter_runs [OF Suc.prems] del: upt_Suc)
qed

lemma full_turn: "(u :: nat) + l \<le> w \<Longrightarrow> mset (map (\<lambda>i. es ! ((u + i) mod w mod l)) [0..<l]) = mset es" if "l = length es"
proof (cases "l = 0")
  case False
  assume "u + l \<le> w"
  then have "map (\<lambda>i. es ! ((u + i) mod w mod l)) [0..<l] = map (\<lambda>i. es ! ((i + u) mod l)) [0..<l]"
    by (intro map_cong refl) (simp add: add.commute)
  also have "\<dots> = rotate u es"
    using that by (intro nth_equalityI) (simp_all add: nth_rotate add.commute)
  finally show ?thesis by (metis append_take_drop_id mset_append rotate_drop_take union_commute)
qed (use that in simp)

text \<open>
  C18. Round robin load balancing goes round: consecutive requests get consecutive endpoints, the one after
  the last being the first, so one turn serves every endpoint exactly once. The counter has 32 bits; when
  it wraps around to 0 the turn starts again at the first endpoint, wherever it was.
\<close>

theorem round_robin_balances:
  assumes "some_endpoints s"
  shows "runs (roundRobinPicks k) s (\<lambda>picked s'.
     picked = map (\<lambda>i. fm_upstreamEndpoints s !
        ((unat (RoundRobinCounter (fm_loadBalancingMetadata s)) + i) mod 2 ^ 32 mod length (fm_upstreamEndpoints s))) [0..<k] \<and>
     (k = length (fm_upstreamEndpoints s) \<and> unat (RoundRobinCounter (fm_loadBalancingMetadata s)) + k \<le> 2 ^ 32 \<longrightarrow>
        mset picked = mset (fm_upstreamEndpoints s)))"
proof (rule runs_mono [OF roundRobinPicks_runs [OF assms]], intro conjI impI, assumption, elim conjE)
  fix picked
  assume "k = length (fm_upstreamEndpoints s)" "unat (RoundRobinCounter (fm_loadBalancingMetadata s)) + k \<le> 2 ^ 32"
  from full_turn [OF this]
  show "mset picked = mset (fm_upstreamEndpoints s)" if "picked = map (\<lambda>i. fm_upstreamEndpoints s !
     ((unat (RoundRobinCounter (fm_loadBalancingMetadata s)) + i) mod 2 ^ 32 mod length (fm_upstreamEndpoints s))) [0..<k]"
    using \<open>k = length (fm_upstreamEndpoints s)\<close> that by simp
qed

definition demo_fm :: "nat list \<Rightarrow> uint32 \<Rightarrow> FunctionMetadata" where
  "demo_fm es c = (NewFunctionMetadata ''f'' ''dp'')\<lparr>fm_upstreamEndpoints := es,
     fm_loadBalancingMetadata := \<lparr>RoundRobinCounter = c, KubernetesRoundRobinCounter = c, RequestCountPerInstance = NewAtomicMap\<rparr>,
     fm_objects := map (\<lambda>a. (a, newUpstreamEndpoint 1 \<lparr>ei_ID = ''s'', ei_URL = ''10.0.0.1:80''\<rparr>)) es\<rparr>"

theorem round_robin_balances_witness:
  "runs (roundRobinPicks 4) (demo_fm [10, 11, 12] (2 ^ 32 - 2)) (\<lambda>picked s'. picked = [12, 10, 10, 11])"
proof -
  have "some_endpoints (demo_fm [10, 11, 12] (2 ^ 32 - 2))" by (simp add: some_endpoints_def demo_fm_def)
  from round_robin_balances [OF this, of 4] show ?thesis
    by (rule runs_mono) (simp add: demo_fm_def upt_rec)
qed

text \<open>
  C19. The Knative policy always returns an endpoint of the function, in finitely many steps, and changes
  only the counters of the load balancer. With limited concurrency it picks an endpoint with free capacity
  whenever there is one, provided that the 32-bit counter of its round robin does not wrap around during
  the search.
\<close>

theorem knative_finds_capacity:
  assumes "rand_ok rnd" and "some_endpoints s"
  shows "runs (kubernetesNativeLoadBalancing rnd) s (\<lambda>a s'. a \<in> set (fm_upstreamEndpoints s) \<and> lb_frame s s' \<and>
     (fm_sandboxParallelism s \<noteq> 0 \<and> (\<exists>b \<in> set (fm_upstreamEndpoints s). hasCapacity s b) \<and>
        unat (KubernetesRoundRobinCounter (fm_loadBalancingMetadata s)) + length (fm_upstreamEndpoints s) < 2 ^ 32 \<longrightarrow>
      hasCapacity s a))"
proof -
  consider "fm_sandboxParallelism s = 0" | "fm_sandboxParallelism s \<noteq> 0" "fm_sandboxParallelism s \<le> 3"
    | "fm_sandboxParallelism s > 3" by linarith
  then show ?thesis
  proof cases
    case 1
    with knative_lb.picks_endpoint [OF assms] show ?thesis by (rule_tac runs_mono) auto
  next
    case 2
    with firstAvailable_runs [OF assms] show ?thesis
      by (auto simp: kubernetesNativeLoadBalancing_def wp UnlimitedConcurrency_def elim!: runs_mono)
  next
    case 3
    show ?thesis
    proof (cases "(\<exists>b \<in> set (fm_upstreamEndpoints s). hasCapacity s b) \<and>
        unat (KubernetesRoundRobinCounter (fm_loadBalancingMetadata s)) + length (fm_upstreamEndpoints s) < 2 ^ 32")
      case True
      with 3 kubernetesRoundRobin_finds [OF assms] show ?thesis
        by (auto simp: kubernetesNativeLoadBalancing_def wp UnlimitedConcurrency_def elim!: runs_mono)
    next
      case False
      with knative_lb.picks_endpoint [OF assms] show ?thesis by (rule_tac runs_mono) auto
    qed
  qed
qed

theorem knative_finds_capacity_witness:
  "runs (kubernetesNativeLoadBalancing (\<lambda>n. 0)) (demo_fm [10, 11, 12] 7) (\<lambda>a s'. hasCapacity (demo_fm [10, 11, 12] 7) a)"
proof -
  let ?s = "demo_fm [10, 11, 12] 7"
  have "rand_ok (\<lambda>n. 0)" "some_endpoints ?s" by (simp_all add: rand_ok_def some_endpoints_def demo_fm_def)
  moreover have "hasCapacity ?s 10"
    by (simp add: hasCapacity_def demo_fm_def newUpstreamEndpoint_def createThrottlerChannel_def go_monad tk_send_def)
  ultimately show ?thesis
    by (rule_tac runs_mono [OF knative_finds_capacity]) (auto simp: demo_fm_def NewFunctionMetadata_def)
qed

text \<open>
  C37. For unlimited concurrency the policy draws two different endpoints and is meant to take the less
  loaded one; it takes the one with more requests.
\<close>

theorem best_of_two_takes_the_busier:
  assumes "rand_ok rnd" and "1 < length (fm_upstreamEndpoints s)"
  shows "\<exists>i j. i < length (fm_upstreamEndpoints s) \<and> j < length (fm_upstreamEndpoints s) \<and> i \<noteq> j \<and>
     runs (bestOfTwoRandoms rnd) s (\<lambda>a s'. s' = s \<and> a \<in> {fm_upstreamEndpoints s ! i, fm_upstreamEndpoints s ! j} \<and>
        sint (GetLocalQueueLength s a) =
          max (sint (GetLocalQueueLength s (fm_upstreamEndpoints s ! i))) (sint (GetLocalQueueLength s (fm_upstreamEndpoints s ! j))))"
  using two_randoms [OF assms] assms(2)
  by (intro exI [of _ "rnd (length (fm_upstreamEndpoints s))"] exI [of _ "second_random rnd (length (fm_upstreamEndpoints s))"])
    (simp add: bestOfTwoRandoms_def wp generateTwo_runs [OF assms])

theorem best_of_two_takes_the_busier_witness:
  "\<exists>i j. i < 2 \<and> j < 2 \<and> i \<noteq> j \<and> runs (bestOfTwoRandoms (\<lambda>n. 0)) (demo_fm [10, 11] 0) (\<lambda>a s'. a \<in> {[10, 11] ! i, [10, 11] ! j})"
proof -
  let ?s = "demo_fm [10, 11] 0"
  have "rand_ok (\<lambda>n. 0)" "1 < length (fm_upstreamEndpoints ?s)" by (simp_all add: rand_ok_def demo_fm_def)
  from best_of_two_takes_the_busier [OF this] obtain i j where ij: "i < length (fm_upstreamEndpoints ?s)" "j < length (fm_upstreamEndpoints ?s)" "i \<noteq> j"
    "runs (bestOfTwoRandoms (\<lambda>n. 0)) ?s (\<lambda>a s'. s' = ?s \<and> a \<in> {fm_upstreamEndpoints ?s ! i, fm_upstreamEndpoints ?s ! j} \<and>
        sint (GetLocalQueueLength ?s a) =
          max (sint (GetLocalQueueLength ?s (fm_upstreamEndpoints ?s ! i))) (sint (GetLocalQueueLength ?s (fm_upstreamEndpoints ?s ! j))))"
    by blast
  have "runs (bestOfTwoRandoms (\<lambda>n. 0)) ?s (\<lambda>a s'. a \<in> {[10, 11] ! i, [10, 11] ! j})"
    by (rule runs_mono [OF ij(4)]) (simp add: demo_fm_def)
  with ij(1-3) show ?thesis by (intro exI [of _ i] exI [of _ j]) (simp add: demo_fm_def)
qed

end
