(* ===== verification/Request_Flow.thy ===== *)
theory Request_Flow
  imports Load_Balancing
begin

text \<open>
  The synchronous proxy (\<^verbatim>\<open>proxy/sync_proxy_handler.go\<close>, \<^verbatim>\<open>proxy/utils.go\<close>): how a request goes through
  the cold start, the load balancer and a sandbox. Every request runs in a goroutine of its own; the model
  is a step relation in which requests, the control plane's updates and the drains interleave. A step is
  what a goroutine does between two operations on shared state, and a goroutine that waits for a channel is
  one whose step is not possible yet.
\<close>

section \<open>A request\<close>

datatype phase =
    Arrived
  | Cold                 \<comment> \<open>has read that there are no endpoints\<close>
  | Waiting nat          \<comment> \<open>for a cold start, on a channel\<close>
  | Balancing nat        \<comment> \<open>with that many attempts left\<close>
  | Picked nat nat       \<comment> \<open>an endpoint, waiting for its capacity; attempts left after this one\<close>
  | Starting nat         \<comment> \<open>has capacity of the endpoint\<close>
  | Proxied nat          \<comment> \<open>is with the sandbox\<close>
  | Notifying nat        \<comment> \<open>was the last request of a drained endpoint\<close>
  | Releasing nat        \<comment> \<open>gives the capacity back\<close>
  | Finished nat         \<comment> \<open>HTTP status; 0 for a handler that panicked\<close>

definition endRequest :: "(FunctionMetadata, unit) go" where
  \<comment> \<open>the deferred statements of the handler: \<^verbatim>\<open>DecreaseInflight\<close>, then \<^verbatim>\<open>DecrementInflight\<close>\<close>
  "endRequest = gthen (gmodify DecreaseInflight) (on_statistics DecrementInflight)"

definition beginBalancing :: "(FunctionMetadata, phase) go" where
  "beginBalancing = gthen (on_statistics IncrementQueueDepth) (gret (Balancing 60))"

definition receive :: "nat \<Rightarrow> (FunctionMetadata, ColdStartOutcome) go" where
  "receive ch s = (case gm_get [] (fm_channels s) ch of
       [] \<Rightarrow> Blocked ''receive'' s
     | outcome # rest \<Rightarrow> Ret outcome (s\<lparr>fm_channels := gm_set ch rest (fm_channels s)\<rparr>))"

definition leaveEndpoint :: "nat \<Rightarrow> (FunctionMetadata, bool) go" where
  \<comment> \<open>the first statements of \<^verbatim>\<open>giveBackCCCapacity\<close>; \<^term>\<open>True\<close> if a drain has to be notified\<close>
  "leaveEndpoint a = on_endpoint a (\<lambda>e. let n = ue_InFlight e - 1 in
     Ret (ue_Drained e \<noteq> 0 \<and> n = 0) (e\<lparr>ue_InFlight := n\<rparr>))"

definition notifyDrain :: "nat \<Rightarrow> (FunctionMetadata, unit) go" where
  "notifyDrain a = on_endpoint a (\<lambda>e. case ue_DrainingCallback e of
       None \<Rightarrow> Blocked ''send on nil channel'' e
     | Some c \<Rightarrow> (case tk_send c of Ret x c' \<Rightarrow> Ret x (e\<lparr>ue_DrainingCallback := Some c'\<rparr>)
                   | Panic r _ \<Rightarrow> Panic r e | Blocked r _ \<Rightarrow> Blocked r e))"

definition returnToken :: "nat \<Rightarrow> (FunctionMetadata, unit) go" where
  "returnToken a = on_endpoint a (\<lambda>e. case ue_Capacity e of
       None \<Rightarrow> Ret () e
     | Some c \<Rightarrow> (case tk_send c of Ret x c' \<Rightarrow> Ret x (e\<lparr>ue_Capacity := Some c'\<rparr>)
                   | Panic r _ \<Rightarrow> Panic r e | Blocked r _ \<Rightarrow> Blocked r e))"

definition giveBackCCCapacity :: "nat \<Rightarrow> (FunctionMetadata, unit) go" where
  "giveBackCCCapacity a = gbind (leaveEndpoint a) (\<lambda>notify. gthen (gwhen notify (notifyDrain a)) (returnToken a))"

fun handlerStep :: "int \<Rightarrow> (nat \<Rightarrow> nat) \<Rightarrow> LoadBalancingPolicy \<Rightarrow> phase \<Rightarrow> (FunctionMetadata, phase) go" where
  "handlerStep now rnd policy Arrived = gbind (admit now) (\<lambda>warm. if warm then beginBalancing else gret Cold)"
| "handlerStep now rnd policy Cold = gbind enqueue (\<lambda>ch. gret (Waiting ch))"
| "handlerStep now rnd policy (Waiting ch) = gbind (receive ch) (\<lambda>outcome.
     gthen (on_statistics DecrementQueueDepth) (case outcome of
         CanceledColdStart \<Rightarrow> gthen endRequest (gret (Finished 504))
       | SuccessfulColdStart \<Rightarrow> beginBalancing))"
| "handlerStep now rnd policy (Balancing 0) = gthen (on_statistics DecrementQueueDepth) (gthen endRequest (gret (Finished 410)))"
| "handlerStep now rnd policy (Balancing (Suc k)) = gbind (runLoadBalancingAlgorithm rnd policy) (\<lambda>endpoint. case endpoint of
       None \<Rightarrow> gthen (on_statistics DecrementQueueDepth) (gthen endRequest (gret (Finished 0)))
     | Some a \<Rightarrow> gret (Picked a k))"
| "handlerStep now rnd policy (Picked a k) = gbind (waitForCapacityOrDie a) (\<lambda>gotCapacity.
     gret (if gotCapacity then Starting a else Balancing k))"
| "handlerStep now rnd policy (Starting a) = gthen (startRequest a)
     (gthen (on_statistics DecrementQueueDepth) (gret (Proxied a)))"
| "handlerStep now rnd policy (Proxied a) = gthen (on_statistics IncrementSuccessfulInvocations)
     (gbind (leaveEndpoint a) (\<lambda>notify. gret (if notify then Notifying a else Releasing a)))"
| "handlerStep now rnd policy (Notifying a) = gthen (notifyDrain a) (gret (Releasing a))"
| "handlerStep now rnd policy (Releasing a) = gthen (returnToken a) (gthen endRequest (gret (Finished 200)))"
| "handlerStep now rnd policy (Finished code) = gblock ''finished''"

definition contextTerminationHandler :: "nat option \<Rightarrow> (FunctionMetadata, unit) go" where
  \<comment> \<open>after the context of a request is done; the argument is its wait channel\<close>
  "contextTerminationHandler coldStartChannel = (case coldStartChannel of
       None \<Rightarrow> gret () | Some ch \<Rightarrow> signal ch CanceledColdStart)"

definition invocationStatus :: "FunctionMetadata option \<Rightarrow> nat option" where
  \<comment> \<open>the look-up at the start of the handler: 404 for a function that is not deployed\<close>
  "invocationStatus metadata = (case metadata of None \<Rightarrow> Some 404 | Some _ \<Rightarrow> None)"

definition MetricsHandler :: "string \<Rightarrow> (Deployments, nat \<times> FunctionStatistics option) go" where
  \<comment> \<open>the status and the statistics of \<^verbatim>\<open>/metrics\<close>\<close>
  "MetricsHandler service =
     (if service = [] then gbind ListDeployments (\<lambda>fns. gret (200, Some (AggregateStatistics fns)))
      else gbind (GetDeployment service) (\<lambda>metadata. case metadata of
          None \<Rightarrow> gret (400, None)
        | Some m \<Rightarrow> gret (200, Some (fm_statistics m))))"

section \<open>The flow of requests\<close>

record flow =
  fl_fm :: FunctionMetadata
  fl_reqs :: "phase list"
  fl_drains :: "nat list list"
    \<comment> \<open>the barriers of the calls of \<^verbatim>\<open>DrainEndpoints\<close> that wait\<close>

inductive flow_step :: "flow \<Rightarrow> flow \<Rightarrow> bool" where
  arrive: "flow_step f (f\<lparr>fl_reqs := fl_reqs f @ [Arrived]\<rparr>)"
| handler: "i < length (fl_reqs f) \<Longrightarrow> rand_ok rnd \<Longrightarrow>
    handlerStep now rnd policy (fl_reqs f ! i) (fl_fm f) = Ret ph s \<Longrightarrow>
    flow_step f (f\<lparr>fl_fm := s, fl_reqs := (fl_reqs f)[i := ph]\<rparr>)"
| cancel: "ch \<in> fst ` set (fm_channels (fl_fm f)) \<Longrightarrow> contextTerminationHandler (Some ch) (fl_fm f) = Ret () s \<Longrightarrow> flow_step f (f\<lparr>fl_fm := s\<rparr>)"
| add: "AddEndpoints eps (fl_fm f) = Ret () s \<Longrightarrow> flow_step f (f\<lparr>fl_fm := s\<rparr>)"
| clean: "RemoveAllEndpoints (fl_fm f) = Ret () s \<Longrightarrow> flow_step f (f\<lparr>fl_fm := s\<rparr>)"
| drain: "startDraining eps (fl_fm f) = Ret barriers s \<Longrightarrow>
    flow_step f (f\<lparr>fl_fm := s, fl_drains := fl_drains f @ [barriers]\<rparr>)"
| drained: "i < length (fl_drains f) \<Longrightarrow> waitForDrainingToComplete (fl_drains f ! i) (fl_fm f) = Ret () s \<Longrightarrow>
    flow_step f (f\<lparr>fl_fm := s, fl_drains := take i (fl_drains f) @ drop (Suc i) (fl_drains f)\<rparr>)"
| metrics: "metricsRound (fl_fm f) = Ret r s \<Longrightarrow> flow_step f (f\<lparr>fl_fm := s\<rparr>)"

inductive_cases flow_stepE: "flow_step f f'"

abbreviation flow_reaches :: "flow \<Rightarrow> flow \<Rightarrow> bool" where
  "flow_reaches \<equiv> flow_step\<^sup>*\<^sup>*"

definition flow_start :: "string \<Rightarrow> string \<Rightarrow> flow" where
  "flow_start name dp = \<lparr>fl_fm = NewFunctionMetadata name dp, fl_reqs = [], fl_drains = []\<rparr>"


section \<open>Steps that return\<close>

lemma rets_mu [pc]:
  "rets mu_Lock m Q = (m = mu_free \<longrightarrow> Q () (m\<lparr>mu_w := True\<rparr>))"
  "rets mu_Unlock m Q = (mu_w m \<longrightarrow> Q () (m\<lparr>mu_w := False\<rparr>))"
  "rets mu_RLock m Q = (\<not> mu_w m \<longrightarrow> Q () (m\<lparr>mu_r := mu_r m + 1\<rparr>))"
  "rets mu_RUnlock m Q = (mu_r m \<noteq> 0 \<longrightarrow> Q () (m\<lparr>mu_r := mu_r m - 1\<rparr>))"
  by (cases m; auto simp: rets_def mu_Lock_def mu_Unlock_def mu_RLock_def mu_RUnlock_def)+

lemma rets_on_endpoint [pc]:
  "rets (on_endpoint a m) s Q = (\<forall>e. map_of (fm_objects s) a = Some e \<longrightarrow>
     rets m e (\<lambda>x e'. Q x (s\<lparr>fm_objects := gm_set a e' (fm_objects s)\<rparr>)))"
  by (auto simp: rets_def on_endpoint_def gzoom_def split: option.splits outcome.splits)

lemma rets_index_at [pc]: "rets (index_at es i) s Q = (i < length es \<longrightarrow> Q (es ! i) s)"
  by (simp add: index_at_def pc)

text \<open>The load balancer returns an endpoint of the list and changes only its own counters.\<close>

lemma rets_randomEndpoint: "rets (randomEndpoint rnd es) s (\<lambda>a s'. a \<in> set es \<and> s' = s)"
  by (simp add: randomEndpoint_def pc)

lemma rets_counters:
  "rets GetRoundRobinCounter s (\<lambda>_ s'. s' = s)" "rets GetKubernetesRoundRobinCounter s (\<lambda>_ s'. s' = s)"
  by (simp_all add: GetRoundRobinCounter_def GetKubernetesRoundRobinCounter_def pc)

lemma rets_policy:
  "rets (case policy of LOAD_BALANCING_RANDOM \<Rightarrow> randomLoadBalancing rnd
            | LOAD_BALANCING_ROUND_ROBIN \<Rightarrow> roundRobinLoadBalancing
            | LOAD_BALANCING_LEAST_PROCESSED \<Rightarrow> leastProcessedLoadBalancing
            | LOAD_BALANCING_KNATIVE \<Rightarrow> kubernetesNativeLoadBalancing rnd) s
     (\<lambda>a s'. a \<in> set (fm_upstreamEndpoints s) \<and> lb_frame s s')"
proof -
  note def = lb_frame_def
  have random: "rets (randomEndpoint rnd (fm_upstreamEndpoints s)) s' (\<lambda>a t. a \<in> set (fm_upstreamEndpoints s) \<and> lb_frame s t)"
    if "lb_frame s s'" for s'
    using that by (auto intro: rets_mono [OF rets_randomEndpoint])
  have rr: "rets roundRobinLoadBalancing s (\<lambda>a s'. a \<in> set (fm_upstreamEndpoints s) \<and> lb_frame s s')"
    unfolding roundRobinLoadBalancing_def rets_simps
    by (rule rets_mono [OF rets_counters(1)]) (simp add: pc def IncrementRoundRobinCounter_def)
  have least: "rets leastProcessedLoadBalancing s (\<lambda>a s'. a \<in> set (fm_upstreamEndpoints s) \<and> lb_frame s s')"
    using leastLoop_min(1) [of "GetLocalQueueLength s" "fm_upstreamEndpoints s" "fm_upstreamEndpoints s ! 0"]
    by (auto simp: leastProcessedLoadBalancing_def pc def)
  have two: "rets (bestOfTwoRandoms rnd) s (\<lambda>a s'. a \<in> set (fm_upstreamEndpoints s) \<and> lb_frame s s')"
    by (auto simp: bestOfTwoRandoms_def generateTwoUniformRandomEndpoints_def Let_def pc def)
  have first: "rets (kubernetesFirstAvailableLoadBalancing rnd) s (\<lambda>a s'. a \<in> set (fm_upstreamEndpoints s) \<and> lb_frame s s')"
    using random [of s] by (auto simp: kubernetesFirstAvailableLoadBalancing_def pc def find_Some_iff split: option.splits)
  have krr: "rets (kubernetesRoundRobinLoadBalancing rnd) s (\<lambda>a s'. a \<in> set (fm_upstreamEndpoints s) \<and> lb_frame s s')"
    unfolding kubernetesRoundRobinLoadBalancing_def rets_simps prod.case
    by (rule rets_mono [OF rets_counters(2)])
      (auto simp: pc split: option.splits intro!: rets_mono [OF rets_counters(2)] random [unfolded def]
        simp: def setKubernetesCounter_def IncrementKubernetesRoundRobinCounter_def)
  show ?thesis
    using random [of s] rr least two first krr
    by (cases policy) (auto simp: randomLoadBalancing_def kubernetesNativeLoadBalancing_def pc def)
qed

lemma rets_runLoadBalancing:
  assumes "fm_mu s = mu_free"
  shows "rets (runLoadBalancingAlgorithm rnd policy) s (\<lambda>r s'. (\<forall>a. r = Some a \<longrightarrow> a \<in> set (fm_upstreamEndpoints s)) \<and> lb_frame s s')"
proof -
  let ?s = "s\<lparr>fm_mu := \<lparr>mu_w = False, mu_r = 1\<rparr>\<rparr>"
  have frame: "lb_frame ?s t \<Longrightarrow> lb_frame s (t\<lparr>fm_mu := (fm_mu t)\<lparr>mu_r := mu_r (fm_mu t) - 1\<rparr>\<rparr>)" for t
    using assms by (cases t) (auto simp: lb_frame_def)
  have frame0: "lb_frame s (s\<lparr>fm_mu := mu_free\<rparr>)" using assms by (simp add: lb_frame_def)
  show ?thesis
    using rets_policy [of rnd policy ?s] frame assms frame0
    by (auto simp: runLoadBalancingAlgorithm_def pc elim!: rets_mono)
qed


section \<open>The books of the requests\<close>

definition active :: "phase \<Rightarrow> bool" where
  "active ph \<longleftrightarrow> ph \<noteq> Arrived \<and> (\<forall>code. ph \<noteq> Finished code)"

fun queued :: "phase \<Rightarrow> bool" where
  "queued (Waiting ch) = True"
| "queued (Balancing k) = True"
| "queued (Picked a k) = True"
| "queued (Starting a) = True"
| "queued _ = False"

definition holds :: "nat \<Rightarrow> phase \<Rightarrow> bool" where
  \<comment> \<open>has a token of the endpoint\<close>
  "holds a ph \<longleftrightarrow> ph \<in> {Starting a, Proxied a, Notifying a, Releasing a}"

definition points :: "nat \<Rightarrow> phase \<Rightarrow> bool" where
  "points a ph \<longleftrightarrow> holds a ph \<or> (\<exists>k. ph = Picked a k)"

abbreviation one_if :: "bool \<Rightarrow> nat" where
  "one_if b \<equiv> (if b then 1 else 0)"

definition endpoint_ok :: "nat \<Rightarrow> nat \<Rightarrow> nat \<Rightarrow> UpstreamEndpoint \<Rightarrow> bool" where
  "endpoint_ok p h x e \<longleftrightarrow> (\<exists>c. ue_Capacity e = Some c \<and> tk_cap c = p \<and> tk_len c + h = p) \<and> ue_InFlight e = of_nat x"

definition books :: "nat \<Rightarrow> nat \<Rightarrow> nat \<Rightarrow> (nat \<Rightarrow> nat) \<Rightarrow> (nat \<Rightarrow> nat) \<Rightarrow> FunctionMetadata \<Rightarrow> bool" where
  \<comment> \<open>for so many requests active, queued, holding tokens and with each sandbox\<close>
  "books p A Q H X s \<longleftrightarrow> fm_sandboxParallelism s = p \<and>
     sm_inflightRequests (fm_scalingMetric s) = of_nat A \<and> Inflight (fm_statistics s) = of_nat A \<and>
     QueueDepth (fm_statistics s) = of_nat Q \<and>
     (\<forall>a e. map_of (fm_objects s) a = Some e \<longrightarrow> a < fm_next s \<and> endpoint_ok p (H a) (X a) e) \<and>
     (\<forall>a \<ge> fm_next s. H a = 0 \<and> X a = 0) \<and>
     set (fm_upstreamEndpoints s) \<subseteq> dom (map_of (fm_objects s))"

definition fm_ok :: "nat \<Rightarrow> nat \<Rightarrow> nat \<Rightarrow> (nat \<Rightarrow> nat) \<Rightarrow> (nat \<Rightarrow> nat) \<Rightarrow> FunctionMetadata \<Rightarrow> bool" where
  "fm_ok p A Q H X s \<longleftrightarrow> fm_mu s = mu_free \<and> books p A Q H X s"

definition grows :: "FunctionMetadata \<Rightarrow> FunctionMetadata \<Rightarrow> bool" where
  "grows s s' \<longleftrightarrow> dom (map_of (fm_objects s)) \<subseteq> dom (map_of (fm_objects s'))"

lemma grows_refl [simp]: "grows s s"
  by (simp add: grows_def)

lemma fm_ok_frame: "fm_ok p A Q H X s \<Longrightarrow> lb_frame s s' \<Longrightarrow> fm_ok p A Q H X s' \<and> fm_objects s' = fm_objects s"
  unfolding lb_frame_def by (cases s, cases s') (auto simp: fm_ok_def books_def)

lemma fm_ok_endpoint:
  assumes "fm_ok p A Q H X s" "map_of (fm_objects s) a = Some e" "endpoint_ok p h x e'"
  shows "fm_ok p A Q (H(a := h)) (X(a := x)) (s\<lparr>fm_objects := gm_set a e' (fm_objects s)\<rparr>)"
proof -
  have lt: "a < fm_next s" using assms(1,2) by (simp add: fm_ok_def books_def)
  have "\<forall>b \<ge> fm_next s. (H(a := h)) b = 0 \<and> (X(a := x)) b = 0" using assms(1) lt by (simp add: fm_ok_def books_def)
  moreover have "\<forall>b e. map_of (gm_set a e' (fm_objects s)) b = Some e \<longrightarrow> b < fm_next s \<and> endpoint_ok p ((H(a := h)) b) ((X(a := x)) b) e"
    using assms lt by (simp add: fm_ok_def books_def)
  ultimately show ?thesis using assms(1,2) by (auto simp: fm_ok_def books_def simp del: fun_upd_apply)
qed

lemma of_nat_pred: "0 < n \<Longrightarrow> (of_nat n :: 'a :: comm_ring_1) - 1 = of_nat (n - 1)"
  by (simp add: of_nat_diff)

lemma fm_ok_end:
  assumes "fm_ok p A Q H X s" "0 < A"
  shows "rets endRequest s (\<lambda>_ s'. fm_ok p (A - 1) Q H X s' \<and> fm_objects s' = fm_objects s)"
  using assms of_nat_pred [OF assms(2), where 'a = int32] of_nat_pred [OF assms(2), where 'a = int64]
  by (auto simp: endRequest_def pc fm_ok_def books_def DecreaseInflight_def addInflight_def DecrementInflight_def)

lemma fm_ok_statistics:
  "fm_ok p A Q H X s \<Longrightarrow> fm_ok p A (Suc Q) H X (s\<lparr>fm_statistics := IncrementQueueDepth (fm_statistics s)\<rparr>)"
  "fm_ok p A Q H X s \<Longrightarrow> 0 < Q \<Longrightarrow> fm_ok p A (Q - 1) H X (s\<lparr>fm_statistics := DecrementQueueDepth (fm_statistics s)\<rparr>)"
  "fm_ok p A Q H X s \<Longrightarrow> fm_ok p A Q H X (s\<lparr>fm_statistics := IncrementSuccessfulInvocations (fm_statistics s)\<rparr>)"
  "fm_ok p A Q H X s \<Longrightarrow> fm_ok p A Q H X (s\<lparr>fm_channels := cs\<rparr>)"
  "fm_ok p A Q H X s \<Longrightarrow> fm_ok p A Q H X (s\<lparr>fm_queue := q\<rparr>)"
  "fm_ok p A Q H X s \<Longrightarrow> fm_ok p A Q H X (IncrementRequestCountPerInstance a s)"
  using of_nat_pred [of Q, where 'a = int64]
  by (auto simp: fm_ok_def books_def statistics_defs IncrementRequestCountPerInstance_def)


text \<open>What a step of a request does to the books: \<open>ph\<close> becomes \<open>ph'\<close>.\<close>

definition moved :: "nat \<Rightarrow> nat \<Rightarrow> nat \<Rightarrow> (nat \<Rightarrow> nat) \<Rightarrow> (nat \<Rightarrow> nat) \<Rightarrow> FunctionMetadata \<Rightarrow> phase \<Rightarrow> phase \<Rightarrow> FunctionMetadata \<Rightarrow> bool" where
  "moved p A Q H X s ph ph' s' \<longleftrightarrow>
     fm_ok p (A - one_if (active ph) + one_if (active ph')) (Q - one_if (queued ph) + one_if (queued ph'))
       (\<lambda>a. H a - one_if (holds a ph) + one_if (holds a ph')) (\<lambda>a. X a - one_if (ph = Proxied a) + one_if (ph' = Proxied a)) s' \<and>
     (\<forall>a. points a ph' \<longrightarrow> a \<in> dom (map_of (fm_objects s'))) \<and> grows s s'"

definition booked :: "nat \<Rightarrow> nat \<Rightarrow> (nat \<Rightarrow> nat) \<Rightarrow> (nat \<Rightarrow> nat) \<Rightarrow> FunctionMetadata \<Rightarrow> phase \<Rightarrow> bool" where
  \<comment> \<open>the request itself is in the books\<close>
  "booked A Q H X s ph \<longleftrightarrow> one_if (active ph) \<le> A \<and> one_if (queued ph) \<le> Q \<and> (\<forall>a. one_if (holds a ph) \<le> H a) \<and>
     (\<forall>a. one_if (ph = Proxied a) \<le> X a) \<and> (\<forall>a. points a ph \<longrightarrow> a \<in> dom (map_of (fm_objects s)))"

lemmas phase_defs = active_def holds_def points_def moved_def booked_def

lemma Arrived_moved:
  assumes ok: "fm_ok p A Q H X s"
  shows "rets (handlerStep now rnd policy Arrived) s (moved p A Q H X s Arrived)"
  using ok by (auto simp: admit_def beginBalancing_def pc phase_defs rets_def [of "triggerAutoscaling now"] triggerAutoscaling_def
      fm_ok_def books_def addInflight_def statistics_defs grows_def)

lemma Cold_moved:
  assumes ok: "fm_ok p A Q H X s" and "booked A Q H X s Cold"
  shows "rets (handlerStep now rnd policy Cold) s (moved p A Q H X s Cold)"
proof -
  have "fm_ok p A Q H X (s\<lparr>fm_next := Suc (fm_next s)\<rparr>)" using ok by (auto simp: fm_ok_def books_def less_Suc_eq)
  then show ?thesis
    using assms(2) ok
    by (simp add: enqueue_def pc phase_defs grows_def) (simp add: fm_ok_def books_def statistics_defs)
qed

lemma Waiting_moved:
  assumes ok: "fm_ok p A Q H X s" and b: "booked A Q H X s (Waiting ch)"
  shows "rets (handlerStep now rnd policy (Waiting ch)) s (moved p A Q H X s (Waiting ch))"
proof -
  have A: "0 < A" "0 < Q" using b by (simp_all add: phase_defs split: if_splits)
  have "rets (case outcome of CanceledColdStart \<Rightarrow> gthen endRequest (gret (Finished 504)) | SuccessfulColdStart \<Rightarrow> beginBalancing)
     (s\<lparr>fm_channels := cs, fm_statistics := DecrementQueueDepth (fm_statistics s)\<rparr>) (moved p A Q H X s (Waiting ch))" for outcome cs
  proof -
    let ?s = "s\<lparr>fm_channels := cs, fm_statistics := DecrementQueueDepth (fm_statistics s)\<rparr>"
    have ok': "fm_ok p A (Q - 1) H X ?s"
      using fm_ok_statistics(2) [OF fm_ok_statistics(4) [OF ok, of cs] A(2)] by simp
    show ?thesis
    proof (cases outcome)
      case SuccessfulColdStart
      then show ?thesis
        using fm_ok_statistics(1) [OF ok'] A by (simp add: beginBalancing_def pc phase_defs grows_def)
    next
      case CanceledColdStart
      then show ?thesis
        using fm_ok_end [OF ok' A(1)] A by (auto simp: pc phase_defs grows_def elim!: rets_mono)
    qed
  qed
  then show ?thesis
    by (auto simp: pc rets_def [of "receive ch"] receive_def split: list.splits)
qed

lemma Balancing_moved:
  assumes ok: "fm_ok p A Q H X s" and b: "booked A Q H X s (Balancing k)"
  shows "rets (handlerStep now rnd policy (Balancing k)) s (moved p A Q H X s (Balancing k))"
proof -
  have A: "0 < A" "0 < Q" using b by (simp_all add: phase_defs split: if_splits)
  have give_up: "rets (gthen (on_statistics DecrementQueueDepth) (gthen endRequest (gret (Finished code)))) t
     (moved p A Q H X s (Balancing k))" if "fm_ok p A Q H X t" "fm_objects t = fm_objects s" for t code
    using fm_ok_end [OF fm_ok_statistics(2) [OF that(1) A(2)] A(1)] that(2) A
    by (auto simp: pc phase_defs grows_def elim!: rets_mono)
  show ?thesis
  proof (cases k)
    case 0
    then show ?thesis using give_up [OF ok refl, of 410] by simp
  next
    case (Suc k')
    have mu: "fm_mu s = mu_free" and sub: "set (fm_upstreamEndpoints s) \<subseteq> dom (map_of (fm_objects s))"
      using ok by (simp_all add: fm_ok_def books_def)
    show ?thesis
      unfolding Suc handlerStep.simps rets_simps
    proof (rule rets_mono [OF rets_runLoadBalancing [OF mu]], elim conjE)
      fix r t
      assume r: "\<forall>a. r = Some a \<longrightarrow> a \<in> set (fm_upstreamEndpoints s)" "lb_frame s t"
      note t = fm_ok_frame [OF ok r(2)]
      show "rets (case r of None \<Rightarrow> gthen (on_statistics DecrementQueueDepth) (gthen endRequest (gret (Finished 0)))
           | Some a \<Rightarrow> gret (Picked a k')) t (moved p A Q H X s (Balancing (Suc k')))"
      proof (cases r)
        case None
        then show ?thesis using give_up [of t 0] t Suc by simp
      next
        case (Some a)
        then have "a \<in> dom (map_of (fm_objects s))" using r(1) sub by auto
        then show ?thesis using Some t A by (auto simp: pc phase_defs grows_def)
      qed
    qed
  qed
qed


lemma token_taken:
  "endpoint_ok p h x e \<Longrightarrow> ue_Capacity e = Some c \<Longrightarrow> 0 < tk_len c \<Longrightarrow>
     endpoint_ok p (Suc h) x (e\<lparr>ue_Capacity := Some (c\<lparr>tk_len := tk_len c - 1\<rparr>)\<rparr>)"
  by (auto simp: endpoint_ok_def)

lemma moved_endpoint:
  assumes ok: "fm_ok p A Q H X s" and e: "map_of (fm_objects s) a = Some e"
    and e': "endpoint_ok p (H a - one_if (holds a ph) + one_if (holds a ph')) (X a - one_if (ph = Proxied a) + one_if (ph' = Proxied a)) e'"
    and same: "\<And>b. b \<noteq> a \<Longrightarrow> \<not> points b ph \<and> \<not> points b ph'"
    and cnt: "active ph" "active ph'" "0 < A"
    and s': "fm_objects s' = gm_set a e' (fm_objects s)" "fm_mu s' = fm_mu s" "fm_sandboxParallelism s' = fm_sandboxParallelism s"
      "fm_scalingMetric s' = fm_scalingMetric s" "fm_next s' = fm_next s" "fm_upstreamEndpoints s' = fm_upstreamEndpoints s"
    and st: "Inflight (fm_statistics s') = Inflight (fm_statistics s)"
      "QueueDepth (fm_statistics s') = of_nat (Q - one_if (queued ph) + one_if (queued ph'))"
  shows "moved p A Q H X s ph ph' s'"
proof -
  have bits: "one_if (holds b ph) = 0 \<and> one_if (holds b ph') = 0 \<and> one_if (ph = Proxied b) = 0 \<and> one_if (ph' = Proxied b) = 0" if "b \<noteq> a" for b
    using same [OF that] by (auto simp: points_def holds_def)
  have H: "(\<lambda>b. H b - one_if (holds b ph) + one_if (holds b ph')) = H(a := H a - one_if (holds a ph) + one_if (holds a ph'))"
    "(\<lambda>b. X b - one_if (ph = Proxied b) + one_if (ph' = Proxied b)) = X(a := X a - one_if (ph = Proxied a) + one_if (ph' = Proxied a))"
    using bits by (auto simp: fun_eq_iff)
  have "fm_ok p A (Q - one_if (queued ph) + one_if (queued ph')) (\<lambda>b. H b - one_if (holds b ph) + one_if (holds b ph'))
     (\<lambda>b. X b - one_if (ph = Proxied b) + one_if (ph' = Proxied b)) s'"
    unfolding H using fm_ok_endpoint [OF ok e e'] st s' by (simp add: fm_ok_def books_def)
  moreover have "\<forall>b. points b ph' \<longrightarrow> b \<in> dom (map_of (fm_objects s'))" "grows s s'"
    using same s' by (auto simp: grows_def)
  ultimately show ?thesis using cnt by (simp add: moved_def)
qed

lemma Picked_moved:
  assumes ok: "fm_ok p A Q H X s" and b: "booked A Q H X s (Picked a k)"
  shows "rets (handlerStep now rnd policy (Picked a k)) s (moved p A Q H X s (Picked a k))"
proof -
  have A: "0 < A" "0 < Q" "\<And>ph. ph = Picked a k \<Longrightarrow> active ph \<and> queued ph"
    using b by (simp_all add: phase_defs split: if_splits)
  have "moved p A Q H X s (Picked a k) (if got then Starting a else Balancing k) (s\<lparr>fm_objects := gm_set a e' (fm_objects s)\<rparr>)"
    if e: "map_of (fm_objects s) a = Some e"
      and r: "(case ue_Capacity e of None \<Rightarrow> Ret False e
        | Some c \<Rightarrow> if tk_len c > 0 then Ret True (e\<lparr>ue_Capacity := Some (c\<lparr>tk_len := tk_len c - 1\<rparr>)\<rparr>) else Ret False e) = Ret got e'"
    for e e' got
  proof (rule moved_endpoint [OF ok e])
    have e_ok: "endpoint_ok p (H a) (X a) e" using ok e by (simp add: fm_ok_def books_def)
    show "endpoint_ok p (H a - one_if (holds a (Picked a k)) + one_if (holds a (if got then Starting a else Balancing k)))
       (X a - one_if (Picked a k = Proxied a) + one_if ((if got then Starting a else Balancing k) = Proxied a)) e'"
      using r e_ok token_taken [OF e_ok] by (auto simp: holds_def split: option.splits if_splits)
  qed (use A ok in \<open>auto simp: phase_defs fm_ok_def books_def\<close>)
  then show ?thesis
    unfolding handlerStep.simps waitForCapacityOrDie_def rets_simps rets_on_endpoint by (simp add: rets_def)
qed

lemma Starting_moved:
  assumes ok: "fm_ok p A Q H X s" and b: "booked A Q H X s (Starting a)"
  shows "rets (handlerStep now rnd policy (Starting a)) s (moved p A Q H X s (Starting a))"
proof -
  have A: "0 < A" "0 < Q" "0 < H a" using b by (auto simp: phase_defs split: if_splits)
  have "moved p A Q H X s (Starting a) (Proxied a) (s\<lparr>fm_objects := gm_set a (e\<lparr>ue_InFlight := ue_InFlight e + 1\<rparr>) (fm_objects s),
         fm_loadBalancingMetadata := lb, fm_statistics := DecrementQueueDepth (fm_statistics s)\<rparr>)"
    if e: "map_of (fm_objects s) a = Some e" for e lb
  proof (rule moved_endpoint [OF ok e])
    have "endpoint_ok p (H a) (X a) e" using ok e by (simp add: fm_ok_def books_def)
    then show "endpoint_ok p (H a - one_if (holds a (Starting a)) + one_if (holds a (Proxied a)))
       (X a - one_if (Starting a = Proxied a) + one_if (Proxied a = Proxied a)) (e\<lparr>ue_InFlight := ue_InFlight e + 1\<rparr>)"
      using A(3) by (auto simp: endpoint_ok_def holds_def)
  qed (use A ok of_nat_pred [OF A(2), where 'a = int64] in \<open>auto simp: phase_defs fm_ok_def books_def statistics_defs\<close>)
  then show ?thesis
    unfolding handlerStep.simps startRequest_def by (simp add: pc IncrementRequestCountPerInstance_def)
qed


lemma Proxied_moved:
  assumes ok: "fm_ok p A Q H X s" and b: "booked A Q H X s (Proxied a)"
  shows "rets (handlerStep now rnd policy (Proxied a)) s (moved p A Q H X s (Proxied a))"
proof -
  have A: "0 < A" "0 < H a" "0 < X a" using b by (auto simp: phase_defs split: if_splits)
  have "moved p A Q H X s (Proxied a) (if b then Notifying a else Releasing a) (s\<lparr>fm_statistics := IncrementSuccessfulInvocations (fm_statistics s),
         fm_objects := gm_set a (e\<lparr>ue_InFlight := ue_InFlight e - 1\<rparr>) (fm_objects s)\<rparr>)"
    if e: "map_of (fm_objects s) a = Some e" for e b
  proof (rule moved_endpoint [OF ok e])
    have "endpoint_ok p (H a) (X a) e" using ok e by (simp add: fm_ok_def books_def)
    then show "endpoint_ok p (H a - one_if (holds a (Proxied a)) + one_if (holds a (if b then Notifying a else Releasing a)))
       (X a - one_if (Proxied a = Proxied a) + one_if ((if b then Notifying a else Releasing a) = Proxied a)) (e\<lparr>ue_InFlight := ue_InFlight e - 1\<rparr>)"
      using A(2,3) of_nat_pred [OF A(3), where 'a = int32] by (auto simp: endpoint_ok_def holds_def)
  qed (use A ok in \<open>auto simp: phase_defs fm_ok_def books_def statistics_defs\<close>)
  then show ?thesis
    unfolding handlerStep.simps leaveEndpoint_def rets_simps rets_on_endpoint by (simp add: rets_def Let_def)
qed

lemma Notifying_moved:
  assumes ok: "fm_ok p A Q H X s" and b: "booked A Q H X s (Notifying a)"
  shows "rets (handlerStep now rnd policy (Notifying a)) s (moved p A Q H X s (Notifying a))"
proof -
  have A: "0 < A" "0 < H a" using b by (auto simp: phase_defs split: if_splits)
  have "moved p A Q H X s (Notifying a) (Releasing a) (s\<lparr>fm_objects := gm_set a (e\<lparr>ue_DrainingCallback := c\<rparr>) (fm_objects s)\<rparr>)"
    if e: "map_of (fm_objects s) a = Some e" for e c
  proof (rule moved_endpoint [OF ok e])
    have "endpoint_ok p (H a) (X a) e" using ok e by (simp add: fm_ok_def books_def)
    then show "endpoint_ok p (H a - one_if (holds a (Notifying a)) + one_if (holds a (Releasing a)))
       (X a - one_if (Notifying a = Proxied a) + one_if (Releasing a = Proxied a)) (e\<lparr>ue_DrainingCallback := c\<rparr>)"
      using A(2) by (auto simp: endpoint_ok_def holds_def)
  qed (use A ok in \<open>auto simp: phase_defs fm_ok_def books_def\<close>)
  then show ?thesis
    unfolding handlerStep.simps notifyDrain_def rets_simps rets_on_endpoint
    by (auto simp: rets_def split: option.splits outcome.splits)
qed

lemma Releasing_moved:
  assumes ok: "fm_ok p A Q H X s" and b: "booked A Q H X s (Releasing a)"
  shows "rets (handlerStep now rnd policy (Releasing a)) s (moved p A Q H X s (Releasing a))"
proof -
  have A: "0 < A" "0 < H a" using b by (auto simp: phase_defs split: if_splits)
  have fin: "rets endRequest (s\<lparr>fm_objects := gm_set a e' (fm_objects s)\<rparr>) (\<lambda>_. moved p A Q H X s (Releasing a) (Finished 200))"
    if e: "map_of (fm_objects s) a = Some e" and r: "(case ue_Capacity e of None \<Rightarrow> Ret () e
       | Some c \<Rightarrow> (case tk_send c of Ret x c' \<Rightarrow> Ret x (e\<lparr>ue_Capacity := Some c'\<rparr>)
                   | Panic r _ \<Rightarrow> Panic r e | Blocked r _ \<Rightarrow> Blocked r e)) = Ret () e'" for e e'
  proof -
    have "endpoint_ok p (H a) (X a) e" using ok e by (simp add: fm_ok_def books_def)
    then have "endpoint_ok p (H a - 1) (X a) e'"
      using r A(2) by (auto simp: endpoint_ok_def tk_send_def split: if_splits)
    from fm_ok_end [OF fm_ok_endpoint [OF ok e this] A(1)]
    have *: "rets endRequest (s\<lparr>fm_objects := gm_set a e' (fm_objects s)\<rparr>) (\<lambda>_ t. fm_ok p (A - 1) Q (H(a := H a - 1)) X t \<and>
       fm_objects t = gm_set a e' (fm_objects s))" by (simp add: fun_upd_triv)
    have H: "(\<lambda>b. H b - one_if (holds b (Releasing a)) + one_if (holds b (Finished 200))) = H(a := H a - 1)"
      by (auto simp: fun_eq_iff holds_def)
    from * show ?thesis
      by (rule rets_mono) (simp add: moved_def H, auto simp: active_def points_def holds_def grows_def)
  qed
  then show ?thesis
    unfolding handlerStep.simps returnToken_def rets_simps rets_on_endpoint by (simp add: rets_def)
qed

lemma handler_moved:
  assumes ok: "fm_ok p A Q H X s" and b: "booked A Q H X s ph"
  shows "rets (handlerStep now rnd policy ph) s (moved p A Q H X s ph)"
proof (cases ph)
  case Arrived then show ?thesis using Arrived_moved [OF ok] by simp
next
  case Cold then show ?thesis using Cold_moved [OF ok] b by simp
next
  case (Waiting ch) then show ?thesis using Waiting_moved [OF ok] b by simp
next
  case (Balancing k) then show ?thesis using Balancing_moved [OF ok] b by simp
next
  case (Picked a k) then show ?thesis using Picked_moved [OF ok] b by simp
next
  case (Starting a) then show ?thesis using Starting_moved [OF ok] b by simp
next
  case (Proxied a) then show ?thesis using Proxied_moved [OF ok] b by simp
next
  case (Notifying a) then show ?thesis using Notifying_moved [OF ok] b by simp
next
  case (Releasing a) then show ?thesis using Releasing_moved [OF ok] b by simp
next
  case (Finished c) then show ?thesis by (simp add: pc)
qed


subsection \<open>The other goroutines\<close>

text \<open>They change neither the books nor, between the lock and the unlock, the lock.\<close>

definition kept :: "nat \<Rightarrow> nat \<Rightarrow> nat \<Rightarrow> (nat \<Rightarrow> nat) \<Rightarrow> (nat \<Rightarrow> nat) \<Rightarrow> FunctionMetadata \<Rightarrow> FunctionMetadata \<Rightarrow> bool" where
  "kept p A Q H X s s' \<longleftrightarrow> books p A Q H X s' \<and> grows s s' \<and> fm_mu s' = fm_mu s"

lemma kept_refl: "books p A Q H X s \<Longrightarrow> kept p A Q H X s s"
  by (simp add: kept_def)

lemma kept_trans: "kept p A Q H X s s' \<Longrightarrow> kept p A Q H X s' s'' \<Longrightarrow> kept p A Q H X s s''"
  unfolding kept_def grows_def by auto

lemma kept_books: "kept p A Q H X s s' \<Longrightarrow> books p A Q H X s'"
  by (simp add: kept_def)

lemma createThrottlerChannel_full: "createThrottlerChannel n = \<lparr>tk_cap = n, tk_len = n\<rparr>"
proof -
  have "k + m \<le> n \<Longrightarrow> fillThrottler k \<lparr>tk_cap = n, tk_len = m\<rparr> = Ret () \<lparr>tk_cap = n, tk_len = m + k\<rparr>" for k m
    by (induction k arbitrary: m) (simp_all add: go_monad tk_send_def)
  from this [of n 0] show ?thesis by (simp add: createThrottlerChannel_def)
qed

lemma addEndpoint_kept: "books p A Q H X s \<Longrightarrow> kept p A Q H X s (addEndpoint d s)"
  by (auto simp: kept_def books_def addEndpoint_def newUpstreamEndpoint_def endpoint_ok_def createThrottlerChannel_full grows_def less_Suc_eq)

lemma addToEndpointList_kept: "books p A Q H X s \<Longrightarrow> kept p A Q H X s (addToEndpointList ds s)"
proof (induction ds arbitrary: s)
  case (Cons d ds)
  note step = addEndpoint_kept [OF Cons.prems, of d]
  from kept_trans [OF step Cons.IH [OF kept_books [OF step]]] show ?case by (simp add: addToEndpointList_def)
qed (simp add: addToEndpointList_def kept_refl)

lemma setActiveEndpointCount_kept: "books p A Q H X s \<Longrightarrow> kept p A Q H X s (setActiveEndpointCount s)"
  by (auto simp: kept_def books_def setActiveEndpointCount_def grows_def)

lemma signal_kept: "books p A Q H X s \<Longrightarrow> rets (signal ch x) s (\<lambda>_. kept p A Q H X s)"
  by (auto simp: rets_def signal_def kept_def books_def grows_def split: list.splits)

lemma dequeueAll_kept: "books p A Q H X s \<Longrightarrow> rets (dequeueAll chs) s (\<lambda>_. kept p A Q H X s)"
proof (induction chs arbitrary: s)
  case Nil
  then show ?case by (simp add: pc kept_refl)
next
  case (Cons ch chs)
  let ?s = "s\<lparr>fm_queue := chs\<rparr>"
  have s: "kept p A Q H X s ?s" using Cons.prems by (simp add: kept_def books_def grows_def)
  have "rets (signal ch SuccessfulColdStart) ?s (\<lambda>_ t. rets (dequeueAll chs) t (\<lambda>_. kept p A Q H X s))"
  proof (rule rets_mono [OF signal_kept [OF kept_books [OF s]]])
    fix t
    assume t: "kept p A Q H X ?s t"
    show "rets (dequeueAll chs) t (\<lambda>_. kept p A Q H X s)"
      by (rule rets_mono [OF Cons.IH [OF kept_books [OF t]]]) (rule kept_trans [OF kept_trans [OF s t]])
  qed
  then show ?case by (simp add: pc)
qed

lemma locked_kept:
  assumes "fm_ok p A Q H X s" and "\<And>s. books p A Q H X s \<Longrightarrow> rets m s (\<lambda>_. kept p A Q H X s)"
  shows "rets (gthen (on_mu mu_Lock) (gbind m (\<lambda>x. gthen (on_mu mu_Unlock) (gret x)))) s (\<lambda>_. kept p A Q H X s)"
    and "rets (gthen (on_mu mu_Lock) (gdefer (on_mu mu_Unlock) m)) s (\<lambda>_. kept p A Q H X s)"
proof -
  let ?s = "s\<lparr>fm_mu := \<lparr>mu_w = True, mu_r = 0\<rparr>\<rparr>"
  have "books p A Q H X ?s" "fm_mu s = mu_free" using assms(1) by (simp_all add: fm_ok_def books_def)
  from assms(2) [OF this(1)] this(2) show "rets (gthen (on_mu mu_Lock) (gbind m (\<lambda>x. gthen (on_mu mu_Unlock) (gret x)))) s (\<lambda>_. kept p A Q H X s)"
    "rets (gthen (on_mu mu_Lock) (gdefer (on_mu mu_Unlock) m)) s (\<lambda>_. kept p A Q H X s)"
    by (simp_all add: pc; erule_tac rets_mono; simp add: kept_def books_def grows_def)+
qed

lemma AddEndpoints_kept: "fm_ok p A Q H X s \<Longrightarrow> rets (AddEndpoints eps) s (\<lambda>_. kept p A Q H X s)"
  unfolding AddEndpoints_def
proof (erule locked_kept(2))
  fix s
  assume "books p A Q H X s"
  note one = addToEndpointList_kept [OF this, of eps]
  note two = kept_trans [OF one setActiveEndpointCount_kept [OF kept_books [OF one]]]
  let ?t = "setActiveEndpointCount (addToEndpointList eps s)"
  have "rets (dequeueAll q) ?t (\<lambda>_. kept p A Q H X s)" for q
    by (rule rets_mono [OF dequeueAll_kept [OF kept_books [OF two]]]) (rule kept_trans [OF two])
  then show "rets (gthen (gmodify (addToEndpointList eps)) (gthen (gmodify setActiveEndpointCount)
         (gbind (gget (\<lambda>s. (fm_upstreamEndpoints s, fm_queue s))) (\<lambda>(es, q). gwhen (es \<noteq> []) (dequeueAll q))))) s
      (\<lambda>_. kept p A Q H X s)"
    using two by (simp add: pc)
qed

lemma RemoveAllEndpoints_kept: "fm_ok p A Q H X s \<Longrightarrow> rets RemoveAllEndpoints s (\<lambda>_. kept p A Q H X s)"
  unfolding RemoveAllEndpoints_def
  by (erule locked_kept(2)) (auto simp: pc kept_def books_def grows_def)

lemma on_endpoint_kept:
  assumes "books p A Q H X s"
    and "\<And>e h x. endpoint_ok p h x e \<Longrightarrow> rets m e (\<lambda>_. endpoint_ok p h x)"
  shows "rets (on_endpoint a m) s (\<lambda>_. kept p A Q H X s)"
  unfolding rets_on_endpoint
proof (intro allI impI)
  fix e
  assume e: "map_of (fm_objects s) a = Some e"
  with assms(1) have "endpoint_ok p (H a) (X a) e" by (simp add: books_def)
  from assms(2) [OF this] show "rets m e (\<lambda>_ e'. kept p A Q H X s (s\<lparr>fm_objects := gm_set a e' (fm_objects s)\<rparr>))"
  proof (rule rets_mono)
    fix e'
    assume "endpoint_ok p (H a) (X a) e'"
    then show "kept p A Q H X s (s\<lparr>fm_objects := gm_set a e' (fm_objects s)\<rparr>)"
      using assms(1) e by (auto simp: kept_def books_def grows_def)
  qed
qed

lemma markAll_kept: "books p A Q H X s \<Longrightarrow> rets (markAll ids es bs) s (\<lambda>_. kept p A Q H X s)"
proof (induction es arbitrary: s bs)
  case Nil
  then show ?case by (simp add: pc kept_refl)
next
  case (Cons a es)
  have go_on: "rets (markAll ids es bs) t (\<lambda>_. kept p A Q H X s)" if "kept p A Q H X s t" for t bs
    by (rule rets_mono [OF Cons.IH [OF kept_books [OF that]]]) (rule kept_trans [OF that])
  have mark: "rets (on_endpoint a markDraining) t (\<lambda>_. kept p A Q H X t)" if "books p A Q H X t" for t
    by (rule on_endpoint_kept [OF that]) (auto simp: rets_def markDraining_def Let_def endpoint_ok_def split: if_splits)
  have id: "rets (on_endpoint a (gget ue_ID)) s (\<lambda>_. kept p A Q H X s)"
    by (rule on_endpoint_kept [OF Cons.prems]) (simp add: pc)
  show ?case
    unfolding markAll.simps rets_simps
  proof (rule rets_mono [OF id])
    fix i t
    assume t: "kept p A Q H X s t"
    have "rets (gbind (on_endpoint a markDraining) (\<lambda>new. markAll ids es (if new then bs @ [a] else bs))) t (\<lambda>_. kept p A Q H X s)"
      unfolding rets_simps by (rule rets_mono [OF mark [OF kept_books [OF t]]]) (rule go_on, rule kept_trans [OF t])
    then show "rets (if i \<in> ids then gbind (on_endpoint a markDraining) (\<lambda>new. markAll ids es (if new then bs @ [a] else bs))
       else markAll ids es bs) t (\<lambda>_. kept p A Q H X s)"
      using go_on [OF t] by simp
  qed
qed

lemma removeFirst_subset: "set (removeFirst url u es) \<subseteq> set es"
  by (induction es) auto

lemma removeAll_subset: "set (foldl (\<lambda>es d. removeFirst url (ei_URL d) es) es ds) \<subseteq> set es"
proof (induction ds arbitrary: es)
  case (Cons d ds)
  from Cons.IH [of "removeFirst url (ei_URL d) es"] removeFirst_subset [of url "ei_URL d" es] show ?case by auto
qed simp

lemma removeEndpoints_kept: "books p A Q H X s \<Longrightarrow> kept p A Q H X s (fm_removeEndpoints ds s)"
  using removeAll_subset [of "urlOf s" "fm_upstreamEndpoints s" ds]
  by (auto simp: fm_removeEndpoints_def setActiveEndpointCount_def kept_def books_def grows_def)

lemma startDraining_kept: "fm_ok p A Q H X s \<Longrightarrow> rets (startDraining ds) s (\<lambda>_. kept p A Q H X s)"
proof -
  assume ok: "fm_ok p A Q H X s"
  let ?m = "gbind (markEndpointsAsDraining ds) (\<lambda>bs. gthen (gmodify (fm_removeEndpoints ds)) (gret bs))"
  have "rets ?m s (\<lambda>_. kept p A Q H X s)" if "books p A Q H X s" for s
    unfolding markEndpointsAsDraining_def rets_simps
    by (rule rets_mono [OF markAll_kept [OF that]]) (rule kept_trans, assumption, erule removeEndpoints_kept [OF kept_books])
  from locked_kept(1) [OF ok this] show ?thesis
    by (simp add: startDraining_def rets_simps)
qed

lemma waitForBarrier_kept: "books p A Q H X s \<Longrightarrow> rets (waitForBarrier a) s (\<lambda>_. kept p A Q H X s)"
  unfolding waitForBarrier_def
  by (erule on_endpoint_kept) (auto simp: rets_def endpoint_ok_def split: option.splits outcome.splits)

lemma waitForDraining_kept: "books p A Q H X s \<Longrightarrow> rets (waitForDrainingToComplete bs) s (\<lambda>_. kept p A Q H X s)"
proof -
  have "books p A Q H X s \<Longrightarrow> rets (grange bs (\<lambda>a. gthen (waitForBarrier a) (gret (None :: unit option)))) s (\<lambda>_. kept p A Q H X s)" for s
  proof (induction bs arbitrary: s)
    case (Cons b bs)
    show ?case
      unfolding grange.simps rets_simps
    proof (rule rets_mono [OF waitForBarrier_kept [OF Cons.prems]])
      fix t
      assume t: "kept p A Q H X s t"
      show "rets (case None of None \<Rightarrow> grange bs (\<lambda>a. gthen (waitForBarrier a) (gret (None :: unit option))) | Some v \<Rightarrow> gret (Some v)) t (\<lambda>_. kept p A Q H X s)"
        unfolding option.case by (rule rets_mono [OF Cons.IH [OF kept_books [OF t]]]) (rule kept_trans [OF t])
    qed
  qed (simp add: pc kept_refl)
  then show "books p A Q H X s \<Longrightarrow> rets (waitForDrainingToComplete bs) s (\<lambda>_. kept p A Q H X s)"
    by (simp add: waitForDrainingToComplete_def rets_simps)
qed

lemma metricsRound_kept: "fm_ok p A Q H X s \<Longrightarrow> rets metricsRound s (\<lambda>_. kept p A Q H X s)"
  by (auto simp: metricsRound_def pc fm_ok_def kept_def books_def grows_def)


section \<open>The invariant\<close>

definition tally :: "(phase \<Rightarrow> bool) \<Rightarrow> flow \<Rightarrow> nat" where
  "tally P f = length (filter P (fl_reqs f))"

definition flow_ok :: "nat \<Rightarrow> flow \<Rightarrow> bool" where
  "flow_ok p f \<longleftrightarrow> fm_ok p (tally active f) (tally queued f) (\<lambda>a. tally (holds a) f) (\<lambda>a. tally (\<lambda>ph. ph = Proxied a) f) (fl_fm f) \<and>
     (\<forall>ph \<in> set (fl_reqs f). \<forall>a. points a ph \<longrightarrow> a \<in> dom (map_of (fm_objects (fl_fm f))))"

lemma tally_update:
  assumes "i < length xs"
  shows "length (filter P (xs[i := y])) = length (filter P xs) - one_if (P (xs ! i)) + one_if (P y)"
    and "one_if (P (xs ! i)) \<le> length (filter P xs)"
proof -
  have xs: "filter P xs = filter P (take i xs) @ filter P (xs ! i # drop (Suc i) xs)"
    using assms by (metis filter_append id_take_nth_drop)
  show "length (filter P (xs[i := y])) = length (filter P xs) - one_if (P (xs ! i)) + one_if (P y)"
    unfolding xs using assms by (simp add: upd_conv_take_nth_drop)
  show "one_if (P (xs ! i)) \<le> length (filter P xs)" unfolding xs by simp
qed

lemma flow_ok_kept:
  assumes "flow_ok p f" and "kept p (tally active f) (tally queued f) (\<lambda>a. tally (holds a) f) (\<lambda>a. tally (\<lambda>ph. ph = Proxied a) f) (fl_fm f) s"
  shows "flow_ok p (f\<lparr>fl_fm := s, fl_drains := ds\<rparr>)" and "flow_ok p (f\<lparr>fl_fm := s\<rparr>)"
  using assms unfolding flow_ok_def kept_def fm_ok_def tally_def grows_def by (auto simp: subset_iff)

lemma flow_ok_step:
  assumes "flow_step f f'" and ok: "flow_ok p f"
  shows "flow_ok p f'"
  using assms(1)
proof cases
  have fm: "fm_ok p (tally active f) (tally queued f) (\<lambda>a. tally (holds a) f) (\<lambda>a. tally (\<lambda>ph. ph = Proxied a) f) (fl_fm f)"
    using ok by (simp add: flow_ok_def)
  then have bk: "books p (tally active f) (tally queued f) (\<lambda>a. tally (holds a) f) (\<lambda>a. tally (\<lambda>ph. ph = Proxied a) f) (fl_fm f)"
    by (simp add: fm_ok_def)
  {
    case arrive
    with ok show ?thesis by (auto simp: flow_ok_def tally_def active_def holds_def points_def)
  next
    case (handler i rnd now policy ph s)
    let ?old = "fl_reqs f ! i"
    have pts: "\<And>ph a. ph \<in> set (fl_reqs f) \<Longrightarrow> points a ph \<Longrightarrow> a \<in> dom (map_of (fm_objects (fl_fm f)))"
      using ok by (auto simp: flow_ok_def)
    have "booked (tally active f) (tally queued f) (\<lambda>a. tally (holds a) f) (\<lambda>a. tally (\<lambda>ph. ph = Proxied a) f) (fl_fm f) ?old"
      unfolding booked_def tally_def
    proof (intro conjI allI impI)
      show "one_if (?old = Proxied a) \<le> length (filter (\<lambda>ph. ph = Proxied a) (fl_reqs f))" for a
        using tally_update(2) [OF handler(2), of "\<lambda>ph. ph = Proxied a"] .
      show "a \<in> dom (map_of (fm_objects (fl_fm f)))" if "points a ?old" for a using pts [OF _ that] handler(2) by simp
    qed (rule tally_update(2) [OF handler(2)])+
    from handler_moved [OF fm this, of now rnd policy] handler(4)
    have m: "moved p (tally active f) (tally queued f) (\<lambda>a. tally (holds a) f) (\<lambda>a. tally (\<lambda>ph. ph = Proxied a) f) (fl_fm f) ?old ph s"
      by (simp add: rets_def)
    have "\<forall>ph' \<in> set ((fl_reqs f)[i := ph]). \<forall>a. points a ph' \<longrightarrow> a \<in> dom (map_of (fm_objects s))"
    proof (intro ballI allI impI)
      fix ph' a
      assume "ph' \<in> set ((fl_reqs f)[i := ph])" and a: "points a ph'"
      then consider "ph' = ph" | "ph' \<in> set (fl_reqs f)" using set_update_subset_insert [of "fl_reqs f" i ph] by auto
      then show "a \<in> dom (map_of (fm_objects s))"
      proof cases
        case 1
        with m a show ?thesis by (simp add: moved_def)
      next
        case 2
        with m pts [OF 2 a] show ?thesis by (auto simp: moved_def grows_def)
      qed
    qed
    with m show ?thesis
      unfolding handler(1) flow_ok_def tally_def by (simp add: tally_update(1) [OF handler(2)] moved_def)
  next
    case (cancel ch s)
    then show ?thesis
      using flow_ok_kept(2) [OF ok] signal_kept [OF bk, of ch CanceledColdStart]
      by (simp add: contextTerminationHandler_def rets_def)
  next
    case (add eps s)
    then show ?thesis using flow_ok_kept(2) [OF ok] AddEndpoints_kept [OF fm, of eps] by (simp add: rets_def)
  next
    case (clean s)
    then show ?thesis using flow_ok_kept(2) [OF ok] RemoveAllEndpoints_kept [OF fm] by (simp add: rets_def)
  next
    case (drain eps barriers s)
    then show ?thesis using flow_ok_kept(1) [OF ok] startDraining_kept [OF fm, of eps] by (simp add: rets_def)
  next
    case (drained i s)
    then show ?thesis using flow_ok_kept(1) [OF ok] waitForDraining_kept [OF bk, of "fl_drains f ! i"] by (simp add: rets_def)
  next
    case (metrics r s)
    then show ?thesis using flow_ok_kept(2) [OF ok] metricsRound_kept [OF fm] by (cases r) (simp add: rets_def)
  }
qed


lemma flow_ok_start: "flow_ok 1 (flow_start name dp)"
  by (simp add: flow_ok_def flow_start_def NewFunctionMetadata_def fm_ok_def books_def tally_def)

lemma flow_ok_reachable: "flow_reaches (flow_start name dp) f \<Longrightarrow> flow_ok 1 f"
  by (induction rule: rtranclp_induct) (use flow_ok_start flow_ok_step in blast)+

section \<open>Runs\<close>

datatype event = EArrive | EHandle nat | ECancel nat | EAdd "EndpointInfo list" | EDrain "EndpointInfo list" | EDrained nat

fun flow_event :: "event \<Rightarrow> flow \<Rightarrow> flow option" where
  "flow_event EArrive f = Some (f\<lparr>fl_reqs := fl_reqs f @ [Arrived]\<rparr>)"
| "flow_event (EHandle i) f = (if i < length (fl_reqs f) then
     (case handlerStep 0 (\<lambda>_. 0) LOAD_BALANCING_RANDOM (fl_reqs f ! i) (fl_fm f) of
        Ret ph s \<Rightarrow> Some (f\<lparr>fl_fm := s, fl_reqs := (fl_reqs f)[i := ph]\<rparr>) | _ \<Rightarrow> None) else None)"
| "flow_event (ECancel ch) f = (if ch \<in> fst ` set (fm_channels (fl_fm f)) then
     (case contextTerminationHandler (Some ch) (fl_fm f) of Ret _ s \<Rightarrow> Some (f\<lparr>fl_fm := s\<rparr>) | _ \<Rightarrow> None) else None)"
| "flow_event (EAdd eps) f = (case AddEndpoints eps (fl_fm f) of Ret _ s \<Rightarrow> Some (f\<lparr>fl_fm := s\<rparr>) | _ \<Rightarrow> None)"
| "flow_event (EDrain eps) f = (case startDraining eps (fl_fm f) of
     Ret bs s \<Rightarrow> Some (f\<lparr>fl_fm := s, fl_drains := fl_drains f @ [bs]\<rparr>) | _ \<Rightarrow> None)"
| "flow_event (EDrained i) f = (if i < length (fl_drains f) then
     (case waitForDrainingToComplete (fl_drains f ! i) (fl_fm f) of
        Ret _ s \<Rightarrow> Some (f\<lparr>fl_fm := s, fl_drains := take i (fl_drains f) @ drop (Suc i) (fl_drains f)\<rparr>) | _ \<Rightarrow> None) else None)"

lemma flow_event_step: "flow_event ev f = Some f' \<Longrightarrow> flow_step f f'"
proof (cases ev)
  case (EHandle i)
  then show "flow_event ev f = Some f' \<Longrightarrow> flow_step f f'"
    using handler [of i f "\<lambda>_. 0" 0 LOAD_BALANCING_RANDOM] by (auto simp: rand_ok_def split: if_splits outcome.splits)
qed (auto intro: flow_step.intros split: if_splits outcome.splits)

fun flow_events :: "event list \<Rightarrow> flow \<Rightarrow> flow option" where
  "flow_events [] f = Some f"
| "flow_events (ev # evs) f = Option.bind (flow_event ev f) (flow_events evs)"

lemma flow_events_reach: "flow_events evs f = Some f' \<Longrightarrow> flow_reaches f f'"
proof (induction evs arbitrary: f)
  case (Cons ev evs)
  then obtain g where "flow_event ev f = Some g" "flow_events evs g = Some f'" by (auto split: bind_splits)
  then show ?case using Cons.IH flow_event_step by (metis converse_rtranclp_into_rtranclp)
qed simp

lemma handlerStep_numeral:
  "handlerStep now rnd policy (Balancing (numeral n)) = gbind (runLoadBalancingAlgorithm rnd policy) (\<lambda>endpoint. case endpoint of
       None \<Rightarrow> gthen (on_statistics DecrementQueueDepth) (gthen endRequest (gret (Finished 0)))
     | Some a \<Rightarrow> gret (Picked a (pred_numeral n)))"
  by (simp add: numeral_eq_Suc)

lemmas flow_compute = handlerStep_numeral flow_start_def NewFunctionMetadata_def admit_def enqueue_def beginBalancing_def receive_def endRequest_def
  leaveEndpoint_def notifyDrain_def returnToken_def AddEndpoints_def addToEndpointList_def addEndpoint_def
  newUpstreamEndpoint_def createThrottlerChannel_full setActiveEndpointCount_def signal_def startDraining_def
  markEndpointsAsDraining_def markDraining_def fm_removeEndpoints_def urlOf_def waitForDrainingToComplete_def waitForBarrier_def
  runLoadBalancingAlgorithm_def randomLoadBalancing_def randomEndpoint_def index_at_def waitForCapacityOrDie_def startRequest_def
  IncrementRequestCountPerInstance_def triggerAutoscaling_def addInflight_def DecreaseInflight_def statistics_defs
  on_endpoint_def mu_Lock_def mu_Unlock_def mu_RLock_def mu_RUnlock_def tk_send_def tk_recv_def contextTerminationHandler_def
  go_monad gm_get_def AtomicMapCounter_AtomicIncrement_def AtomicMapCounter_AtomicAdd_def AtomicMap_defs

abbreviation sandbox :: "EndpointInfo" where
  "sandbox \<equiv> \<lparr>ei_ID = ''s1'', ei_URL = ''10.0.0.1:80''\<rparr>"

section \<open>Jammed notifications\<close>

definition jammed :: "nat \<Rightarrow> FunctionMetadata \<Rightarrow> bool" where
  \<comment> \<open>the endpoint is marked as drained and its callback channel is full\<close>
  "jammed a s \<longleftrightarrow> (\<exists>e. map_of (fm_objects s) a = Some e \<and> ue_Drained e \<noteq> 0 \<and> ue_DrainingCallback e = Some \<lparr>tk_cap = 1, tk_len = 1\<rparr>)"

lemma jammed_objects: "jammed a s \<Longrightarrow> fm_objects s' = fm_objects s \<Longrightarrow> jammed a s'"
  by (simp add: jammed_def)

lemma lb_frame_objects: "lb_frame s s' \<Longrightarrow> fm_objects s' = fm_objects s"
  unfolding lb_frame_def by (drule arg_cong [where f = fm_objects]) simp

lemma on_endpoint_jam:
  assumes "jammed a s" and "\<And>e. ue_Drained e \<noteq> 0 \<Longrightarrow> b = a \<Longrightarrow> ue_DrainingCallback e = Some \<lparr>tk_cap = 1, tk_len = 1\<rparr> \<Longrightarrow>
     rets m e (\<lambda>x e'. ue_Drained e' \<noteq> 0 \<and> ue_DrainingCallback e' = ue_DrainingCallback e \<and> P x)"
    and "\<And>x. b \<noteq> a \<Longrightarrow> P x"
  shows "rets (on_endpoint b m) s (\<lambda>x s'. jammed a s' \<and> P x)"
proof (cases "b = a")
  case True
  with assms(1,2) show ?thesis by (auto simp: pc jammed_def elim!: rets_mono)
next
  case False
  with assms(1,3) show ?thesis unfolding rets_on_endpoint by (simp add: jammed_def) (simp add: rets_def)
qed

lemma handler_jam:
  assumes jam: "jammed a s" and mu: "fm_mu s = mu_free"
  shows "rets (handlerStep now rnd policy ph) s (\<lambda>_. jammed a)"
proof -
  note obj = jammed_objects [OF jam]
  have keep: "rets (on_endpoint b m) s (\<lambda>x s'. jammed a s')"
    if "\<And>e. rets m e (\<lambda>_ e'. ue_Drained e' = ue_Drained e \<and> ue_DrainingCallback e' = ue_DrainingCallback e)"
    for b and m :: "(UpstreamEndpoint, 'x) go"
    using on_endpoint_jam [OF jam, of b m "\<lambda>_. True"] rets_mono [OF that] by simp
  show ?thesis
  proof (cases ph)
    case (Balancing k)
    show ?thesis
    proof (cases k)
      case 0
      with Balancing obj show ?thesis
        by (simp add: pc endRequest_def DecreaseInflight_def addInflight_def)
    next
      case (Suc k')
      have "rets (runLoadBalancingAlgorithm rnd policy) s (\<lambda>_ s'. fm_objects s' = fm_objects s)"
        by (rule rets_mono [OF rets_runLoadBalancing [OF mu]]) (simp add: lb_frame_objects)
      then show ?thesis
        unfolding Balancing Suc handlerStep.simps rets_simps
        by (rule rets_mono) (auto simp: pc endRequest_def DecreaseInflight_def addInflight_def intro: jammed_objects [OF jam] split: option.split)
    qed
  next
    case (Picked b k)
    have "rets (waitForCapacityOrDie b) s (\<lambda>_. jammed a)"
      unfolding waitForCapacityOrDie_def by (rule keep) (auto simp: rets_def split: option.splits if_splits)
    with Picked show ?thesis by (simp add: pc)
  next
    case (Starting b)
    have "rets (on_endpoint b (gmodify (\<lambda>e. e\<lparr>ue_InFlight := ue_InFlight e + 1\<rparr>))) s (\<lambda>_. jammed a)"
      by (rule keep) (simp add: pc)
    then show ?thesis
      unfolding Starting handlerStep.simps startRequest_def rets_simps
      by (rule rets_mono) (simp add: jammed_def IncrementRequestCountPerInstance_def)
  next
    case (Proxied b)
    have "jammed a (s\<lparr>fm_statistics := IncrementSuccessfulInvocations (fm_statistics s)\<rparr>)" by (rule obj) simp
    then have "rets (leaveEndpoint b) (s\<lparr>fm_statistics := IncrementSuccessfulInvocations (fm_statistics s)\<rparr>) (\<lambda>_ s'. jammed a s' \<and> True)"
      unfolding leaveEndpoint_def by (rule on_endpoint_jam) (simp_all add: rets_def Let_def)
    then show ?thesis unfolding Proxied handlerStep.simps rets_simps by simp
  next
    case (Notifying b)
    have "rets (notifyDrain b) s (\<lambda>_ s'. jammed a s' \<and> True)"
      unfolding notifyDrain_def by (rule on_endpoint_jam [OF jam]) (simp_all add: rets_def tk_send_def)
    with Notifying show ?thesis by (simp add: pc)
  next
    case (Releasing b)
    have "rets (returnToken b) s (\<lambda>_. jammed a)"
      unfolding returnToken_def by (rule keep) (auto simp: rets_def split: option.splits outcome.splits)
    then show ?thesis
      unfolding Releasing handlerStep.simps endRequest_def rets_simps
      by (rule rets_mono) (simp add: jammed_def DecreaseInflight_def addInflight_def)
  qed (use obj in \<open>auto simp: pc admit_def beginBalancing_def endRequest_def DecreaseInflight_def addInflight_def enqueue_def
        rets_def [of "receive _"] receive_def rets_def [of "triggerAutoscaling now"] triggerAutoscaling_def
        split: list.splits ColdStartOutcome.split\<close>)
qed


lemma addToEndpointList_jam:
  "jammed a s \<Longrightarrow> a < fm_next s \<Longrightarrow> jammed a (addToEndpointList ds s)"
proof (induction ds arbitrary: s)
  case (Cons d ds)
  have "jammed a (addEndpoint d s)" "a < fm_next (addEndpoint d s)"
    using Cons.prems by (auto simp: jammed_def addEndpoint_def)
  from Cons.IH [OF this] show ?case by (simp add: addToEndpointList_def)
qed (simp add: addToEndpointList_def)

lemma dequeueAll_jam: "jammed a s \<Longrightarrow> rets (dequeueAll chs) s (\<lambda>_. jammed a)"
proof (induction chs arbitrary: s)
  case (Cons ch chs)
  have "rets (signal ch SuccessfulColdStart) (s\<lparr>fm_queue := chs\<rparr>) (\<lambda>_. jammed a)"
    using Cons.prems by (auto simp: rets_def signal_def jammed_def split: list.splits)
  then show ?case
    unfolding dequeueAll.simps rets_simps by (rule rets_mono) (rule Cons.IH)
qed (simp add: pc)

lemma AddEndpoints_jam:
  assumes "jammed a s" "a < fm_next s"
  shows "rets (AddEndpoints eps) s (\<lambda>_. jammed a)"
proof -
  let ?s = "setActiveEndpointCount (addToEndpointList eps (s\<lparr>fm_mu := \<lparr>mu_w = True, mu_r = 0\<rparr>\<rparr>))"
  have "jammed a (s\<lparr>fm_mu := \<lparr>mu_w = True, mu_r = 0\<rparr>\<rparr>)" "a < fm_next (s\<lparr>fm_mu := \<lparr>mu_w = True, mu_r = 0\<rparr>\<rparr>)"
    using assms by (simp_all add: jammed_def)
  from addToEndpointList_jam [OF this, of eps] have s: "jammed a ?s" by (simp add: setActiveEndpointCount_def jammed_def)
  have "rets (dequeueAll q) ?s (\<lambda>_ t. mu_w (fm_mu t) \<longrightarrow> jammed a (t\<lparr>fm_mu := (fm_mu t)\<lparr>mu_w := False\<rparr>\<rparr>))" for q
    by (rule rets_mono [OF dequeueAll_jam [OF s]]) (simp add: jammed_def)
  moreover have "jammed a (?s\<lparr>fm_mu := m\<rparr>)" for m using s by (simp add: jammed_def)
  ultimately show ?thesis by (simp add: AddEndpoints_def pc)
qed

lemma markAll_jam: "jammed a s \<Longrightarrow> a \<notin> set bs \<Longrightarrow> rets (markAll ids es bs) s (\<lambda>bs' s'. jammed a s' \<and> a \<notin> set bs')"
proof (induction es arbitrary: s bs)
  case (Cons b es)
  have id: "rets (on_endpoint b (gget ue_ID)) s (\<lambda>_ s'. jammed a s' \<and> True)"
    by (rule on_endpoint_jam [OF Cons.prems(1)]) (simp_all add: pc)
  have mark: "rets (on_endpoint b markDraining) t (\<lambda>new t'. jammed a t' \<and> (b = a \<longrightarrow> \<not> new))" if "jammed a t" for t
    by (rule on_endpoint_jam [OF that]) (simp_all add: rets_def markDraining_def)
  show ?case
    unfolding markAll.simps rets_simps
  proof (rule rets_mono [OF id], elim conjE)
    fix i t
    assume t: "jammed a t"
    have "rets (gbind (on_endpoint b markDraining) (\<lambda>new. markAll ids es (if new then bs @ [b] else bs))) t (\<lambda>bs' s'. jammed a s' \<and> a \<notin> set bs')"
      unfolding rets_simps by (rule rets_mono [OF mark [OF t]]) (rule Cons.IH, use Cons.prems(2) in auto)
    then show "rets (if i \<in> ids then gbind (on_endpoint b markDraining) (\<lambda>new. markAll ids es (if new then bs @ [b] else bs))
       else markAll ids es bs) t (\<lambda>bs' s'. jammed a s' \<and> a \<notin> set bs')"
      using Cons.IH [OF t Cons.prems(2)] by simp
  qed
qed (simp add: pc)

lemma startDraining_jam:
  assumes "jammed a s"
  shows "rets (startDraining ds) s (\<lambda>bs s'. jammed a s' \<and> a \<notin> set bs)"
proof -
  have "jammed a (s\<lparr>fm_mu := \<lparr>mu_w = True, mu_r = 0\<rparr>\<rparr>)" using assms by (simp add: jammed_def)
  from markAll_jam [OF this, of "[]" "ei_ID ` set ds" "fm_upstreamEndpoints s"]
  have mark: "rets (markAll (ei_ID ` set ds) (fm_upstreamEndpoints s) []) (s\<lparr>fm_mu := \<lparr>mu_w = True, mu_r = 0\<rparr>\<rparr>)
     (\<lambda>bs t. jammed a t \<and> a \<notin> set bs)" by simp
  have "jammed a ((fm_removeEndpoints ds t)\<lparr>fm_mu := m\<rparr>)" if "jammed a t" for t m
    using that by (simp add: jammed_def fm_removeEndpoints_def setActiveEndpointCount_def)
  then show ?thesis
    by (simp add: startDraining_def markEndpointsAsDraining_def pc) (intro impI rets_mono [OF mark], simp)
qed

lemma waitForDraining_jam:
  assumes "jammed a s" "a \<notin> set bs"
  shows "rets (waitForDrainingToComplete bs) s (\<lambda>_. jammed a)"
proof -
  have "rets (grange bs (\<lambda>b. gthen (waitForBarrier b) (gret (None :: unit option)))) s (\<lambda>_. jammed a)"
    using assms
  proof (induction bs arbitrary: s)
    case (Cons b bs)
    have "rets (waitForBarrier b) s (\<lambda>_ s'. jammed a s' \<and> True)"
      unfolding waitForBarrier_def using Cons.prems(2) by (intro on_endpoint_jam [OF Cons.prems(1)]) auto
    then show ?case
      unfolding grange.simps rets_simps by (rule rets_mono) (use Cons in auto)
  qed (simp add: pc)
  then show ?thesis by (simp add: waitForDrainingToComplete_def pc)
qed

definition jam :: "nat \<Rightarrow> nat \<Rightarrow> flow \<Rightarrow> bool" where
  \<comment> \<open>request \<open>i\<close> waits to notify a drain that nobody waits for\<close>
  "jam a i f \<longleftrightarrow> jammed a (fl_fm f) \<and> i < length (fl_reqs f) \<and> fl_reqs f ! i = Notifying a \<and> (\<forall>bs \<in> set (fl_drains f). a \<notin> set bs)"

lemma notifyDrain_jammed: "jammed a s \<Longrightarrow> \<exists>why s'. notifyDrain a s = Blocked why s'"
  by (auto simp: jammed_def notifyDrain_def on_endpoint_def gzoom_def tk_send_def)

lemma jam_step:
  assumes "flow_step f f'" and jam: "jam a i f" and ok: "flow_ok p f"
  shows "jam a i f'"
  using assms(1)
proof cases
  have j: "jammed a (fl_fm f)" "fl_reqs f ! i = Notifying a" "i < length (fl_reqs f)" "\<forall>bs \<in> set (fl_drains f). a \<notin> set bs"
    using jam by (simp_all add: jam_def)
  have mu: "fm_mu (fl_fm f) = mu_free" and nx: "a < fm_next (fl_fm f)"
    using ok j(1) by (auto simp: flow_ok_def fm_ok_def books_def jammed_def)
  {
    case arrive
    with j show ?thesis by (simp add: jam_def nth_append)
  next
    case (handler k rnd now policy ph s)
    have "k \<noteq> i"
    proof
      assume "k = i"
      with handler(4) j(2) notifyDrain_jammed [OF j(1)] show False by (auto simp: gthen_def gbind_def)
    qed
    moreover have "jammed a s" using handler_jam [OF j(1) mu] handler(4) by (simp add: rets_def)
    ultimately show ?thesis using j unfolding handler(1) by (simp add: jam_def)
  next
    case (cancel ch s)
    with j show ?thesis by (auto simp: jam_def contextTerminationHandler_def signal_def jammed_def split: list.splits)
  next
    case (add eps s)
    with j AddEndpoints_jam [OF j(1) nx, of eps] show ?thesis by (simp add: jam_def rets_def)
  next
    case (clean s)
    have "rets RemoveAllEndpoints (fl_fm f) (\<lambda>_. jammed a)" using j(1) by (simp add: RemoveAllEndpoints_def pc) (simp add: jammed_def)
    with clean j show ?thesis by (simp add: jam_def rets_def)
  next
    case (drain eps bs s)
    with j startDraining_jam [OF j(1), of eps] show ?thesis by (auto simp: jam_def rets_def)
  next
    case (drained k s)
    have "a \<notin> set (fl_drains f ! k)" using j(4) drained(2) by simp
    from waitForDraining_jam [OF j(1) this] drained(3) have "jammed a s" by (simp add: rets_def)
    with drained(1) j show ?thesis by (auto simp: jam_def dest: in_set_takeD in_set_dropD)
  next
    case (metrics r s)
    have "rets metricsRound (fl_fm f) (\<lambda>_. jammed a)" using j(1) by (simp add: metricsRound_def pc) (simp add: jammed_def)
    with metrics j show ?thesis by (cases r) (simp add: jam_def rets_def)
  }
qed

lemma jam_reaches: "flow_reaches f f' \<Longrightarrow> jam a i f \<Longrightarrow> flow_ok p f \<Longrightarrow> jam a i f' \<and> flow_ok p f'"
  by (induction rule: rtranclp_induct) (auto intro: jam_step flow_ok_step)


section \<open>Properties\<close>

lemma length_filter_le_if: "(\<And>x. P x \<Longrightarrow> Q x) \<Longrightarrow> length (filter P xs) \<le> length (filter Q xs)"
  by (induction xs) (auto intro: le_SucI)



text \<open>
  C35. Two races of a cold start. A request that reads the number of endpoints as 0 just before the first
  sandbox is announced is put into the queue after the queue has been emptied: it waits although an idle
  sandbox is there. And a request that is woken up when the sandbox has been drained again finds no
  endpoint and panics.
\<close>

theorem cold_start_races:
  "(\<exists>f ch. flow_reaches (flow_start ''f'' ''dp'') f \<and> fl_reqs f = [Waiting ch] \<and> fm_activeEndpointCount (fl_fm f) = 1 \<and>
      list_all (hasCapacity (fl_fm f)) (fm_upstreamEndpoints (fl_fm f)) \<and>
      (\<forall>now rnd policy. \<exists>why s. handlerStep now rnd policy (Waiting ch) (fl_fm f) = Blocked why s)) \<and>
   (\<exists>f. flow_reaches (flow_start ''f'' ''dp'') f \<and> fl_reqs f = [Finished 0])"
proof
  obtain f where f: "flow_events [EArrive, EHandle 0, EAdd [sandbox], EHandle 0] (flow_start ''f'' ''dp'') = Some f"
    "fl_reqs f = [Waiting 1]" "fm_activeEndpointCount (fl_fm f) = 1" "list_all (hasCapacity (fl_fm f)) (fm_upstreamEndpoints (fl_fm f))"
    "gm_get [] (fm_channels (fl_fm f)) 1 = []"
    by (simp add: flow_compute Let_def hasCapacity_def)
  have "\<exists>why s. handlerStep now rnd policy (Waiting 1) (fl_fm f) = Blocked why s" for now rnd policy
    using f(5) by (simp add: gbind_def receive_def)
  with f flow_events_reach [OF f(1)]
  show "\<exists>f ch. flow_reaches (flow_start ''f'' ''dp'') f \<and> fl_reqs f = [Waiting ch] \<and> fm_activeEndpointCount (fl_fm f) = 1 \<and>
      list_all (hasCapacity (fl_fm f)) (fm_upstreamEndpoints (fl_fm f)) \<and>
      (\<forall>now rnd policy. \<exists>why s. handlerStep now rnd policy (Waiting ch) (fl_fm f) = Blocked why s)"
    by blast
  obtain g where g: "flow_events [EArrive, EHandle 0, EHandle 0, EAdd [sandbox], EDrain [sandbox], EHandle 0, EHandle 0] (flow_start ''f'' ''dp'') = Some g"
    "fl_reqs g = [Finished 0]" by (simp add: flow_compute Let_def)
  with flow_events_reach [OF g(1)] show "\<exists>f. flow_reaches (flow_start ''f'' ''dp'') f \<and> fl_reqs f = [Finished 0]" by blast
qed

text \<open>
  C36. A drain can miss a request. A request that has got the capacity of a sandbox but is not counted yet
  does not hold up the drain: the drain completes while the request is with the sandbox. A second request
  that was waiting for the capacity of the same sandbox then reaches a state in which it waits to notify
  the drain for ever, whatever happens next, and the number of requests in flight never goes back to 0
  while fewer than 2 to the 32 requests are active.
\<close>

theorem drain_misses_request:
  "(\<exists>f a. flow_reaches (flow_start ''f'' ''dp'') f \<and> fl_reqs f = [Proxied a] \<and> fl_drains f = [] \<and>
      a \<notin> set (fm_upstreamEndpoints (fl_fm f)) \<and> (\<exists>e. map_of (fm_objects (fl_fm f)) a = Some e \<and> ue_Drained e \<noteq> 0)) \<and>
   (\<exists>f a. flow_reaches (flow_start ''f'' ''dp'') f \<and> fl_reqs f = [Finished 200, Notifying a] \<and>
      (\<forall>f'. flow_reaches f f' \<longrightarrow> fl_reqs f' ! 1 = Notifying a \<and>
         (tally active f' < 2 ^ 32 \<longrightarrow> sm_inflightRequests (fm_scalingMetric (fl_fm f')) \<noteq> 0)))"
proof
  obtain f where f: "flow_events [EAdd [sandbox], EArrive, EHandle 0, EHandle 0, EHandle 0, EDrain [sandbox], EDrained 0, EHandle 0] (flow_start ''f'' ''dp'') = Some f"
    "fl_reqs f = [Proxied 0]" "fl_drains f = []" "fm_upstreamEndpoints (fl_fm f) = []"
    "\<exists>e. map_of (fm_objects (fl_fm f)) 0 = Some e \<and> ue_Drained e \<noteq> 0"
    by (simp add: flow_compute Let_def)
  then show "\<exists>f a. flow_reaches (flow_start ''f'' ''dp'') f \<and> fl_reqs f = [Proxied a] \<and> fl_drains f = [] \<and>
      a \<notin> set (fm_upstreamEndpoints (fl_fm f)) \<and> (\<exists>e. map_of (fm_objects (fl_fm f)) a = Some e \<and> ue_Drained e \<noteq> 0)"
    using flow_events_reach [OF f(1)] by (intro exI [of _ f] exI [of _ 0]) simp
next
  obtain f where f: "flow_events [EAdd [sandbox], EArrive, EArrive, EHandle 0, EHandle 1, EHandle 0, EHandle 1, EHandle 0,
       EDrain [sandbox], EDrained 0, EHandle 0, EHandle 0, EHandle 0, EHandle 0, EHandle 1, EHandle 1, EHandle 1] (flow_start ''f'' ''dp'') = Some f"
    "fl_reqs f = [Finished 200, Notifying 0]" "jam 0 1 f"
    by (simp add: flow_compute Let_def jam_def jammed_def)
  note reach = flow_events_reach [OF f(1)]
  have "fl_reqs f' ! 1 = Notifying 0 \<and> (tally active f' < 2 ^ 32 \<longrightarrow> sm_inflightRequests (fm_scalingMetric (fl_fm f')) \<noteq> 0)"
    if "flow_reaches f f'" for f'
  proof -
    from jam_reaches [OF that f(3) flow_ok_reachable [OF reach]] have j: "jam 0 1 f'" "flow_ok 1 f'" by simp_all
    have "Notifying 0 \<in> set (fl_reqs f')" using j(1) by (metis jam_def nth_mem)
    then have "0 < tally active f'" by (auto simp: tally_def active_def filter_empty_conv)
    moreover have "sm_inflightRequests (fm_scalingMetric (fl_fm f')) = of_nat (tally active f')"
      using j(2) by (simp add: flow_ok_def fm_ok_def books_def)
    ultimately show ?thesis using j(1) by (auto simp: jam_def word_of_nat_eq_0_iff dest: nat_dvd_not_less)
  qed
  with reach f(2) show "\<exists>f a. flow_reaches (flow_start ''f'' ''dp'') f \<and> fl_reqs f = [Finished 200, Notifying a] \<and>
      (\<forall>f'. flow_reaches f f' \<longrightarrow> fl_reqs f' ! 1 = Notifying a \<and>
         (tally active f' < 2 ^ 32 \<longrightarrow> sm_inflightRequests (fm_scalingMetric (fl_fm f')) \<noteq> 0))"
    by blast
qed

theorem drain_misses_request_witness:
  "\<exists>f a. flow_reaches (flow_start ''f'' ''dp'') f \<and> fl_reqs f = [Finished 200, Notifying a, Arrived] \<and>
     sm_inflightRequests (fm_scalingMetric (fl_fm f)) \<noteq> 0"
proof -
  from drain_misses_request obtain f a where f: "flow_reaches (flow_start ''f'' ''dp'') f" "fl_reqs f = [Finished 200, Notifying a]"
    "\<And>f'. flow_reaches f f' \<Longrightarrow> tally active f' < 2 ^ 32 \<Longrightarrow> sm_inflightRequests (fm_scalingMetric (fl_fm f')) \<noteq> 0" by blast
  let ?f' = "f\<lparr>fl_reqs := fl_reqs f @ [Arrived]\<rparr>"
  have step: "flow_step f ?f'" by (rule flow_step.arrive)
  have "tally active ?f' < 2 ^ 32" using f(2) by (simp add: tally_def active_def)
  with f(3) [OF r_into_rtranclp [of flow_step, OF step]] have "sm_inflightRequests (fm_scalingMetric (fl_fm ?f')) \<noteq> 0" by blast
  moreover have "flow_reaches (flow_start ''f'' ''dp'') ?f'" using f(1) step by (rule rtranclp.rtrancl_into_rtrancl)
  ultimately show ?thesis using f(2) by (intro exI [of _ ?f'] exI [of _ a]) simp
qed

end
