(* ===== verification/Leader_Election.thy ===== *)
theory Leader_Election
  imports Proto_Types
begin

text \<open>
  \<^verbatim>\<open>internal/control_plane/leader_election\<close>: the election of a control plane leader. The first part
  has the consensus module with its handlers, each run under the module's mutex, and the server
  around it. The second part puts the modules of a cluster together with the calls and replies in
  flight (\<open>raft_step\<close>); a call may stay undelivered for ever, which covers lost connections and
  peers that are down. Terms are unbounded integers: a wrap-around takes \<open>2 ^ 31\<close> elections. The
  election timeout only decides when a timer fires, so the cluster lets a timer fire at any time.
  What is sent on the announcement channel is kept in order in \<open>announced\<close>.
\<close>

section \<open>The consensus module\<close>

datatype CMState = Follower | Candidate | Leader | Dead

fun CMState_String :: "CMState \<Rightarrow> string" where
  "CMState_String Follower = ''Follower''"
| "CMState_String Candidate = ''Candidate''"
| "CMState_String Leader = ''Leader''"
| "CMState_String Dead = ''Dead''"

record AnnounceLeadership =
  al_IsLeader :: bool
  al_Term :: int

record ConsensusModule =
  cm_id :: int
  peerIds :: "int list"
  currentTerm :: int
  votedFor :: int
  cm_state :: CMState
  electionResetEvent :: int
  currentLeaderID :: int
  announced :: "AnnounceLeadership list"

definition announce :: "bool \<Rightarrow> ConsensusModule \<Rightarrow> ConsensusModule" where
  "announce b cm = cm\<lparr>announced := announced cm @ [\<lparr>al_IsLeader = b, al_Term = currentTerm cm\<rparr>]\<rparr>"

definition NewConsensusModule :: "int \<Rightarrow> int list \<Rightarrow> ConsensusModule" where
  "NewConsensusModule ident peers =
     (let cm = \<lparr>cm_id = ident, peerIds = peers, currentTerm = 0, votedFor = - 1, cm_state = Follower,
                electionResetEvent = 0, currentLeaderID = 0, announced = []\<rparr>
      in if length peers = 0 then (announce True cm)\<lparr>cm_state := Leader\<rparr> else cm)"

definition CM_Report :: "ConsensusModule \<Rightarrow> int \<times> int \<times> bool" where
  "CM_Report cm = (cm_id cm, currentTerm cm, cm_state cm = Leader)"

definition CM_Stop :: "ConsensusModule \<Rightarrow> ConsensusModule" where
  "CM_Stop cm = cm\<lparr>cm_state := Dead\<rparr>"

definition CM_IsLeader :: "ConsensusModule \<Rightarrow> bool" where
  "CM_IsLeader cm \<longleftrightarrow> cm_state cm = Leader"

definition becomeFollower :: "int \<Rightarrow> int \<Rightarrow> ConsensusModule \<Rightarrow> ConsensusModule" where
  "becomeFollower now term cm =
     (announce False cm)\<lparr>cm_state := Follower, currentTerm := term, votedFor := - 1,
        electionResetEvent := now\<rparr>"

definition startLeader :: "ConsensusModule \<Rightarrow> ConsensusModule" where
  "startLeader cm = announce True (cm\<lparr>cm_state := Leader\<rparr>)"

definition CM_RequestVote ::
  "int \<Rightarrow> RequestVoteArgs \<Rightarrow> ConsensusModule \<Rightarrow> RequestVoteReply option \<times> ConsensusModule" where
  "CM_RequestVote now args cm =
     (if cm_state cm = Dead then (None, cm)
      else
        let cm1 = (if rv_Term args > currentTerm cm then becomeFollower now (rv_Term args) cm else cm)
        in if currentTerm cm1 = rv_Term args \<and>
              (votedFor cm1 = - 1 \<or> votedFor cm1 = rv_CandidateID args)
           then (Some \<lparr>rvr_Term = currentTerm cm1, rvr_VoteGranted = True\<rparr>,
                 cm1\<lparr>votedFor := rv_CandidateID args, electionResetEvent := now\<rparr>)
           else (Some \<lparr>rvr_Term = currentTerm cm1, rvr_VoteGranted = False\<rparr>, cm1))"

definition CM_AppendEntries ::
  "int \<Rightarrow> AppendEntriesArgs \<Rightarrow> ConsensusModule \<Rightarrow> AppendEntriesReply option \<times> ConsensusModule" where
  "CM_AppendEntries now args cm =
     (if cm_state cm = Dead then (None, cm)
      else
        let cm1 = (if ae_Term args > currentTerm cm then becomeFollower now (ae_Term args) cm else cm);
            cm2 = cm1\<lparr>currentLeaderID := ae_LeaderID args\<rparr>
        in if ae_Term args = currentTerm cm2
           then let cm3 = (if cm_state cm2 \<noteq> Follower then becomeFollower now (ae_Term args) cm2 else cm2);
                    cm4 = cm3\<lparr>electionResetEvent := now\<rparr>
                in (Some \<lparr>aer_Term = currentTerm cm4, aer_Success = True\<rparr>, cm4)
           else (Some \<lparr>aer_Term = currentTerm cm2, aer_Success = False\<rparr>, cm2))"

definition GetLeaderID :: "ConsensusModule \<Rightarrow> int" where
  "GetLeaderID cm = currentLeaderID cm"

definition electionTimeout :: "bool \<Rightarrow> nat \<Rightarrow> nat \<Rightarrow> int" where
  \<comment> \<open>in milliseconds; \<open>force\<close>: \<^verbatim>\<open>RAFT_FORCE_MORE_REELECTION\<close> is set; the draws of \<^verbatim>\<open>rand.Intn(3)\<close> and
     \<^verbatim>\<open>rand.Intn(150)\<close> are arguments\<close>
  "electionTimeout force draw3 draw150 = (if force \<and> draw3 = 0 then 150 else 150 + int draw150)"

text \<open>
  The synchronous part of \<^verbatim>\<open>startElection\<close>. Its goroutines send
  \<open>\<lparr>rv_Term = saved term, rv_CandidateID = id\<rparr>\<close> to each peer and share the variable \<^verbatim>\<open>votesReceived\<close>.
\<close>

definition startElection :: "int \<Rightarrow> ConsensusModule \<Rightarrow> ConsensusModule" where
  "startElection now cm =
     cm\<lparr>cm_state := Candidate, currentTerm := currentTerm cm + 1, electionResetEvent := now,
        votedFor := cm_id cm\<rparr>"

text \<open>One tick of \<^verbatim>\<open>runElectionTimer\<close>: whether the timer ends, and the module afterwards.\<close>

definition electionTimerTick ::
  "int \<Rightarrow> int \<Rightarrow> int \<Rightarrow> ConsensusModule \<Rightarrow> bool \<times> ConsensusModule" where
  "electionTimerTick now timeoutDuration termStarted cm =
     (if cm_state cm \<noteq> Candidate \<and> cm_state cm \<noteq> Follower then (True, cm)
      else if termStarted \<noteq> currentTerm cm then (True, cm)
      else if now - electionResetEvent cm \<ge> timeoutDuration then (True, startElection now cm)
      else (False, cm))"

text \<open>
  A goroutine of \<^verbatim>\<open>startElection\<close> when the reply of its peer arrives: \<open>saved\<close> and \<open>votes\<close> are the
  captured variables \<^verbatim>\<open>savedCurrentTerm\<close> and \<^verbatim>\<open>votesReceived\<close>.
\<close>

definition voteReplyHandler ::
  "int \<Rightarrow> int \<Rightarrow> int \<Rightarrow> RequestVoteReply \<Rightarrow> ConsensusModule \<Rightarrow> int \<times> ConsensusModule" where
  "voteReplyHandler now saved votes reply cm =
     (if cm_state cm \<noteq> Candidate then (votes, cm)
      else if rvr_Term reply > saved then (votes, becomeFollower now (rvr_Term reply) cm)
      else if rvr_Term reply = saved \<and> rvr_VoteGranted reply then
        (if (votes + 1) * 2 > int (length (peerIds cm)) + 1 then (votes + 1, startLeader cm)
         else (votes + 1, cm))
      else (votes, cm))"

definition leaderSendHeartbeats :: "ConsensusModule \<Rightarrow> (int \<times> AppendEntriesArgs) list" where
  \<comment> \<open>what is sent to whom\<close>
  "leaderSendHeartbeats cm =
     (if cm_state cm \<noteq> Leader then []
      else map (\<lambda>p. (p, \<lparr>ae_Term = currentTerm cm, ae_LeaderID = cm_id cm\<rparr>)) (peerIds cm))"

definition heartbeatReplyHandler ::
  "int \<Rightarrow> int \<Rightarrow> AppendEntriesReply \<Rightarrow> ConsensusModule \<Rightarrow> ConsensusModule" where
  "heartbeatReplyHandler now saved reply cm =
     (if aer_Term reply > saved then becomeFollower now (aer_Term reply) cm else cm)"

section \<open>The server\<close>

record LeaderElectionServer =
  serverId :: int
  les_peerIds :: "int list"
  les_cm :: ConsensusModule
  peerClients :: "(int, int) gomap"
    \<comment> \<open>the client of a peer, represented by the peer it talks to\<close>

definition NewServer :: "int \<Rightarrow> int list \<Rightarrow> LeaderElectionServer" where
  "NewServer sid peers =
     \<lparr>serverId = sid, les_peerIds = peers, les_cm = NewConsensusModule sid peers, peerClients = []\<rparr>"

definition LES_IsLeader :: "LeaderElectionServer \<Rightarrow> bool" where
  "LES_IsLeader s = CM_IsLeader (les_cm s)"

definition GetLeader :: "(LeaderElectionServer, int option) go" where
  "GetLeader s =
     (if CM_IsLeader (les_cm s)
      then Panic ''This function should not be called if you are the leader.'' s
      else Ret (map_of (peerClients s) (GetLeaderID (les_cm s))) s)"

definition DisconnectAll :: "LeaderElectionServer \<Rightarrow> LeaderElectionServer" where
  "DisconnectAll s = s\<lparr>peerClients := fold (\<lambda>(k, _) m. gm_del k m) (peerClients s) (peerClients s)\<rparr>"

definition ConnectToPeer :: "bool \<Rightarrow> int \<Rightarrow> LeaderElectionServer \<Rightarrow> bool \<times> LeaderElectionServer" where
  \<comment> \<open>\<open>conn\<close>: whether \<^verbatim>\<open>EstablishGRPCConnectionPoll\<close> gives a connection\<close>
  "ConnectToPeer conn peerId s =
     (if \<not> conn then (False, s)
      else (True, if map_of (peerClients s) peerId = None
                  then s\<lparr>peerClients := gm_set peerId peerId (peerClients s)\<rparr> else s))"

definition DisconnectPeer :: "int \<Rightarrow> LeaderElectionServer \<Rightarrow> LeaderElectionServer" where
  "DisconnectPeer peerId s =
     (if map_of (peerClients s) peerId \<noteq> None
      then s\<lparr>peerClients := gm_del peerId (peerClients s)\<rparr> else s)"

definition LES_RequestVote ::
  "int \<Rightarrow> RequestVoteArgs \<Rightarrow> LeaderElectionServer \<Rightarrow> RequestVoteReply option \<times> LeaderElectionServer" where
  "LES_RequestVote now args s =
     (let (reply, cm) = CM_RequestVote now args (les_cm s) in (reply, s\<lparr>les_cm := cm\<rparr>))"

definition LES_AppendEntries ::
  "int \<Rightarrow> AppendEntriesArgs \<Rightarrow> LeaderElectionServer \<Rightarrow> AppendEntriesReply option \<times> LeaderElectionServer" where
  "LES_AppendEntries now args s =
     (let (reply, cm) = CM_AppendEntries now args (les_cm s) in (reply, s\<lparr>les_cm := cm\<rparr>))"

text \<open>
  \<^verbatim>\<open>EstablishLeaderElectionMesh\<close> returns when half of the cluster is connected. \<open>attempts\<close> is the
  order in which the goroutines' attempts end, with their outcome; the wait never ends if too few
  of them succeed.
\<close>

fun EstablishLeaderElectionMesh ::
  "nat \<Rightarrow> (int \<times> bool) list \<Rightarrow> (LeaderElectionServer, unit) go" where
  "EstablishLeaderElectionMesh 0 attempts s = Ret () s"
| "EstablishLeaderElectionMesh (Suc votesNeeded) [] s = Blocked ''wg.Wait'' s"
| "EstablishLeaderElectionMesh (Suc votesNeeded) ((peer, conn) # attempts) s =
     (let (success, s') = ConnectToPeer conn peer s in
      EstablishLeaderElectionMesh (if success then votesNeeded else Suc votesNeeded) attempts s')"

definition meshVotesNeeded :: "string list \<Rightarrow> nat" where
  "meshVotesNeeded replicas = (length replicas + 1) div 2"

section \<open>A cluster of modules\<close>

text \<open>
  \<open>elections\<close> has one entry for every call of \<^verbatim>\<open>startElection\<close>: the candidate, its saved term and the
  votes received. Calls and replies in flight refer to an election by its index. The last three
  fields are history: who voted for whom in which term, who became leader of which term, and
  whose votes an election has counted.
\<close>

record Net =
  cms :: "int \<Rightarrow> ConsensusModule"
  elections :: "(int \<times> int \<times> int) list"
  voteReqs :: "(nat \<times> int) set"
  voteReps :: "(nat \<times> int \<times> RequestVoteReply) set"
  hbReqs :: "(int \<times> int \<times> int) set"
  hbReps :: "(int \<times> int \<times> int \<times> AppendEntriesReply) set"
  voted :: "(int \<times> int \<times> int) set"
  elected :: "(int \<times> int) set"
  counted :: "nat \<Rightarrow> int set"

text \<open>
  In a timely run a module handles no reply to a call that it made in an earlier term; nothing in
  the code ensures that.
\<close>

inductive raft_step :: "int set \<Rightarrow> bool \<Rightarrow> Net \<Rightarrow> Net \<Rightarrow> bool" for ids timely where
  timer_fires:
    "i \<in> ids \<Longrightarrow> cm_state (cms n i) \<in> {Follower, Candidate} \<Longrightarrow> cm' = startElection now (cms n i) \<Longrightarrow>
     raft_step ids timely n (n\<lparr>cms := (cms n)(i := cm'),
       elections := elections n @ [(i, currentTerm cm', 1)],
       voteReqs := voteReqs n \<union> {(length (elections n), p) |p. p \<in> set (peerIds (cms n i))},
       voted := insert (i, currentTerm cm', i) (voted n),
       counted := (counted n)(length (elections n) := {i})\<rparr>)"
| vote_requested:
    "(e, p) \<in> voteReqs n \<Longrightarrow> elections n ! e = (c, t, v) \<Longrightarrow>
     CM_RequestVote now \<lparr>rv_Term = t, rv_CandidateID = c\<rparr> (cms n p) = (reply, cm') \<Longrightarrow>
     raft_step ids timely n (n\<lparr>cms := (cms n)(p := cm'), voteReqs := voteReqs n - {(e, p)},
       voteReps := (case reply of None \<Rightarrow> voteReps n | Some r \<Rightarrow> insert (e, p, r) (voteReps n)),
       voted := (case reply of None \<Rightarrow> voted n
                 | Some r \<Rightarrow> if rvr_VoteGranted r then insert (p, t, c) (voted n) else voted n)\<rparr>)"
| vote_replied:
    "(e, p, r) \<in> voteReps n \<Longrightarrow> elections n ! e = (c, t, v) \<Longrightarrow>
     (timely \<longrightarrow> currentTerm (cms n c) = t) \<Longrightarrow>
     voteReplyHandler now t v r (cms n c) = (v', cm') \<Longrightarrow>
     raft_step ids timely n (n\<lparr>cms := (cms n)(c := cm'), elections := (elections n)[e := (c, t, v')],
       voteReps := voteReps n - {(e, p, r)},
       elected := (if cm_state (cms n c) \<noteq> Leader \<and> cm_state cm' = Leader
                   then insert (c, currentTerm cm') (elected n) else elected n),
       counted := (if v' \<noteq> v then (counted n)(e := insert p (counted n e)) else counted n)\<rparr>)"
| heartbeats_sent:
    "i \<in> ids \<Longrightarrow>
     raft_step ids timely n (n\<lparr>hbReqs := hbReqs n \<union>
       {(ae_LeaderID a, ae_Term a, p) |p a. (p, a) \<in> set (leaderSendHeartbeats (cms n i))}\<rparr>)"
| heartbeat_received:
    "(l, t, p) \<in> hbReqs n \<Longrightarrow>
     CM_AppendEntries now \<lparr>ae_Term = t, ae_LeaderID = l\<rparr> (cms n p) = (reply, cm') \<Longrightarrow>
     raft_step ids timely n (n\<lparr>cms := (cms n)(p := cm'),
       hbReps := (case reply of None \<Rightarrow> hbReps n | Some r \<Rightarrow> insert (l, t, p, r) (hbReps n))\<rparr>)"
| heartbeat_replied:
    "(l, t, p, r) \<in> hbReps n \<Longrightarrow> (timely \<longrightarrow> currentTerm (cms n l) = t) \<Longrightarrow>
     raft_step ids timely n (n\<lparr>cms := (cms n)(l := heartbeatReplyHandler now t r (cms n l)),
       hbReps := hbReps n - {(l, t, p, r)}\<rparr>)"
| stopped:
    "i \<in> ids \<Longrightarrow> raft_step ids timely n (n\<lparr>cms := (cms n)(i := CM_Stop (cms n i))\<rparr>)"

definition raft_start :: "int set \<Rightarrow> Net \<Rightarrow> bool" where
  "raft_start ids n \<longleftrightarrow>
     (\<forall>i \<in> ids. \<exists>peers. set peers = ids - {i} \<and> distinct peers \<and> cms n i = NewConsensusModule i peers) \<and>
     elections n = [] \<and> voteReqs n = {} \<and> voteReps n = {} \<and> hbReqs n = {} \<and> hbReps n = {} \<and>
     voted n = {} \<and> elected n = {}"

inductive raft_reachable :: "int set \<Rightarrow> bool \<Rightarrow> Net \<Rightarrow> bool" for ids timely where
  start: "raft_start ids n \<Longrightarrow> raft_reachable ids timely n"
| step: "raft_reachable ids timely n \<Longrightarrow> raft_step ids timely n n' \<Longrightarrow> raft_reachable ids timely n'"

subsection \<open>What the handlers do to a module\<close>

abbreviation same_peer :: "ConsensusModule \<Rightarrow> ConsensusModule \<Rightarrow> bool" where
  "same_peer cm cm' \<equiv> cm_id cm' = cm_id cm \<and> peerIds cm' = peerIds cm"

lemma becomeFollower_sel [simp]:
  "cm_id (becomeFollower now t cm) = cm_id cm" "peerIds (becomeFollower now t cm) = peerIds cm"
  "currentTerm (becomeFollower now t cm) = t" "votedFor (becomeFollower now t cm) = - 1"
  "cm_state (becomeFollower now t cm) = Follower"
  by (simp_all add: becomeFollower_def announce_def)

lemma startLeader_sel [simp]:
  "cm_id (startLeader cm) = cm_id cm" "peerIds (startLeader cm) = peerIds cm"
  "currentTerm (startLeader cm) = currentTerm cm" "votedFor (startLeader cm) = votedFor cm"
  "cm_state (startLeader cm) = Leader"
  by (simp_all add: startLeader_def announce_def)

lemma RequestVote_effect:
  assumes "CM_RequestVote now \<lparr>rv_Term = t, rv_CandidateID = c\<rparr> cm = (reply, cm')"
  shows "(cm' = cm \<and> (\<forall>r. reply = Some r \<longrightarrow> \<not> rvr_VoteGranted r)) \<or>
    (reply = Some \<lparr>rvr_Term = t, rvr_VoteGranted = True\<rparr> \<and> same_peer cm cm' \<and>
     currentTerm cm' = t \<and> votedFor cm' = c \<and>
     (currentTerm cm < t \<and> cm_state cm' = Follower \<or>
      currentTerm cm = t \<and> cm_state cm' = cm_state cm \<and> cm_state cm \<noteq> Dead \<and> votedFor cm \<in> {- 1, c}))"
proof (cases "cm_state cm = Dead")
  case True
  with assms show ?thesis by (simp add: CM_RequestVote_def)
next
  case alive: False
  show ?thesis
  proof (cases "currentTerm cm < t")
    case True
    with assms alive show ?thesis by (simp add: CM_RequestVote_def Let_def) auto
  next
    case False
    with assms alive show ?thesis
      by (cases "currentTerm cm = t \<and> votedFor cm \<in> {- 1, c}") (auto simp: CM_RequestVote_def)
  qed
qed

lemma AppendEntries_effect:
  assumes "CM_AppendEntries now \<lparr>ae_Term = t, ae_LeaderID = l\<rparr> cm = (reply, cm')"
  shows "same_peer cm cm' \<and>
    (currentTerm cm' = currentTerm cm \<and> votedFor cm' = votedFor cm \<and> cm_state cm' = cm_state cm \<or>
     currentTerm cm < currentTerm cm' \<and> votedFor cm' = - 1 \<and> cm_state cm' = Follower \<or>
     currentTerm cm = t \<and> currentTerm cm' = t \<and> votedFor cm' = - 1 \<and> cm_state cm' = Follower \<and>
     cm_state cm \<in> {Candidate, Leader})"
proof (cases "cm_state cm = Dead")
  case True
  with assms show ?thesis by (simp add: CM_AppendEntries_def)
next
  case alive: False
  consider "currentTerm cm < t" | "t < currentTerm cm" | "currentTerm cm = t" "cm_state cm = Follower"
    | "currentTerm cm = t" "cm_state cm \<noteq> Follower" by linarith
  then show ?thesis
  proof cases
    case 4
    with alive have "cm_state cm \<in> {Candidate, Leader}" by (cases "cm_state cm") auto
    with 4 assms alive show ?thesis by (simp add: CM_AppendEntries_def Let_def) auto
  qed (use assms alive in \<open>simp_all add: CM_AppendEntries_def Let_def\<close>, auto)
qed

subsection \<open>The invariant on votes and leaders\<close>

definition safe :: "int set \<Rightarrow> (int \<Rightarrow> ConsensusModule) \<Rightarrow> (int \<times> int \<times> int) set \<Rightarrow> (int \<times> int) set \<Rightarrow> bool" where
  "safe ids f V E \<longleftrightarrow>
     (\<forall>v t c. (v, t, c) \<in> V \<longrightarrow> v \<in> ids \<and> c \<in> ids \<and> t \<le> currentTerm (f v)) \<and>
     (\<forall>i \<in> ids. votedFor (f i) \<noteq> - 1 \<longrightarrow> (i, currentTerm (f i), votedFor (f i)) \<in> V) \<and>
     (\<forall>i \<in> ids. \<forall>c. (i, currentTerm (f i), c) \<in> V \<longrightarrow> c = i \<or> c = votedFor (f i)) \<and>
     (\<forall>i \<in> ids. cm_state (f i) \<in> {Candidate, Leader} \<longrightarrow> votedFor (f i) = i) \<and>
     (\<forall>v t w. (v, t, v) \<in> V \<longrightarrow> (v, t, w) \<in> V \<longrightarrow> w \<noteq> v \<longrightarrow> (v, t) \<notin> E) \<and>
     (\<forall>v t w w'. (v, t, w) \<in> V \<longrightarrow> (v, t, w') \<in> V \<longrightarrow> w \<noteq> v \<longrightarrow> w' \<noteq> v \<longrightarrow> w = w') \<and>
     (\<forall>l t. (l, t) \<in> E \<longrightarrow> l \<in> ids \<and> t \<le> currentTerm (f l) \<and>
        (\<exists>Q \<subseteq> ids. card ids < 2 * card Q \<and> (\<forall>q \<in> Q. (q, t, l) \<in> V))) \<and>
     (\<forall>l l' t. (l, t) \<in> E \<longrightarrow> (l', t) \<in> E \<longrightarrow> l = l') \<and>
     (\<forall>i \<in> ids. cm_state (f i) = Leader \<longrightarrow> (i, currentTerm (f i)) \<in> E) \<and>
     (\<forall>i \<in> ids. (i, currentTerm (f i)) \<in> E \<longrightarrow> cm_state (f i) \<in> {Leader, Dead})"

lemma safeD:
  assumes "safe ids f V E"
  shows safe_vote_bound: "(v, t, c) \<in> V \<Longrightarrow> v \<in> ids \<and> c \<in> ids \<and> t \<le> currentTerm (f v)"
    and safe_votedFor: "i \<in> ids \<Longrightarrow> votedFor (f i) \<noteq> - 1 \<Longrightarrow> (i, currentTerm (f i), votedFor (f i)) \<in> V"
    and safe_current: "i \<in> ids \<Longrightarrow> (i, currentTerm (f i), c) \<in> V \<Longrightarrow> c = i \<or> c = votedFor (f i)"
    and safe_self: "i \<in> ids \<Longrightarrow> cm_state (f i) \<in> {Candidate, Leader} \<Longrightarrow> votedFor (f i) = i"
    and safe_double: "(v, t, v) \<in> V \<Longrightarrow> (v, t, w) \<in> V \<Longrightarrow> w \<noteq> v \<Longrightarrow> (v, t) \<notin> E"
    and safe_other: "(v, t, w) \<in> V \<Longrightarrow> (v, t, w') \<in> V \<Longrightarrow> w \<noteq> v \<Longrightarrow> w' \<noteq> v \<Longrightarrow> w = w'"
    and safe_quorum: "(l, t) \<in> E \<Longrightarrow> l \<in> ids \<and> t \<le> currentTerm (f l) \<and>
        (\<exists>Q \<subseteq> ids. card ids < 2 * card Q \<and> (\<forall>q \<in> Q. (q, t, l) \<in> V))"
    and safe_unique: "(l, t) \<in> E \<Longrightarrow> (l', t) \<in> E \<Longrightarrow> l = l'"
    and safe_leader: "i \<in> ids \<Longrightarrow> cm_state (f i) = Leader \<Longrightarrow> (i, currentTerm (f i)) \<in> E"
    and safe_elected: "i \<in> ids \<Longrightarrow> (i, currentTerm (f i)) \<in> E \<Longrightarrow> cm_state (f i) \<in> {Leader, Dead}"
  using assms unfolding safe_def by simp_all blast

text \<open>
  The invariant after module \<open>i\<close> has changed to \<open>cm'\<close>, its term not lowered: what has to be shown
  for \<open>i\<close> alone.
\<close>

lemma safe_update:
  assumes s: "safe ids f V E" and V: "V \<subseteq> V'" and E: "E \<subseteq> E'"
    and up: "currentTerm (f i) \<le> currentTerm cm'"
    and newV: "\<And>v t c. (v, t, c) \<in> V' - V \<Longrightarrow> v = i \<and> i \<in> ids \<and> c \<in> ids \<and> t = currentTerm cm'"
    and newE: "\<And>l t. (l, t) \<in> E' - E \<Longrightarrow> l = i \<and> i \<in> ids \<and> t = currentTerm cm' \<and>
      (\<exists>Q \<subseteq> ids. card ids < 2 * card Q \<and> (\<forall>q \<in> Q. (q, t, l) \<in> V')) \<and> (\<forall>l'. (l', t) \<in> E' \<longrightarrow> l' = i)"
    and vf: "i \<in> ids \<Longrightarrow> votedFor cm' \<noteq> - 1 \<Longrightarrow> (i, currentTerm cm', votedFor cm') \<in> V'"
    and cur: "\<And>c. i \<in> ids \<Longrightarrow> (i, currentTerm cm', c) \<in> V' \<Longrightarrow> c = i \<or> c = votedFor cm'"
    and self: "i \<in> ids \<Longrightarrow> cm_state cm' \<in> {Candidate, Leader} \<Longrightarrow> votedFor cm' = i"
    and dbl: "\<And>w. i \<in> ids \<Longrightarrow> (i, currentTerm cm', i) \<in> V' \<Longrightarrow> (i, currentTerm cm', w) \<in> V' \<Longrightarrow> w \<noteq> i \<Longrightarrow>
      (i, currentTerm cm') \<notin> E'"
    and ldr: "i \<in> ids \<Longrightarrow> cm_state cm' = Leader \<Longrightarrow> (i, currentTerm cm') \<in> E'"
    and elec: "i \<in> ids \<Longrightarrow> (i, currentTerm cm') \<in> E' \<Longrightarrow> cm_state cm' \<in> {Leader, Dead}"
  shows "safe ids (f(i := cm')) V' E'"
proof -
  have 1: "v \<in> ids \<and> c \<in> ids \<and> t \<le> currentTerm ((f(i := cm')) v)" if "(v, t, c) \<in> V'" for v t c
    using that safe_vote_bound [OF s, of v t c] newV [of v t c] up by (cases "(v, t, c) \<in> V") auto
  have oldV: "(v, t, c) \<in> V" if "(v, t, c) \<in> V'" "v \<noteq> i \<or> t \<noteq> currentTerm cm'" for v t c
    using that newV [of v t c] by blast
  have oldE: "(l, t) \<in> E" if "(l, t) \<in> E'" "l \<noteq> i \<or> t \<noteq> currentTerm cm'" for l t
    using that newE [of l t] by blast
  have inI: "i \<in> ids" if "(i, t, c) \<in> V'" for t c
    using that safe_vote_bound [OF s, of i t c] newV [of i t c] by blast
  have 5: "(v, t) \<notin> E'" if "(v, t, v) \<in> V'" "(v, t, w) \<in> V'" "w \<noteq> v" for v t w
  proof (cases "v = i \<and> t = currentTerm cm'")
    case True
    with that dbl inI show ?thesis by blast
  next
    case False
    with that oldV have "(v, t, v) \<in> V" "(v, t, w) \<in> V" by blast+
    with safe_double [OF s, of v t w] that(3) oldE False show ?thesis by blast
  qed
  have 6: "w = w'" if "(v, t, w) \<in> V'" "(v, t, w') \<in> V'" "w \<noteq> v" "w' \<noteq> v" for v t w w'
  proof (cases "v = i \<and> t = currentTerm cm'")
    case True
    with that cur inI show ?thesis by blast
  next
    case False
    with that oldV have "(v, t, w) \<in> V" "(v, t, w') \<in> V" by blast+
    with safe_other [OF s, of v t w w'] that(3,4) show ?thesis by blast
  qed
  have 7: "l \<in> ids \<and> t \<le> currentTerm ((f(i := cm')) l) \<and>
      (\<exists>Q \<subseteq> ids. card ids < 2 * card Q \<and> (\<forall>q \<in> Q. (q, t, l) \<in> V'))" if "(l, t) \<in> E'" for l t
  proof (cases "(l, t) \<in> E")
    case True
    then obtain Q where "l \<in> ids" "t \<le> currentTerm (f l)" "Q \<subseteq> ids" "card ids < 2 * card Q"
      "\<forall>q \<in> Q. (q, t, l) \<in> V"
      using safe_quorum [OF s] by blast
    with V up show ?thesis by (intro conjI exI [of _ Q]) auto
  next
    case False
    with that have "(l, t) \<in> E' - E" by blast
    from newE [OF this] have "l = i" "i \<in> ids" "t = currentTerm cm'"
      "\<exists>Q \<subseteq> ids. card ids < 2 * card Q \<and> (\<forall>q \<in> Q. (q, t, l) \<in> V')" by blast+
    then show ?thesis by (intro conjI) simp_all
  qed
  have 8: "l = l'" if "(l, t) \<in> E'" "(l', t) \<in> E'" for l l' t
    using that newE [of l t] newE [of l' t] safe_unique [OF s, of l t l'] by blast
  have 2: "(j, currentTerm ((f(i := cm')) j), votedFor ((f(i := cm')) j)) \<in> V'"
    if "j \<in> ids" "votedFor ((f(i := cm')) j) \<noteq> - 1" for j
    using that vf safe_votedFor [OF s, of j] V by (cases "j = i") auto
  have 3: "c = j \<or> c = votedFor ((f(i := cm')) j)"
    if "j \<in> ids" "(j, currentTerm ((f(i := cm')) j), c) \<in> V'" for j c
    using that cur [of c] safe_current [OF s, of j c] oldV [of j _ c] by (cases "j = i") auto
  have 4: "votedFor ((f(i := cm')) j) = j" if "j \<in> ids" "cm_state ((f(i := cm')) j) \<in> {Candidate, Leader}" for j
    using that self safe_self [OF s, of j] by (cases "j = i") auto
  have 9: "(j, currentTerm ((f(i := cm')) j)) \<in> E'" if "j \<in> ids" "cm_state ((f(i := cm')) j) = Leader" for j
    using that ldr safe_leader [OF s, of j] E by (cases "j = i") auto
  have 10: "cm_state ((f(i := cm')) j) \<in> {Leader, Dead}" if "j \<in> ids" "(j, currentTerm ((f(i := cm')) j)) \<in> E'" for j
    using that elec safe_elected [OF s, of j] oldE [of j] by (cases "j = i") auto
  show ?thesis
    unfolding safe_def
    by (intro conjI, use 1 in blast, use 2 in blast, use 3 in blast, use 4 in blast,
        use 5 in blast, use 6 in blast, use 7 in blast, use 8 in blast, use 9 in blast,
        use 10 in blast)
qed

text \<open>The changes the handlers make.\<close>

lemma safe_keep:
  assumes s: "safe ids f V E" and "currentTerm cm' = currentTerm (f i)" and "votedFor cm' = votedFor (f i)"
    and "cm_state cm' = cm_state (f i) \<or> cm_state cm' = Dead"
  shows "safe ids (f(i := cm')) V E"
  using assms safe_votedFor [OF s, of i] safe_current [OF s, of i] safe_self [OF s, of i]
    safe_double [OF s] safe_leader [OF s, of i] safe_elected [OF s, of i]
  by (intro safe_update [OF s]) auto

lemma safe_term_fresh:
  assumes "safe ids f V E" and "currentTerm (f i) < t"
  shows "(i, t, c) \<notin> V" and "(i, t) \<notin> E"
  using safe_vote_bound [OF assms(1), of i t c] safe_quorum [OF assms(1), of i t] assms(2) by auto

lemma safe_raise:
  assumes s: "safe ids f V E" and up: "currentTerm (f i) < currentTerm cm'"
    and "votedFor cm' = - 1" and "cm_state cm' = Follower"
  shows "safe ids (f(i := cm')) V E"
  using assms safe_term_fresh [OF s up] by (intro safe_update [OF s]) auto

lemma safe_reset:
  assumes s: "safe ids f V E" and i: "i \<in> ids" and "currentTerm cm' = currentTerm (f i)"
    and "votedFor cm' = - 1" and "cm_state cm' = Follower" and c: "cm_state (f i) \<in> {Candidate, Leader}"
    and "(i, currentTerm (f i)) \<notin> E"
  shows "safe ids (f(i := cm')) V E"
  using assms safe_self [OF s i c] safe_current [OF s i] by (intro safe_update [OF s]) auto

lemma safe_elect:
  assumes s: "safe ids f V E" and i: "i \<in> ids" and up: "currentTerm (f i) < currentTerm cm'"
    and "votedFor cm' = i" and "cm_state cm' = Candidate"
  shows "safe ids (f(i := cm')) (insert (i, currentTerm cm', i) V) E"
  using assms safe_term_fresh [OF s up] by (intro safe_update [OF s]) auto

lemma safe_vote:
  assumes s: "safe ids f V E" and i: "i \<in> ids" and c: "c \<in> ids" "c \<noteq> i" and "- 1 \<notin> ids"
    and "votedFor cm' = c"
    and step: "currentTerm (f i) < currentTerm cm' \<and> cm_state cm' = Follower \<or>
      currentTerm (f i) = currentTerm cm' \<and> cm_state cm' = cm_state (f i) \<and> cm_state (f i) \<noteq> Dead \<and>
      votedFor (f i) \<in> {- 1, c}"
  shows "safe ids (f(i := cm')) (insert (i, currentTerm cm', c) V) E"
  using step
proof (elim disjE conjE)
  assume up: "currentTerm (f i) < currentTerm cm'" and "cm_state cm' = Follower"
  then show ?thesis
    using assms safe_term_fresh [OF s up] by (intro safe_update [OF s]) auto
next
  assume same: "currentTerm (f i) = currentTerm cm'" "cm_state cm' = cm_state (f i)"
    "cm_state (f i) \<noteq> Dead" "votedFor (f i) \<in> {- 1, c}"
  have "i \<noteq> - 1" "c \<noteq> - 1" using i c assms(5) by auto
  then have notself: "votedFor (f i) \<noteq> i" using same(4) c(2) by auto
  then have st: "cm_state (f i) = Follower"
    using safe_self [OF s i] same(3) by (cases "cm_state (f i)") auto
  then have "(i, currentTerm cm') \<notin> E" using safe_elected [OF s i] same(1) by auto
  moreover have "w = i \<or> w = c" if "(i, currentTerm cm', w) \<in> V" for w
    using safe_current [OF s i, of w] safe_vote_bound [OF s that] that same assms(5) by auto
  ultimately show ?thesis
    using assms same st by (intro safe_update [OF s]) auto
qed

lemma quorums_intersect:
  assumes "finite ids" and "Q \<subseteq> ids" and "Q' \<subseteq> ids"
    and "card ids < 2 * card Q" and "card ids < 2 * card Q'"
  shows "\<exists>q. q \<in> Q \<and> q \<in> Q'"
proof (rule ccontr)
  assume "\<nexists>q. q \<in> Q \<and> q \<in> Q'"
  then have "card (Q \<union> Q') = card Q + card Q'"
    using assms by (intro card_Un_disjoint) (auto intro: finite_subset)
  moreover have "card (Q \<union> Q') \<le> card ids" using assms by (intro card_mono) auto
  ultimately show False using assms by linarith
qed

lemma safe_lead:
  assumes s: "safe ids f V E" and i: "i \<in> ids" and fin: "finite ids"
    and cm': "currentTerm cm' = currentTerm (f i)" "votedFor cm' = votedFor (f i)" "cm_state cm' = Leader"
    and cand: "cm_state (f i) = Candidate"
    and Q: "Q \<subseteq> ids" "card ids < 2 * card Q" "\<forall>q \<in> Q. (q, currentTerm (f i), i) \<in> V"
  shows "safe ids (f(i := cm')) V (insert (i, currentTerm cm') E)"
proof -
  let ?t = "currentTerm (f i)"
  have own: "w = i" if "(i, ?t, w) \<in> V" for w
    using safe_current [OF s i that] safe_self [OF s i] cand by auto
  have only: "l = i" if l: "(l, ?t) \<in> E" for l
  proof (rule ccontr)
    assume "l \<noteq> i"
    obtain Q' where "Q' \<subseteq> ids" "card ids < 2 * card Q'" "\<forall>q \<in> Q'. (q, ?t, l) \<in> V"
      using safe_quorum [OF s l] by blast
    with quorums_intersect [OF fin Q(1) _ Q(2)] Q(3)
    obtain q where q: "(q, ?t, i) \<in> V" "(q, ?t, l) \<in> V" by blast
    with own \<open>l \<noteq> i\<close> have "q \<noteq> i" by blast
    show False
    proof (cases "q = l")
      case True
      with q safe_double [OF s, of l ?t i] \<open>l \<noteq> i\<close> l show False by auto
    next
      case False
      with q \<open>q \<noteq> i\<close> safe_other [OF s, of q ?t i l] \<open>l \<noteq> i\<close> show False by auto
    qed
  qed
  show ?thesis
    using cm' i Q only own safe_votedFor [OF s i] safe_current [OF s i] safe_self [OF s i] cand
    by (intro safe_update [OF s]) auto
qed

subsection \<open>The invariant of the cluster\<close>

definition nodes_ok :: "int set \<Rightarrow> Net \<Rightarrow> bool" where
  "nodes_ok ids n \<longleftrightarrow> (\<forall>i \<in> ids. cm_id (cms n i) = i \<and> set (peerIds (cms n i)) = ids - {i} \<and>
     distinct (peerIds (cms n i)))"

text \<open>An election has counted votes that were really given to it, each voter once.\<close>

definition election_ok :: "int set \<Rightarrow> Net \<Rightarrow> nat \<Rightarrow> bool" where
  "election_ok ids n e \<longleftrightarrow> (case elections n ! e of (c, t, v) \<Rightarrow>
     c \<in> ids \<and> counted n e \<subseteq> ids \<and> v = int (card (counted n e)) \<and>
     (\<forall>q \<in> counted n e. (q, t, c) \<in> voted n) \<and>
     (\<forall>p. (e, p) \<in> voteReqs n \<longrightarrow> p \<in> ids \<and> p \<noteq> c \<and> p \<notin> counted n e \<and> (\<forall>r. (e, p, r) \<notin> voteReps n)) \<and>
     (\<forall>p r. (e, p, r) \<in> voteReps n \<longrightarrow> p \<in> ids \<and> p \<notin> counted n e \<and>
        (rvr_VoteGranted r \<longrightarrow> (p, t, c) \<in> voted n) \<and> (\<forall>r'. (e, p, r') \<in> voteReps n \<longrightarrow> r' = r)))"

definition calls_ok :: "int set \<Rightarrow> Net \<Rightarrow> bool" where
  "calls_ok ids n \<longleftrightarrow>
     (\<forall>e p. (e, p) \<in> voteReqs n \<longrightarrow> e < length (elections n)) \<and>
     (\<forall>e p r. (e, p, r) \<in> voteReps n \<longrightarrow> e < length (elections n)) \<and>
     (\<forall>l t p. (l, t, p) \<in> hbReqs n \<longrightarrow> (l, t) \<in> elected n \<and> p \<in> ids \<and> p \<noteq> l) \<and>
     (\<forall>l t p r. (l, t, p, r) \<in> hbReps n \<longrightarrow> l \<in> ids)"

definition raft_inv :: "int set \<Rightarrow> Net \<Rightarrow> bool" where
  "raft_inv ids n \<longleftrightarrow> nodes_ok ids n \<and> safe ids (cms n) (voted n) (elected n) \<and> calls_ok ids n \<and>
     (\<forall>e < length (elections n). election_ok ids n e)"

lemma nodes_ok_update:
  assumes "nodes_ok ids n" and "same_peer (cms n i) cm'" and "cms n' = (cms n)(i := cm')"
  shows "nodes_ok ids n'"
  using assms by (auto simp: nodes_ok_def)

lemma nodes_ok_majority:
  assumes "nodes_ok ids n" and "i \<in> ids" and "finite ids"
  shows "int (length (peerIds (cms n i))) + 1 = int (card ids)"
proof -
  have "length (peerIds (cms n i)) = card (ids - {i})"
    using assms distinct_card [of "peerIds (cms n i)"] by (auto simp: nodes_ok_def)
  then show ?thesis using card_Suc_Diff1 [OF assms(3,2)] by simp
qed

lemma raft_inv_start:
  assumes "raft_start ids n" and "2 \<le> card ids"
  shows "raft_inv ids n"
proof -
  have node: "\<exists>peers. peers \<noteq> [] \<and> set peers = ids - {i} \<and> distinct peers \<and> cms n i = NewConsensusModule i peers"
    if i: "i \<in> ids" for i
  proof -
    obtain peers where p: "set peers = ids - {i}" "distinct peers" "cms n i = NewConsensusModule i peers"
      using assms(1) i by (auto simp: raft_start_def)
    have "ids - {i} \<noteq> {}"
    proof
      assume "ids - {i} = {}"
      then have "card ids \<le> card {i}" by (intro card_mono) auto
      with assms(2) show False by simp
    qed
    then have "peers \<noteq> []" unfolding p(1) [symmetric] by (rule contrapos_nn) simp
    with p show ?thesis by (intro exI [of _ peers]) simp
  qed
  have fresh: "cm_id (cms n i) = i \<and> set (peerIds (cms n i)) = ids - {i} \<and> distinct (peerIds (cms n i)) \<and>
      votedFor (cms n i) = - 1 \<and> cm_state (cms n i) = Follower" if i: "i \<in> ids" for i
  proof -
    obtain peers where "peers \<noteq> []" "set peers = ids - {i}" "distinct peers"
      "cms n i = NewConsensusModule i peers"
      using node [OF i] by blast
    then show ?thesis by (simp add: NewConsensusModule_def)
  qed
  then have nodes: "nodes_ok ids n" by (simp add: nodes_ok_def)
  note fresh
  moreover have "voted n = {}" and "elected n = {}" using assms(1) by (simp_all add: raft_start_def)
  ultimately have "safe ids (cms n) (voted n) (elected n)" by (simp add: safe_def)
  with nodes show ?thesis
    using assms(1) by (simp add: raft_inv_def calls_ok_def raft_start_def)
qed

text \<open>A step that only adds votes and leaders, and touches no election, keeps the elections right.\<close>

lemma election_ok_mono:
  assumes "election_ok ids n e" and "elections n' ! e = elections n ! e" and "counted n' e = counted n e"
    and "voted n \<subseteq> voted n'"
    and "\<And>p. (e, p) \<in> voteReqs n' \<Longrightarrow> (e, p) \<in> voteReqs n"
    and "\<And>p r. (e, p, r) \<in> voteReps n' \<Longrightarrow> (e, p, r) \<in> voteReps n"
  shows "election_ok ids n' e"
proof -
  obtain c t v where e: "elections n ! e = (c, t, v)" by (cases "elections n ! e")
  from assms(1) have ok: "c \<in> ids" "counted n e \<subseteq> ids" "v = int (card (counted n e))"
    "\<forall>q \<in> counted n e. (q, t, c) \<in> voted n"
    "\<forall>p. (e, p) \<in> voteReqs n \<longrightarrow> p \<in> ids \<and> p \<noteq> c \<and> p \<notin> counted n e \<and> (\<forall>r. (e, p, r) \<notin> voteReps n)"
    "\<forall>p r. (e, p, r) \<in> voteReps n \<longrightarrow> p \<in> ids \<and> p \<notin> counted n e \<and>
        (rvr_VoteGranted r \<longrightarrow> (p, t, c) \<in> voted n) \<and> (\<forall>r'. (e, p, r') \<in> voteReps n \<longrightarrow> r' = r)"
    unfolding election_ok_def e prod.case by blast+
  show ?thesis
    unfolding election_ok_def e assms(2) prod.case assms(3)
    by (intro conjI, use ok(1) in blast, use ok(2) in blast, use ok(3) in blast,
        use ok(4) assms(4) in blast, use ok(5) assms(5,6) in blast, use ok(6) assms(4,6) in blast)
qed

lemma raft_invD:
  assumes "raft_inv ids n"
  shows "nodes_ok ids n" and "safe ids (cms n) (voted n) (elected n)" and "calls_ok ids n"
    and "e < length (elections n) \<Longrightarrow> election_ok ids n e"
  using assms by (simp_all add: raft_inv_def)

lemma calls_okD:
  assumes "calls_ok ids n"
  shows "(e, p) \<in> voteReqs n \<Longrightarrow> e < length (elections n)"
    and "(e, p, r) \<in> voteReps n \<Longrightarrow> e < length (elections n)"
    and "(l, t, p) \<in> hbReqs n \<Longrightarrow> (l, t) \<in> elected n \<and> p \<in> ids \<and> p \<noteq> l"
    and "(l, t, p, a) \<in> hbReps n \<Longrightarrow> l \<in> ids"
  using assms unfolding calls_ok_def by blast+

lemma election_okD:
  assumes "election_ok ids n e" and "elections n ! e = (c, t, v)"
  shows "c \<in> ids" and "counted n e \<subseteq> ids" and "v = int (card (counted n e))"
    and "q \<in> counted n e \<Longrightarrow> (q, t, c) \<in> voted n"
    and "(e, p) \<in> voteReqs n \<Longrightarrow> p \<in> ids \<and> p \<noteq> c \<and> p \<notin> counted n e \<and> (e, p, r) \<notin> voteReps n"
    and "(e, p, r) \<in> voteReps n \<Longrightarrow> p \<in> ids \<and> p \<notin> counted n e \<and> (rvr_VoteGranted r \<longrightarrow> (p, t, c) \<in> voted n)"
    and "(e, p, r) \<in> voteReps n \<Longrightarrow> (e, p, r') \<in> voteReps n \<Longrightarrow> r' = r"
  using assms(1) unfolding election_ok_def assms(2) prod.case by blast+

text \<open>Steps that concern no election.\<close>

lemma raft_inv_node:
  assumes inv: "raft_inv ids n" and peer: "same_peer (cms n i) cm'"
    and safe: "safe ids ((cms n)(i := cm')) (voted n) (elected n)"
    and reqs: "\<And>l t p. (l, t, p) \<in> R \<Longrightarrow> (l, t) \<in> elected n \<and> p \<in> ids \<and> p \<noteq> l"
    and reps: "\<And>l t p r. (l, t, p, r) \<in> A \<Longrightarrow> l \<in> ids"
  shows "raft_inv ids (n\<lparr>cms := (cms n)(i := cm'), hbReqs := R, hbReps := A\<rparr>)" (is "raft_inv ids ?n")
proof -
  have "nodes_ok ids ?n" using nodes_ok_update [OF raft_invD(1) [OF inv] peer] by simp
  moreover have "calls_ok ids ?n"
    using calls_okD [OF raft_invD(3) [OF inv]] reqs reps unfolding calls_ok_def by simp
  moreover have "election_ok ids ?n e" if "e < length (elections n)" for e
    using raft_invD(4) [OF inv that] by (rule election_ok_mono) simp_all
  ultimately show ?thesis using safe by (simp add: raft_inv_def)
qed

lemma raft_inv_heartbeats_sent:
  assumes inv: "raft_inv ids n" and i: "i \<in> ids"
  shows "raft_inv ids (n\<lparr>hbReqs := hbReqs n \<union>
       {(ae_LeaderID a, ae_Term a, p) |p a. (p, a) \<in> set (leaderSendHeartbeats (cms n i))}\<rparr>)"
proof -
  let ?new = "{(ae_LeaderID a, ae_Term a, p) |p a. (p, a) \<in> set (leaderSendHeartbeats (cms n i))}"
  have new: "(l, t) \<in> elected n \<and> p \<in> ids \<and> p \<noteq> l" if "(l, t, p) \<in> ?new" for l t p
  proof -
    have "cm_id (cms n i) = i" "set (peerIds (cms n i)) = ids - {i}"
      using raft_invD(1) [OF inv] i by (auto simp: nodes_ok_def)
    moreover have "cm_state (cms n i) = Leader" "l = cm_id (cms n i)" "t = currentTerm (cms n i)"
      "p \<in> set (peerIds (cms n i))"
      using that by (auto simp: leaderSendHeartbeats_def split: if_splits)
    ultimately show ?thesis using safe_leader [OF raft_invD(2) [OF inv] i] by auto
  qed
  have "raft_inv ids (n\<lparr>cms := (cms n)(i := cms n i), hbReqs := hbReqs n \<union> ?new, hbReps := hbReps n\<rparr>)"
    by (rule raft_inv_node [OF inv], simp, simp add: raft_invD(2) [OF inv],
        use calls_okD(3) [OF raft_invD(3) [OF inv]] new in blast,
        rule calls_okD(4) [OF raft_invD(3) [OF inv]])
  then show ?thesis by simp
qed

lemma raft_inv_heartbeat_received:
  assumes inv: "raft_inv ids n" and req: "(l, t, p) \<in> hbReqs n"
    and ae: "CM_AppendEntries now \<lparr>ae_Term = t, ae_LeaderID = l\<rparr> (cms n p) = (reply, cm')"
  shows "raft_inv ids (n\<lparr>cms := (cms n)(p := cm'),
       hbReps := (case reply of None \<Rightarrow> hbReps n | Some r \<Rightarrow> insert (l, t, p, r) (hbReps n))\<rparr>)"
proof -
  note s = raft_invD(2) [OF inv] and calls = calls_okD [OF raft_invD(3) [OF inv]]
  have lp: "(l, t) \<in> elected n" "p \<in> ids" "p \<noteq> l" using calls(3) [OF req] by auto
  have l: "l \<in> ids" using safe_quorum [OF s lp(1)] by simp
  note effect = AppendEntries_effect [OF ae]
  have sf: "safe ids ((cms n)(p := cm')) (voted n) (elected n)"
    using effect
  proof (elim conjE disjE)
    assume "currentTerm (cms n p) = t" "currentTerm cm' = t" "votedFor cm' = - 1" "cm_state cm' = Follower"
      "cm_state (cms n p) \<in> {Candidate, Leader}"
    moreover have "(p, t) \<notin> elected n" using safe_unique [OF s lp(1)] lp(3) by blast
    ultimately show ?thesis by (intro safe_reset [OF s lp(2)]) simp_all
  qed (auto intro: safe_keep [OF s] safe_raise [OF s])
  have "raft_inv ids (n\<lparr>cms := (cms n)(p := cm'), hbReqs := hbReqs n,
       hbReps := (case reply of None \<Rightarrow> hbReps n | Some r \<Rightarrow> insert (l, t, p, r) (hbReps n))\<rparr>)"
    by (rule raft_inv_node [OF inv _ sf calls(3)], use effect in blast)
      (use calls(4) l in \<open>auto split: option.splits\<close>)
  then show ?thesis by simp
qed

lemma raft_inv_heartbeat_replied:
  assumes inv: "raft_inv ids n" and "(l, t, p, r) \<in> hbReps n" and "currentTerm (cms n l) = t"
  shows "raft_inv ids (n\<lparr>cms := (cms n)(l := heartbeatReplyHandler now t r (cms n l)),
       hbReps := hbReps n - {(l, t, p, r)}\<rparr>)"
proof -
  note s = raft_invD(2) [OF inv] and calls = calls_okD [OF raft_invD(3) [OF inv]]
  have sf: "safe ids ((cms n)(l := heartbeatReplyHandler now t r (cms n l))) (voted n) (elected n)"
    using assms(3) s by (auto simp: heartbeatReplyHandler_def intro: safe_raise [OF s])
  have "raft_inv ids (n\<lparr>cms := (cms n)(l := heartbeatReplyHandler now t r (cms n l)),
      hbReqs := hbReqs n, hbReps := hbReps n - {(l, t, p, r)}\<rparr>)"
    by (rule raft_inv_node [OF inv _ sf calls(3)])
      (use calls(4) in \<open>auto simp: heartbeatReplyHandler_def\<close>)
  then show ?thesis by simp
qed

lemma raft_inv_stopped:
  assumes inv: "raft_inv ids n"
  shows "raft_inv ids (n\<lparr>cms := (cms n)(i := CM_Stop (cms n i))\<rparr>)"
proof -
  note s = raft_invD(2) [OF inv] and calls = calls_okD [OF raft_invD(3) [OF inv]]
  have "raft_inv ids (n\<lparr>cms := (cms n)(i := CM_Stop (cms n i)), hbReqs := hbReqs n, hbReps := hbReps n\<rparr>)"
    by (rule raft_inv_node [OF inv _ safe_keep [OF s] calls(3)])
      (use calls(4) in \<open>auto simp: CM_Stop_def\<close>)
  then show ?thesis by simp
qed

text \<open>Steps of an election.\<close>

lemma election_okI:
  assumes "elections n ! e = (c, t, v)" and "c \<in> ids" and "counted n e \<subseteq> ids"
    and "v = int (card (counted n e))" and "\<And>q. q \<in> counted n e \<Longrightarrow> (q, t, c) \<in> voted n"
    and "\<And>p. (e, p) \<in> voteReqs n \<Longrightarrow> p \<in> ids \<and> p \<noteq> c \<and> p \<notin> counted n e \<and> (\<forall>r. (e, p, r) \<notin> voteReps n)"
    and "\<And>p r. (e, p, r) \<in> voteReps n \<Longrightarrow> p \<in> ids \<and> p \<notin> counted n e \<and> (rvr_VoteGranted r \<longrightarrow> (p, t, c) \<in> voted n)"
    and "\<And>p r r'. (e, p, r) \<in> voteReps n \<Longrightarrow> (e, p, r') \<in> voteReps n \<Longrightarrow> r' = r"
  shows "election_ok ids n e"
  unfolding election_ok_def assms(1) prod.case
  by (intro conjI, rule assms(2), rule assms(3), rule assms(4), use assms(5) in blast,
      use assms(6) in blast, use assms(7,8) in blast)

lemma raft_inv_timer_fires:
  assumes inv: "raft_inv ids n" and i: "i \<in> ids" and cm': "cm' = startElection now (cms n i)"
  shows "raft_inv ids (n\<lparr>cms := (cms n)(i := cm'),
       elections := elections n @ [(i, currentTerm cm', 1)],
       voteReqs := voteReqs n \<union> {(length (elections n), p) |p. p \<in> set (peerIds (cms n i))},
       voted := insert (i, currentTerm cm', i) (voted n),
       counted := (counted n)(length (elections n) := {i})\<rparr>)" (is "raft_inv ids ?n")
proof -
  note s = raft_invD(2) [OF inv] and calls = calls_okD [OF raft_invD(3) [OF inv]]
  have peer: "cm_id (cms n i) = i" "set (peerIds (cms n i)) = ids - {i}"
    using raft_invD(1) [OF inv] i by (auto simp: nodes_ok_def)
  have "nodes_ok ids ?n"
    by (rule nodes_ok_update [OF raft_invD(1) [OF inv], where i = i and cm' = cm']) (simp_all add: cm' startElection_def)
  moreover have "safe ids (cms ?n) (voted ?n) (elected ?n)"
    using safe_elect [OF s i, of cm'] peer by (simp add: cm' startElection_def)
  moreover have "calls_ok ids ?n"
    unfolding calls_ok_def using calls by (auto intro: less_SucI)
  moreover have "election_ok ids ?n e" if e: "e < length (elections ?n)" for e
  proof (cases "e < length (elections n)")
    case True
    show ?thesis
      by (rule election_ok_mono [OF raft_invD(4) [OF inv True]]) (use True in \<open>auto simp: nth_append\<close>)
  next
    case False
    with e have e: "e = length (elections n)" by simp
    have none: "(e, p) \<notin> voteReqs n" "(e, p, r) \<notin> voteReps n" for p r
      using calls(1) [of e p] calls(2) [of e p r] e by auto
    show ?thesis
      by (rule election_okI [of _ e i "currentTerm cm'" 1]) (use none i peer e in auto)
  qed
  ultimately show ?thesis unfolding raft_inv_def by blast
qed

lemma raft_inv_vote_requested:
  assumes inv: "raft_inv ids n" and ids: "- 1 \<notin> ids" and req: "(e, p) \<in> voteReqs n"
    and e: "elections n ! e = (c, t, v)"
    and rv: "CM_RequestVote now \<lparr>rv_Term = t, rv_CandidateID = c\<rparr> (cms n p) = (reply, cm')"
  shows "raft_inv ids (n\<lparr>cms := (cms n)(p := cm'), voteReqs := voteReqs n - {(e, p)},
       voteReps := (case reply of None \<Rightarrow> voteReps n | Some r \<Rightarrow> insert (e, p, r) (voteReps n)),
       voted := (case reply of None \<Rightarrow> voted n
                 | Some r \<Rightarrow> if rvr_VoteGranted r then insert (p, t, c) (voted n) else voted n)\<rparr>)"
    (is "raft_inv ids ?n")
proof -
  note s = raft_invD(2) [OF inv] and calls = calls_okD [OF raft_invD(3) [OF inv]]
  have el: "e < length (elections n)" using calls(1) [OF req] .
  note eok = election_okD [OF raft_invD(4) [OF inv el] e]
  have p: "p \<in> ids" "p \<noteq> c" "p \<notin> counted n e" "\<And>r. (e, p, r) \<notin> voteReps n" using eok(5) [OF req] by auto
  note effect = RequestVote_effect [OF rv]
  have "nodes_ok ids ?n"
    by (rule nodes_ok_update [OF raft_invD(1) [OF inv], where i = p and cm' = cm']) (use effect in auto)
  moreover have "safe ids (cms ?n) (voted ?n) (elected ?n)"
    using effect
  proof (elim disjE conjE)
    assume "cm' = cms n p" "\<forall>r. reply = Some r \<longrightarrow> \<not> rvr_VoteGranted r"
    with s show ?thesis by (auto split: option.splits)
  qed (use safe_vote [OF s p(1) eok(1) p(2) [symmetric] ids, of cm'] in simp)+
  moreover have sub: "voted n \<subseteq> voted ?n" by (auto split: option.splits)
  moreover have "calls_ok ids ?n"
    unfolding calls_ok_def using calls el by (auto split: option.splits)
  moreover have "election_ok ids ?n e'" if e': "e' < length (elections ?n)" for e'
  proof (cases "e' = e")
    case False
    show ?thesis
      by (rule election_ok_mono [OF raft_invD(4) [OF inv]]) (use e' False sub in \<open>auto split: option.splits if_splits\<close>)
  next
    case True
    show ?thesis unfolding True
      by (rule election_okI [of _ e c t v])
        (use e eok p sub in \<open>auto split: option.splits if_splits\<close>)
  qed
  ultimately show ?thesis unfolding raft_inv_def by blast
qed

lemma voteReplyHandler_effect:
  assumes "voteReplyHandler now saved votes reply cm = (votes', cm')"
  shows "(votes' = votes \<and> (cm' = cm \<or> saved < rvr_Term reply \<and> cm' = becomeFollower now (rvr_Term reply) cm)) \<or>
    (votes' = votes + 1 \<and> rvr_VoteGranted reply \<and> cm_state cm = Candidate \<and>
     (cm' = cm \<or> cm' = startLeader cm \<and> int (length (peerIds cm)) + 1 < votes' * 2))"
  using assms by (auto simp: voteReplyHandler_def split: if_splits)

lemma raft_inv_vote_replied:
  assumes inv: "raft_inv ids n" and fin: "finite ids" and rep: "(e, p, r) \<in> voteReps n"
    and e: "elections n ! e = (c, t, v)" and timely: "currentTerm (cms n c) = t"
    and handler: "voteReplyHandler now t v r (cms n c) = (v', cm')"
  shows "raft_inv ids (n\<lparr>cms := (cms n)(c := cm'), elections := (elections n)[e := (c, t, v')],
       voteReps := voteReps n - {(e, p, r)},
       elected := (if cm_state (cms n c) \<noteq> Leader \<and> cm_state cm' = Leader
                   then insert (c, currentTerm cm') (elected n) else elected n),
       counted := (if v' \<noteq> v then (counted n)(e := insert p (counted n e)) else counted n)\<rparr>)"
    (is "raft_inv ids ?n")
proof -
  note s = raft_invD(2) [OF inv] and calls = calls_okD [OF raft_invD(3) [OF inv]]
  have el: "e < length (elections n)" using calls(2) [OF rep] .
  note eok = election_okD [OF raft_invD(4) [OF inv el] e]
  note effect = voteReplyHandler_effect [OF handler]
  have p: "p \<in> ids" "p \<notin> counted n e" "rvr_VoteGranted r \<Longrightarrow> (p, t, c) \<in> voted n"
    using eok(6) [OF rep] by auto
  have fin': "finite (counted n e)" using fin eok(2) by (rule rev_finite_subset)
  have "nodes_ok ids ?n"
    by (rule nodes_ok_update [OF raft_invD(1) [OF inv], where i = c and cm' = cm']) (use effect in auto)
  moreover have "safe ids (cms ?n) (voted ?n) (elected ?n)"
    using effect
  proof (elim disjE conjE)
    assume lead: "v' = v + 1" "rvr_VoteGranted r" "cm_state (cms n c) = Candidate"
      "cm' = startLeader (cms n c)" "int (length (peerIds (cms n c))) + 1 < v' * 2"
    let ?Q = "insert p (counted n e)"
    have "card ids < 2 * card ?Q"
      using lead(1,5) nodes_ok_majority [OF raft_invD(1) [OF inv] eok(1) fin] eok(3) p(2) fin' by simp
    moreover have "\<forall>q \<in> ?Q. (q, currentTerm (cms n c), c) \<in> voted n" using eok(4) p(3) lead(2) timely by auto
    moreover have "?Q \<subseteq> ids" using eok(2) p(1) by simp
    ultimately show ?thesis
      using safe_lead [OF s eok(1) fin, of cm' ?Q] lead(3,4) by simp
  next
    assume "t < rvr_Term r" "cm' = becomeFollower now (rvr_Term r) (cms n c)"
    with timely show ?thesis using safe_raise [OF s, of c cm'] by simp
  qed (use s in simp_all)
  moreover have "calls_ok ids ?n"
    unfolding calls_ok_def using calls by auto
  moreover have "election_ok ids ?n e'" if e': "e' < length (elections ?n)" for e'
  proof (cases "e' = e")
    case False
    show ?thesis
      by (rule election_ok_mono [OF raft_invD(4) [OF inv]]) (use e' False in \<open>auto split: if_splits\<close>)
  next
    case True
    show ?thesis unfolding True
    proof (rule election_okI [of _ e c t v'])
      show "elections ?n ! e = (c, t, v')" using el by simp
      show "v' = int (card (counted ?n e))" using effect eok(3) p(2) fin' by auto
    qed (use eok p rep effect in \<open>auto split: if_splits\<close>)
  qed
  ultimately show ?thesis unfolding raft_inv_def by blast
qed

lemma raft_inv_step:
  assumes "raft_step ids True n n'" and "raft_inv ids n" and "finite ids" and "- 1 \<notin> ids"
  shows "raft_inv ids n'"
  using assms(1)
proof cases
  case (timer_fires i cm' now)
  then show ?thesis using raft_inv_timer_fires [OF assms(2)] by blast
next
  case (vote_requested e p c t v now reply cm')
  then show ?thesis using raft_inv_vote_requested [OF assms(2,4)] by blast
next
  case (vote_replied e p r c t v now v' cm')
  then have "currentTerm (cms n c) = t" by simp
  from raft_inv_vote_replied [OF assms(2,3) vote_replied(2,3) this vote_replied(5)] vote_replied(1)
  show ?thesis by simp
next
  case (heartbeats_sent i)
  then show ?thesis using raft_inv_heartbeats_sent [OF assms(2)] by blast
next
  case (heartbeat_received l t p now reply cm')
  then show ?thesis using raft_inv_heartbeat_received [OF assms(2)] by blast
next
  case (heartbeat_replied l t p r now)
  then show ?thesis using raft_inv_heartbeat_replied [OF assms(2)] by blast
next
  case (stopped i)
  then show ?thesis using raft_inv_stopped [OF assms(2)] by blast
qed

lemma raft_inv_reachable:
  assumes "raft_reachable ids True n" and "finite ids" and "2 \<le> card ids" and "- 1 \<notin> ids"
  shows "raft_inv ids n"
  using assms(1)
proof induction
  case (start n)
  then show ?case using assms(3) by (rule raft_inv_start)
next
  case (step n n')
  then show ?case using raft_inv_step assms(2,4) by blast
qed

text \<open>
  C5. Election safety. In a cluster of at least two control planes that handle no reply to a call
  of an earlier term, no two of them are ever leader of the same term, however timers, votes,
  heartbeats and stops interleave and whichever calls get lost.
\<close>

theorem election_safety:
  assumes "raft_reachable ids True n" and "finite ids" and "2 \<le> card ids" and "- 1 \<notin> ids"
    and "i \<in> ids" and "j \<in> ids" and "CM_IsLeader (cms n i)" and "CM_IsLeader (cms n j)"
    and "currentTerm (cms n i) = currentTerm (cms n j)"
  shows "i = j"
proof -
  have s: "safe ids (cms n) (voted n) (elected n)"
    using raft_inv_reachable [OF assms(1-4)] by (rule raft_invD)
  show ?thesis
    using safe_leader [OF s] safe_unique [OF s] assms(5-9) unfolding CM_IsLeader_def by metis
qed

subsection \<open>Concrete runs\<close>

text \<open>The steps as functions, all clocks at 0.\<close>

definition do_timer :: "int \<Rightarrow> Net \<Rightarrow> Net" where
  "do_timer i n = (let cm' = startElection 0 (cms n i) in n\<lparr>cms := (cms n)(i := cm'),
     elections := elections n @ [(i, currentTerm cm', 1)],
     voteReqs := voteReqs n \<union> {(length (elections n), p) |p. p \<in> set (peerIds (cms n i))},
     voted := insert (i, currentTerm cm', i) (voted n),
     counted := (counted n)(length (elections n) := {i})\<rparr>)"

definition do_request :: "nat \<Rightarrow> int \<Rightarrow> Net \<Rightarrow> Net" where
  "do_request e p n = (case elections n ! e of (c, t, v) \<Rightarrow>
     (case CM_RequestVote 0 \<lparr>rv_Term = t, rv_CandidateID = c\<rparr> (cms n p) of (reply, cm') \<Rightarrow>
       n\<lparr>cms := (cms n)(p := cm'), voteReqs := voteReqs n - {(e, p)},
       voteReps := (case reply of None \<Rightarrow> voteReps n | Some r \<Rightarrow> insert (e, p, r) (voteReps n)),
       voted := (case reply of None \<Rightarrow> voted n
                 | Some r \<Rightarrow> if rvr_VoteGranted r then insert (p, t, c) (voted n) else voted n)\<rparr>))"

definition do_reply :: "nat \<Rightarrow> int \<Rightarrow> RequestVoteReply \<Rightarrow> Net \<Rightarrow> Net" where
  "do_reply e p r n = (case elections n ! e of (c, t, v) \<Rightarrow>
     (case voteReplyHandler 0 t v r (cms n c) of (v', cm') \<Rightarrow>
       n\<lparr>cms := (cms n)(c := cm'), elections := (elections n)[e := (c, t, v')],
       voteReps := voteReps n - {(e, p, r)},
       elected := (if cm_state (cms n c) \<noteq> Leader \<and> cm_state cm' = Leader
                   then insert (c, currentTerm cm') (elected n) else elected n),
       counted := (if v' \<noteq> v then (counted n)(e := insert p (counted n e)) else counted n)\<rparr>))"

lemma reach_timer:
  "raft_reachable ids timely n \<Longrightarrow> i \<in> ids \<Longrightarrow> cm_state (cms n i) \<in> {Follower, Candidate} \<Longrightarrow>
   raft_reachable ids timely (do_timer i n)"
  unfolding do_timer_def Let_def by (erule raft_reachable.step, rule raft_step.timer_fires) simp_all

lemma reach_request:
  "raft_reachable ids timely n \<Longrightarrow> (e, p) \<in> voteReqs n \<Longrightarrow>
   raft_reachable ids timely (do_request e p n)"
  unfolding do_request_def
  by (cases "elections n ! e"; cases "CM_RequestVote 0 \<lparr>rv_Term = fst (snd (elections n ! e)),
        rv_CandidateID = fst (elections n ! e)\<rparr> (cms n p)")
    (simp, erule raft_reachable.step, rule raft_step.vote_requested, simp_all)

lemma reach_reply:
  "raft_reachable ids timely n \<Longrightarrow> (e, p, r) \<in> voteReps n \<Longrightarrow>
   (timely \<longrightarrow> currentTerm (cms n (fst (elections n ! e))) = fst (snd (elections n ! e))) \<Longrightarrow>
   raft_reachable ids timely (do_reply e p r n)"
  unfolding do_reply_def
  by (cases "elections n ! e"; cases "voteReplyHandler 0 (fst (snd (elections n ! e)))
        (snd (snd (elections n ! e))) r (cms n (fst (elections n ! e)))")
    (simp only: prod.case fst_conv snd_conv, erule raft_reachable.step, rule raft_step.vote_replied, simp_all)

definition three_nodes :: Net where
  "three_nodes = \<lparr>cms = (\<lambda>i. NewConsensusModule i (filter (\<lambda>j. j \<noteq> i) [1, 2, 3])), elections = [],
     voteReqs = {}, voteReps = {}, hbReqs = {}, hbReps = {}, voted = {}, elected = {}, counted = (\<lambda>_. {})\<rparr>"

lemma three_nodes_start: "raft_reachable {1, 2, 3} timely three_nodes"
proof (rule raft_reachable.start)
  have "\<exists>peers. set peers = {1, 2, 3} - {i} \<and> distinct peers \<and>
      cms three_nodes i = NewConsensusModule i peers" for i
    by (rule exI [of _ "filter (\<lambda>j. j \<noteq> i) [1, 2, 3]"]) (auto simp: three_nodes_def)
  then show "raft_start {1, 2, 3} three_nodes"
    unfolding raft_start_def by (simp add: three_nodes_def)
qed

lemmas run_eval = three_nodes_def do_timer_def do_request_def do_reply_def NewConsensusModule_def
  startElection_def CM_RequestVote_def voteReplyHandler_def becomeFollower_def startLeader_def
  announce_def Let_def


definition vote_for :: "int \<Rightarrow> RequestVoteReply" where
  "vote_for t = \<lparr>rvr_Term = t, rvr_VoteGranted = True\<rparr>"

theorem election_safety_witness:
  "\<exists>n. raft_reachable {1, 2, 3} True n \<and> CM_IsLeader (cms n 1) \<and>
     (\<forall>j \<in> {1, 2, 3}. CM_IsLeader (cms n j) \<longrightarrow> currentTerm (cms n 1) = currentTerm (cms n j) \<longrightarrow> 1 = j)"
proof -
  define n where "n = do_reply 0 2 (vote_for 1) (do_request 0 2 (do_timer 1 three_nodes))"
  have r: "raft_reachable {1, 2, 3} True n"
    unfolding n_def
    by (rule reach_reply, rule reach_request, rule reach_timer, rule three_nodes_start)
      (simp_all add: run_eval vote_for_def)
  have l: "CM_IsLeader (cms n 1)" by (simp add: n_def run_eval vote_for_def CM_IsLeader_def)
  have ids: "finite {1, 2, 3 :: int}" "2 \<le> card {1, 2, 3 :: int}" "- 1 \<notin> {1, 2, 3 :: int}" by simp_all
  have "1 = j" if "j \<in> {1, 2, 3}" "CM_IsLeader (cms n j)" "currentTerm (cms n 1) = currentTerm (cms n j)" for j
    using election_safety [OF r ids _ that(1) l that(2,3)] by simp
  with r l show ?thesis by blast
qed

text \<open>
  C24. Without that restriction election safety fails: a granted vote that reaches its candidate
  after the candidate has moved on to the next term is counted by the old election and makes the
  candidate leader of the new term, in which another control plane is leader already.
\<close>

theorem stale_vote_elects_second_leader:
  "\<exists>n. raft_reachable {1, 2, 3} False n \<and> CM_IsLeader (cms n 1) \<and> CM_IsLeader (cms n 2) \<and>
     currentTerm (cms n 1) = 2 \<and> currentTerm (cms n 2) = 2"
proof -
  define n2 where "n2 = do_request 0 2 (do_timer 1 three_nodes)"
  define n4 where "n4 = do_timer 2 (do_timer 1 n2)"
  define n6 where "n6 = do_reply 2 3 (vote_for 2) (do_request 2 3 n4)"
  have "raft_reachable {1, 2, 3} False n2" unfolding n2_def
    by (rule reach_request, rule reach_timer, rule three_nodes_start) (simp_all add: run_eval)
  then have "raft_reachable {1, 2, 3} False n4" unfolding n4_def
    by (intro reach_timer) (simp_all add: n2_def run_eval)
  then have "raft_reachable {1, 2, 3} False n6" unfolding n6_def
    by (intro reach_reply reach_request) (simp_all add: n4_def n2_def run_eval vote_for_def)
  moreover have "(0, 2, vote_for 1) \<in> voteReps n6"
    by (simp add: n6_def n4_def n2_def run_eval vote_for_def)
  ultimately have "raft_reachable {1, 2, 3} False (do_reply 0 2 (vote_for 1) n6)"
    by (intro reach_reply) simp_all
  then show ?thesis
    by (intro exI [of _ "do_reply 0 2 (vote_for 1) n6"])
      (simp add: n6_def n4_def n2_def run_eval vote_for_def CM_IsLeader_def)
qed

end
