(* ===== verification/Autoscaling.thy ===== *)
theory Autoscaling
  imports Proto_Types
begin

text \<open>
  \<^verbatim>\<open>internal/control_plane/autoscaling/autoscaling.go\<close>: the Knative-style autoscaler of one
  function. The metric ring buffer, the panic-mode state machine and the per-data-plane in-flight
  counts are the state; \<^verbatim>\<open>time.Now()\<close> is the argument \<open>now\<close>, in nanoseconds since the zero time.
  \<^verbatim>\<open>float64\<close> values are reals: the metrics are 32-bit integers and their sums are exact in
  \<^verbatim>\<open>float64\<close>, only the quotients round in Go. A zero divisor, where Go goes on with an infinity
  or a NaN, is outside the model and reported as such. \<^verbatim>\<open>mathutil.Clamp\<close> is a third-party
  function and a parameter.
\<close>

section \<open>Definitions\<close>

text \<open>\<^verbatim>\<open>AveragingMethod\<close>\<close>

abbreviation (input) Arithmetic :: int where "Arithmetic \<equiv> 0"
abbreviation (input) Exponential :: int where "Exponential \<equiv> 1"

record AutoscalingMetadata =
  ActualScale :: int
  AutoscalingConfig :: AutoscalingConfiguration
  InPanicMode :: bool
  StartPanickingTimestamp :: int
  MaxPanicPods :: int
  inflightRequestsPerDataPlane :: "(string, int32) gomap"
  cachedScalingMetric :: int32
  scalingMetrics :: "real list"
  windowHead :: int

definition NewDefaultAutoscalingMetadata :: "bool \<Rightarrow> AutoscalingConfiguration" where
  "NewDefaultAutoscalingMetadata coldStartSweep =
     (if coldStartSweep then
        \<lparr>ScalingUpperBound = 1, ScalingLowerBound = 0, PanicThresholdPercentage = 200,
         MaxScaleUpRate = 1000, MaxScaleDownRate = 2, ContainerConcurrency = 1,
         ContainerConcurrencyTargetPercentage = 100, StableWindowWidthSeconds = 6,
         PanicWindowWidthSeconds = 2, ScalingPeriodSeconds = 2, ScalingMethod = Arithmetic\<rparr>
      else
        \<lparr>ScalingUpperBound = 2147483647, ScalingLowerBound = 0, PanicThresholdPercentage = 200,
         MaxScaleUpRate = 1000, MaxScaleDownRate = 2, ContainerConcurrency = 1,
         ContainerConcurrencyTargetPercentage = 100, StableWindowWidthSeconds = 60,
         PanicWindowWidthSeconds = 6, ScalingPeriodSeconds = 2, ScalingMethod = Arithmetic\<rparr>)"

definition RemoveDataplane :: "string \<Rightarrow> AutoscalingMetadata \<Rightarrow> AutoscalingMetadata" where
  "RemoveDataplane dataplaneName s =
     s\<lparr>cachedScalingMetric :=
         cachedScalingMetric s + (- gm_get 0 (inflightRequestsPerDataPlane s) dataplaneName),
       inflightRequestsPerDataPlane := gm_del dataplaneName (inflightRequestsPerDataPlane s)\<rparr>"

definition SetCachedScalingMetric :: "AutoscalingMetric \<Rightarrow> AutoscalingMetadata \<Rightarrow> AutoscalingMetadata" where
  "SetCachedScalingMetric metrics s =
     s\<lparr>cachedScalingMetric :=
         cachedScalingMetric s +
           (am_InflightRequests metrics -
            gm_get 0 (inflightRequestsPerDataPlane s) (am_DataplaneName metrics)),
       inflightRequestsPerDataPlane :=
         gm_set (am_DataplaneName metrics) (am_InflightRequests metrics)
           (inflightRequestsPerDataPlane s)\<rparr>"

text \<open>
  The summation loop of \<^verbatim>\<open>windowAverage\<close>: \<open>n\<close> iterations are left, \<open>len\<close> is \<^verbatim>\<open>windowLength\<close>, \<open>i\<close> is
  \<^verbatim>\<open>currentWindowIndex\<close>, \<open>mult\<close> the exponential weight with smoothing coefficient \<open>coeff\<close>.
  \<^term>\<open>None\<close> is Go's index-out-of-range panic.
\<close>

fun windowSum :: "real list \<Rightarrow> bool \<Rightarrow> real \<Rightarrow> int \<Rightarrow> nat \<Rightarrow> int \<Rightarrow> real \<Rightarrow> real \<Rightarrow> real option" where
  "windowSum ms expo coeff len 0 i mult acc = Some acc"
| "windowSum ms expo coeff len (Suc n) i mult acc =
     (if i < 0 \<or> i \<ge> int (length ms) then None
      else let value = (if expo then ms ! nat i * mult else ms ! nat i);
               mult' = (if expo then (1 - coeff) * mult else mult);
               i' = i - 1
           in windowSum ms expo coeff len n (if i' < 0 then len - 1 else i') mult' (acc + value))"

definition panicBucketCount :: "AutoscalingConfiguration \<Rightarrow> int" where
  "panicBucketCount c = PanicWindowWidthSeconds c sdiv ScalingPeriodSeconds c"

definition stableBucketCount :: "AutoscalingConfiguration \<Rightarrow> int" where
  "stableBucketCount c = StableWindowWidthSeconds c sdiv ScalingPeriodSeconds c"

definition windowAverage :: "real \<Rightarrow> (AutoscalingMetadata, real \<times> real) go" where
  "windowAverage observed s =
     (let c = AutoscalingConfig s;
          stable = stableBucketCount c;
          expo = (ScalingMethod c = Exponential)
      in
      if ScalingPeriodSeconds c = 0 then Panic ''integer divide by zero'' s
      else if \<not> int (length (scalingMetrics s)) < stable \<and>
              \<not> (0 \<le> windowHead s \<and> windowHead s < int (length (scalingMetrics s)))
      then Panic ''index out of range'' s
      else
        let ms = (if int (length (scalingMetrics s)) < stable then scalingMetrics s @ [observed]
                  else (scalingMetrics s)[nat (windowHead s) := observed]);
            s1 = s\<lparr>scalingMetrics := ms\<rparr>;
            wl = min stable (int (length ms));
            wp = min (panicBucketCount c) (int (length ms));
            head' = windowHead s + 1
        in
        case windowSum ms expo 0 wl (nat wl) (windowHead s) 0 0 of
          None \<Rightarrow> Panic ''index out of range'' s1
        | Some sumStable \<Rightarrow>
          (case windowSum ms expo 0 wp (nat wp) (windowHead s) 0 0 of
             None \<Rightarrow> Panic ''index out of range'' s1
           | Some sumPanic \<Rightarrow>
               if ScalingMethod c = Arithmetic \<and> (wl = 0 \<or> wp = 0)
               then Panic ''float64 division by zero, outside the model'' s1
               else
                 let arith = (ScalingMethod c = Arithmetic) in
                 Ret (if arith then sumStable / of_int wl else sumStable,
                      if arith then sumPanic / of_int wp else sumPanic)
                     (s1\<lparr>windowHead := (if head' \<ge> stable then 0 else head')\<rparr>)))"

definition desiredConcurrency :: "AutoscalingConfiguration \<Rightarrow> real" where
  "desiredConcurrency c =
     (if ContainerConcurrency c = 0
      then 100 * (of_int (ContainerConcurrencyTargetPercentage c) / 100)
      else of_int (ContainerConcurrency c) * (of_int (ContainerConcurrencyTargetPercentage c) / 100))"

text \<open>The panic-mode part of \<^verbatim>\<open>internalScaleAlgorithm\<close>, after the desired counts are known.\<close>

definition panicTransition :: "int \<Rightarrow> bool \<Rightarrow> AutoscalingMetadata \<Rightarrow> AutoscalingMetadata" where
  "panicTransition now isOverPanicThreshold s =
     (if \<not> InPanicMode s \<and> isOverPanicThreshold
      then s\<lparr>InPanicMode := True, StartPanickingTimestamp := now\<rparr>
      else if isOverPanicThreshold then s\<lparr>StartPanickingTimestamp := now\<rparr>
      else if InPanicMode s \<and>
              StartPanickingTimestamp s +
                StableWindowWidthSeconds (AutoscalingConfig s) * 1000000000 < now
      then s\<lparr>InPanicMode := False, StartPanickingTimestamp := 0, MaxPanicPods := 0\<rparr>
      else s)"

definition choosePodCount :: "int \<Rightarrow> int \<Rightarrow> AutoscalingMetadata \<Rightarrow> int \<times> AutoscalingMetadata" where
  "choosePodCount stableCount panicCount s =
     (if InPanicMode s then
        let desired = (if stableCount < panicCount then panicCount else stableCount);
            s' = (if desired > MaxPanicPods s then s\<lparr>MaxPanicPods := desired\<rparr> else s)
        in (MaxPanicPods s', s')
      else (stableCount, s))"

definition internalScaleAlgorithm :: "int \<Rightarrow> real \<Rightarrow> (AutoscalingMetadata, int \<times> real) go" where
  "internalScaleAlgorithm now scalingMetric s =
     (let c = AutoscalingConfig s;
          readyPodsCount = max 1 (of_int (ActualScale s)) :: real;
          desired = desiredConcurrency c
      in
      if MaxScaleDownRate c = 0 \<or> desired = 0
      then Panic ''float64 division by zero, outside the model'' s
      else
        let maxScaleUp = \<lceil>MaxScaleUpRate c * readyPodsCount\<rceil>;
            maxScaleDown = \<lfloor>readyPodsCount / MaxScaleDownRate c\<rfloor>
        in gbind (windowAverage scalingMetric) (\<lambda>(avgStable, avgPanic) s1.
          let dspc = \<lceil>avgStable / desired\<rceil>;
              dppc = \<lceil>avgPanic / desired\<rceil>;
              desiredStablePodCount = min (max dspc maxScaleDown) maxScaleUp;
              desiredPanicPodCount = min (max dppc maxScaleDown) maxScaleUp;
              isOverPanicThreshold =
                (of_int dppc / readyPodsCount \<ge> PanicThresholdPercentage c / 100);
              (n, s2) = choosePodCount desiredStablePodCount desiredPanicPodCount
                          (panicTransition now isOverPanicThreshold s1)
          in Ret (n, avgStable) s2) s)"

definition KnativeScaling ::
  "(int \<Rightarrow> int \<Rightarrow> int \<Rightarrow> int) \<Rightarrow> int \<Rightarrow> bool \<Rightarrow> (AutoscalingMetadata, int) go" where
  "KnativeScaling clamp now isScaleFromZero s =
     (if isScaleFromZero then Ret 1 s
      else gbind (internalScaleAlgorithm now (of_int (sint (cachedScalingMetric s))))
             (\<lambda>(desiredScale, _) s'.
                Ret (clamp desiredScale (ScalingLowerBound (AutoscalingConfig s'))
                       (ScalingUpperBound (AutoscalingConfig s'))) s') s)"

section \<open>The cached metric\<close>

definition cached_ok :: "AutoscalingMetadata \<Rightarrow> bool" where
  "cached_ok s \<longleftrightarrow> gm_wf (inflightRequestsPerDataPlane s) \<and>
     cachedScalingMetric s = sum_list (map snd (inflightRequestsPerDataPlane s))"

datatype metric_op = Report AutoscalingMetric | Deregister string

fun metric_step :: "metric_op \<Rightarrow> AutoscalingMetadata \<Rightarrow> AutoscalingMetadata" where
  "metric_step (Report m) s = SetCachedScalingMetric m s"
| "metric_step (Deregister d) s = RemoveDataplane d s"

lemma sum_gm_del:
  "gm_wf m \<Longrightarrow> sum_list (map snd (gm_del k m)) = sum_list (map snd m) - gm_get (0 :: 'a :: ab_group_add) m k"
proof (induction m)
  case (Cons p m)
  show ?case
  proof (cases "fst p = k")
    case True
    with Cons.prems show ?thesis by (cases p) (simp add: gm_get_def)
  next
    case False
    with Cons show ?thesis by (cases p) (simp add: gm_get_def)
  qed
qed (simp add: gm_get_def)

lemma sum_gm_set:
  "gm_wf m \<Longrightarrow> sum_list (map snd (gm_set k v m)) =
     sum_list (map snd m) - gm_get (0 :: 'a :: ab_group_add) m k + v"
proof (induction m)
  case (Cons p m)
  then show ?case
    by (cases p) (auto simp: gm_get_def algebra_simps)
qed (simp add: gm_get_def)

lemma cached_ok_step: "cached_ok s \<Longrightarrow> cached_ok (metric_step op s)"
  by (cases op)
    (auto simp: cached_ok_def SetCachedScalingMetric_def RemoveDataplane_def sum_gm_set sum_gm_del)

lemma cached_ok_run: "cached_ok s \<Longrightarrow> cached_ok (fold metric_step ops s)"
  by (induction ops arbitrary: s) (auto intro: cached_ok_step)

fun last_report :: "string \<Rightarrow> metric_op list \<Rightarrow> int32 option \<Rightarrow> int32 option" where
  \<comment> \<open>what a data plane reported last, \<^term>\<open>None\<close> once it has deregistered\<close>
  "last_report d [] r = r"
| "last_report d (Report m # ops) r =
     last_report d ops (if am_DataplaneName m = d then Some (am_InflightRequests m) else r)"
| "last_report d (Deregister e # ops) r = last_report d ops (if e = d then None else r)"

lemma inflight_run:
  "map_of (inflightRequestsPerDataPlane (fold metric_step ops s)) d =
     last_report d ops (map_of (inflightRequestsPerDataPlane s) d)"
proof (induction ops arbitrary: s)
  case (Cons op ops)
  then show ?case
    by (cases op) (simp_all add: SetCachedScalingMetric_def RemoveDataplane_def)
qed simp

text \<open>
  C10. However metric reports and data plane removals interleave, the cached scaling metric of a
  function is, modulo \<open>2 ^ 32\<close>, the sum of what each registered data plane reported last.
\<close>

theorem cached_metric_is_sum_of_last_reports:
  assumes "inflightRequestsPerDataPlane s = []" and "cachedScalingMetric s = 0"
  shows "cached_ok (fold metric_step ops s) \<and>
    map_of (inflightRequestsPerDataPlane (fold metric_step ops s)) d = last_report d ops None"
proof -
  from assms have "cached_ok s" by (simp add: cached_ok_def)
  then show ?thesis using assms(1) by (simp add: cached_ok_run inflight_run)
qed

definition fresh_metadata :: "AutoscalingConfiguration \<Rightarrow> AutoscalingMetadata" where
  \<comment> \<open>the metadata \<^verbatim>\<open>NewPerFunctionStateController\<close> starts from\<close>
  "fresh_metadata c = \<lparr>ActualScale = 0, AutoscalingConfig = c, InPanicMode = False,
     StartPanickingTimestamp = 0, MaxPanicPods = 0, inflightRequestsPerDataPlane = [],
     cachedScalingMetric = 0, scalingMetrics = [], windowHead = 0\<rparr>"

theorem cached_metric_is_sum_of_last_reports_witness:
  "inflightRequestsPerDataPlane (fresh_metadata (NewDefaultAutoscalingMetadata False)) = [] \<and> cachedScalingMetric (fresh_metadata (NewDefaultAutoscalingMetadata False)) = 0 \<and>
   cached_ok (fold metric_step
     [Report \<lparr>am_ServiceName = ''f'', am_DataplaneName = ''d'', am_InflightRequests = 3\<rparr>,
      Deregister ''e''] (fresh_metadata (NewDefaultAutoscalingMetadata False))) \<and>
   last_report ''d''
     [Report \<lparr>am_ServiceName = ''f'', am_DataplaneName = ''d'', am_InflightRequests = 3\<rparr>,
      Deregister ''e''] None = Some 3"
  using cached_metric_is_sum_of_last_reports [of "fresh_metadata (NewDefaultAutoscalingMetadata False)"
     "[Report \<lparr>am_ServiceName = ''f'', am_DataplaneName = ''d'', am_InflightRequests = 3\<rparr>,
       Deregister ''e'']" "''d''"]
  by (simp add: fresh_metadata_def)

section \<open>The metric window\<close>

definition lastN :: "nat \<Rightarrow> 'a list \<Rightarrow> 'a list" where
  "lastN n xs = drop (length xs - n) xs"

definition mean :: "real list \<Rightarrow> real" where
  "mean xs = sum_list xs / of_nat (length xs)"

lemma length_lastN [simp]: "length (lastN n xs) = min n (length xs)"
  by (simp add: lastN_def)

lemma sum_list_lastN:
  "m \<le> length xs \<Longrightarrow> sum_list (lastN m xs) = (\<Sum>t<m. xs ! (length xs - 1 - t))"
proof (induction m)
  case (Suc m)
  then have "lastN (Suc m) xs = xs ! (length xs - Suc m) # lastN m xs"
    by (simp add: lastN_def Cons_nth_drop_Suc [symmetric] Suc_diff_Suc)
  with Suc show ?case by (simp add: add.commute)
qed (simp add: lastN_def)

text \<open>What the summation loop reads, when it need not wrap around and when it wraps at \<open>len\<close>.\<close>

lemma windowSum_no_wrap:
  assumes "int n \<le> i + 1" and "i < int (length ms)"
  shows "windowSum ms False c len n i m acc = Some (acc + (\<Sum>t<n. ms ! nat (i - int t)))"
  using assms
proof (induction n arbitrary: i acc)
  case (Suc n)
  show ?case
  proof (cases "n = 0")
    case True
    with Suc.prems show ?thesis by (simp add: Let_def)
  next
    case False
    with Suc.prems have i: "0 \<le> i - 1" by linarith
    with Suc.prems have "windowSum ms False c len n (i - 1) m (acc + ms ! nat i) =
        Some (acc + ms ! nat i + (\<Sum>t<n. ms ! nat (i - 1 - int t)))"
      by (intro Suc.IH) auto
    with i Suc.prems show ?thesis
      by (simp add: Let_def sum.lessThan_Suc_shift algebra_simps del: sum.lessThan_Suc)
  qed
qed simp

lemma windowSum_wrap:
  assumes "0 \<le> i" and "i < len" and "len \<le> int (length ms)"
  shows "windowSum ms False c len n i m acc = Some (acc + (\<Sum>t<n. ms ! nat ((i - int t) mod len)))"
  using assms(1,2)
proof (induction n arbitrary: i acc)
  case (Suc n)
  define j where "j = (if i - 1 < 0 then len - 1 else i - 1)"
  have j: "0 \<le> j" "j < len" using Suc.prems by (auto simp: j_def)
  have mod_eq: "(j - int t) mod len = (i - int (Suc t)) mod len" for t
  proof (cases "i - 1 < 0")
    case True
    with Suc.prems have "i = 0" by simp
    have "(len - 1 - int t) mod len = (- 1 - int t) mod len"
      by (metis diff_add_eq mod_add_self1 add.commute uminus_add_conv_diff)
    with \<open>i = 0\<close> True show ?thesis by (simp add: j_def algebra_simps)
  qed (simp add: j_def algebra_simps)
  have "windowSum ms False c len (Suc n) i m acc = windowSum ms False c len n j m (acc + ms ! nat i)"
    using Suc.prems assms(3) by (simp add: Let_def j_def)
  also have "\<dots> = Some (acc + ms ! nat i + (\<Sum>t<n. ms ! nat ((j - int t) mod len)))"
    using j by (rule Suc.IH)
  finally show ?case
    using Suc.prems
    by (simp add: sum.lessThan_Suc_shift mod_eq add.assoc del: sum.lessThan_Suc windowSum.simps)
qed simp

lemma windowSum_exponential:
  assumes "windowSum ms True 0 len n i 0 acc = Some r"
  shows "r = acc"
  using assms by (induction n arbitrary: i) (auto simp: Let_def split: if_splits)

text \<open>
  \<open>holds_last N ms hist\<close>: the buffer \<open>ms\<close> of at most \<open>N\<close> buckets holds the most recent
  observations of the history \<open>hist\<close>, observation \<open>j\<close> in bucket \<open>j mod N\<close>.
\<close>

definition holds_last :: "nat \<Rightarrow> real list \<Rightarrow> real list \<Rightarrow> bool" where
  "holds_last N ms hist \<longleftrightarrow> length ms = min (length hist) N \<and>
     (\<forall>j < length hist. length hist \<le> j + N \<longrightarrow> ms ! (j mod N) = hist ! j)"

definition ring_ok :: "AutoscalingMetadata \<Rightarrow> real list \<Rightarrow> bool" where
  "ring_ok s hist \<longleftrightarrow>
     (let N = nat (stableBucketCount (AutoscalingConfig s)) in
      holds_last N (scalingMetrics s) hist \<and> windowHead s = int (length hist mod N))"

definition window_config_ok :: "AutoscalingConfiguration \<Rightarrow> bool" where
  "window_config_ok c \<longleftrightarrow> ScalingMethod c = Arithmetic \<and> ScalingPeriodSeconds c \<noteq> 0 \<and>
     0 < stableBucketCount c \<and> 0 < panicBucketCount c"

lemma ring_slot_free:
  assumes "j < k" and "Suc k \<le> j + N"
  shows "j mod N \<noteq> k mod (N :: nat)"
proof
  assume "j mod N = k mod N"
  then have "N dvd k - j" using assms(1) mod_eq_dvd_iff_nat [of j k N] by simp
  moreover have "0 < k - j" and "k - j < N" using assms by auto
  ultimately show False using nat_dvd_not_less by blast
qed

lemma holds_last_push:
  assumes "holds_last N ms hist" and "0 < N"
  shows "holds_last N (if length ms < N then ms @ [v] else ms[length hist mod N := v]) (hist @ [v])"
  unfolding holds_last_def
proof (intro conjI allI impI)
  have len: "length ms = min (length hist) N"
    and idx: "\<And>j. j < length hist \<Longrightarrow> length hist \<le> j + N \<Longrightarrow> ms ! (j mod N) = hist ! j"
    using assms(1) by (auto simp: holds_last_def)
  let ?ms = "if length ms < N then ms @ [v] else ms[length hist mod N := v]"
  show "length ?ms = min (length (hist @ [v])) N" using len by auto
  fix j assume "j < length (hist @ [v])" and "length (hist @ [v]) \<le> j + N"
  then have j: "j < Suc (length hist)" and jN: "Suc (length hist) \<le> j + N" by auto
  show "?ms ! (j mod N) = (hist @ [v]) ! j"
  proof (cases "length hist < N")
    case True
    with len have "length ms = length hist" by simp
    with True j idx [of j] show ?thesis by (auto simp: nth_append less_Suc_eq)
  next
    case False
    with j jN assms(2) len idx [of j] ring_slot_free [of j "length hist" N] show ?thesis
      by (auto simp: nth_append less_Suc_eq)
  qed
qed

lemma holds_last_bucket:
  assumes "holds_last N ms hist" and "length hist = Suc k" and "0 < N" and "t < min (Suc k) N"
  shows "ms ! nat ((int (k mod N) - int t) mod int (min (Suc k) N)) = hist ! (k - t)"
proof -
  have idx: "ms ! (j mod N) = hist ! j" if "j < Suc k" "Suc k \<le> j + N" for j
    using assms(1,2) that by (auto simp: holds_last_def)
  have "nat ((int (k mod N) - int t) mod int (min (Suc k) N)) = (k - t) mod N"
  proof (cases "k < N")
    case True
    then have "int (k mod N) - int t = int (k - t)" using assms(4) by simp
    then have "nat ((int (k mod N) - int t) mod int (min (Suc k) N)) = (k - t) mod min (Suc k) N"
      by (simp only: zmod_int [symmetric] nat_int)
    with True show ?thesis by simp
  next
    case False
    with assms(4) have "(int (k mod N) - int t) mod int N = int ((k - t) mod N)"
      by (simp add: zmod_int mod_diff_left_eq of_nat_diff)
    with False show ?thesis by (simp add: min_def)
  qed
  with idx [of "k - t"] assms(4) show ?thesis by auto
qed

lemma stable_window_sum:
  assumes "holds_last N ms hist" and "length hist = Suc k" and "0 < N"
  shows "windowSum ms False c (int (min (Suc k) N)) (min (Suc k) N) (int (k mod N)) m 0 =
      Some (sum_list (lastN N hist))"
proof -
  let ?L = "min (Suc k) N"
  have "k mod N < ?L" using assms(3) by (simp add: min_def less_Suc_eq_le)
  moreover have "length ms = ?L" using assms(1,2) by (simp add: holds_last_def)
  ultimately have "windowSum ms False c (int ?L) ?L (int (k mod N)) m 0 =
      Some (\<Sum>t<?L. ms ! nat ((int (k mod N) - int t) mod int ?L))"
    using windowSum_wrap [of "int (k mod N)" "int ?L" ms c ?L m 0] by simp
  also have "(\<Sum>t<?L. ms ! nat ((int (k mod N) - int t) mod int ?L)) = (\<Sum>t<?L. hist ! (k - t))"
    using holds_last_bucket [OF assms] by (intro sum.cong) simp_all
  also have "\<dots> = sum_list (lastN ?L hist)"
    using assms(2) by (subst sum_list_lastN) simp_all
  also have "lastN ?L hist = lastN N hist" using assms(2) by (auto simp: lastN_def min_def)
  finally show ?thesis .
qed

lemma panic_window_sum:
  assumes "holds_last N ms hist" and "length hist = Suc k" and "0 < N" and "p \<le> min (Suc k) N"
  shows "\<exists>r. windowSum ms False c (int p) p (int (k mod N)) m 0 = Some r \<and>
             (p \<le> k mod N + 1 \<longrightarrow> r = sum_list (lastN p hist))"
proof -
  have len: "length ms = min (Suc k) N" using assms(1,2) by (simp add: holds_last_def)
  have h: "k mod N < min (Suc k) N" using assms(3) by (simp add: min_def less_Suc_eq_le)
  show ?thesis
  proof (cases "p \<le> k mod N + 1")
    case True
    have "ms ! nat (int (k mod N) - int t) = hist ! (k - t)" if "t < p" for t
    proof -
      from that True h have "(int (k mod N) - int t) mod int (min (Suc k) N) = int (k mod N) - int t"
        by (intro mod_pos_pos_trivial) auto
      then show ?thesis using holds_last_bucket [OF assms(1-3), of t] that assms(4) by simp
    qed
    then have "(\<Sum>t<p. ms ! nat (int (k mod N) - int t)) = (\<Sum>t<p. hist ! (k - t))" by simp
    also have "\<dots> = sum_list (lastN p hist)"
      using assms(2,4) by (subst sum_list_lastN) simp_all
    finally show ?thesis
      using windowSum_no_wrap [of p "int (k mod N)" ms c "int p" m 0] True h len by simp
  next
    case False
    then show ?thesis
      using windowSum_wrap [of "int (k mod N)" "int p" ms c p m 0] len assms(4) by simp
  qed
qed

lemma ring_ok_fresh: "ring_ok (fresh_metadata c) []"
  by (simp add: ring_ok_def holds_last_def fresh_metadata_def)

text \<open>
  One observation: it never panics, the stable average is the mean of the most recent
  observations, and the panic average is so too when the panic window need not wrap around.
\<close>

lemma windowAverage_step:
  fixes v :: real
  assumes ok: "ring_ok s hist" and c: "window_config_ok (AutoscalingConfig s)"
  defines "N \<equiv> nat (stableBucketCount (AutoscalingConfig s))"
  defines "P \<equiv> nat (panicBucketCount (AutoscalingConfig s))"
  obtains avgP s' where "windowAverage v s = Ret (mean (lastN N (hist @ [v])), avgP) s'"
    and "ring_ok s' (hist @ [v])"
    and "min P (min (Suc (length hist)) N) \<le> length hist mod N + 1 \<Longrightarrow>
           avgP = mean (lastN (min P N) (hist @ [v]))"
    and "\<exists>ms h. s' = s\<lparr>scalingMetrics := ms, windowHead := h\<rparr>"
proof -
  let ?k = "length hist"
  let ?L = "min (Suc ?k) N"
  let ?p = "min P ?L"
  define ms where "ms = (if length (scalingMetrics s) < N then scalingMetrics s @ [v]
             else (scalingMetrics s)[?k mod N := v])"
  have N: "0 < N" and P: "0 < P" and arith: "ScalingMethod (AutoscalingConfig s) = Arithmetic"
    and per: "ScalingPeriodSeconds (AutoscalingConfig s) \<noteq> 0"
    and stb: "stableBucketCount (AutoscalingConfig s) = int N"
    and pnc: "panicBucketCount (AutoscalingConfig s) = int P"
    using c by (auto simp: window_config_ok_def N_def P_def)
  have old: "holds_last N (scalingMetrics s) hist" and head: "windowHead s = int (?k mod N)"
    using ok by (auto simp: ring_ok_def Let_def N_def)
  have new: "holds_last N ms (hist @ [v])"
    unfolding ms_def using old N by (rule holds_last_push)
  have len: "length (scalingMetrics s) = min ?k N" and lenms: "length ms = ?L"
    using old new by (simp_all add: holds_last_def)
  obtain r where r: "windowSum ms False 0 (int ?p) ?p (int (?k mod N)) 0 0 = Some r"
    and r_eq: "?p \<le> ?k mod N + 1 \<longrightarrow> r = sum_list (lastN ?p (hist @ [v]))"
    using panic_window_sum [where k = ?k and p = ?p and c = 0 and m = 0, OF new _ N min.cobounded2]
    by auto
  define h where "h = (if int (?k mod N) + 1 \<ge> int N then 0 else int (?k mod N) + 1)"
  have h: "h = int (Suc ?k mod N)" using mod_less_divisor [OF N, of ?k] by (auto simp: h_def mod_Suc)
  have guard: "length (scalingMetrics s) < N \<or> ?k mod N < length (scalingMetrics s)"
    and pos: "?L \<noteq> 0" "?p \<noteq> 0"
    using len N P mod_less_divisor [OF N, of ?k] by (auto simp: min_def le_less)
  have msE: "(if int (length (scalingMetrics s)) < int N then scalingMetrics s @ [v]
      else (scalingMetrics s)[nat (int (?k mod N)) := v]) = ms"
    by (simp add: ms_def)
  have wl: "min (int N) (int (length ms)) = int ?L" and wp: "min (int P) (int (length ms)) = int ?p"
    by (simp_all add: lenms min.commute)
  have sumS: "windowSum ms False 0 (int ?L) ?L (int (?k mod N)) 0 0 = Some (sum_list (lastN N (hist @ [v])))"
    by (rule stable_window_sum [OF new _ N]) simp
  have "windowAverage v s = Ret (sum_list (lastN N (hist @ [v])) / real ?L, r / real ?p)
      (s\<lparr>scalingMetrics := ms, windowHead := h\<rparr>)"
    unfolding windowAverage_def Let_def stb pnc head msE wl wp h_def [symmetric]
    using sumS r guard pos by (auto simp: arith per)
  moreover have "ring_ok (s\<lparr>scalingMetrics := ms, windowHead := h\<rparr>) (hist @ [v])"
    using new h by (simp add: ring_ok_def Let_def N_def)
  moreover have "lastN ?p (hist @ [v]) = lastN (min P N) (hist @ [v])"
    by (auto simp: lastN_def min_def)
  ultimately show ?thesis
    using r_eq that [of "r / real ?p" "s\<lparr>scalingMetrics := ms, windowHead := h\<rparr>"]
    by (fastforce simp: mean_def min.commute min.left_commute)
qed

fun observeAll :: "real list \<Rightarrow> (AutoscalingMetadata, unit) go" where
  "observeAll [] = gret ()"
| "observeAll (v # vs) = gthen (windowAverage v) (observeAll vs)"

lemma observeAll_ring_ok:
  assumes "ring_ok s hist" and "window_config_ok (AutoscalingConfig s)"
  shows "\<exists>s'. observeAll vs s = Ret () s' \<and> ring_ok s' (hist @ vs) \<and>
     AutoscalingConfig s' = AutoscalingConfig s"
  using assms
proof (induction vs arbitrary: s hist)
  case Nil
  then show ?case by (simp add: gret_def)
next
  case (Cons v vs)
  obtain a s1 where s1: "windowAverage v s = Ret a s1" "ring_ok s1 (hist @ [v])"
    "AutoscalingConfig s1 = AutoscalingConfig s"
    by (rule windowAverage_step [OF Cons.prems, of v]) auto
  with Cons.IH [of s1 "hist @ [v]"] Cons.prems show ?case by (simp add: gthen_def gbind_def)
qed


lemma default_buckets [simp]:
  "stableBucketCount (NewDefaultAutoscalingMetadata False) = 30"
  "panicBucketCount (NewDefaultAutoscalingMetadata False) = 3"
  "stableBucketCount (NewDefaultAutoscalingMetadata True) = 3"
  "panicBucketCount (NewDefaultAutoscalingMetadata True) = 1"
  by (simp_all add: stableBucketCount_def panicBucketCount_def NewDefaultAutoscalingMetadata_def
      signed_divide_int_def)

lemma default_window_config_ok [simp]: "window_config_ok (NewDefaultAutoscalingMetadata b)"
  by (cases b) (simp_all add: window_config_ok_def, simp_all add: NewDefaultAutoscalingMetadata_def)


text \<open>
  C20. The panic window does not hold the last observations at the start of a turn of the ring
  buffer: with the default configuration (30 buckets, panic window of 3), the first observation
  after a full turn is averaged with the observations of 28 and 29 periods ago, because the index
  wraps around at the length of the panic window instead of the length of the buffer.
\<close>

theorem panic_window_wraps_too_early:
  assumes "length vs = 30"
  shows "\<exists>avgStable s'.
    gthen (observeAll vs) (windowAverage v) (fresh_metadata (NewDefaultAutoscalingMetadata False)) =
      Ret (avgStable, (v + vs ! 2 + vs ! 1) / 3) s'"
proof -
  let ?c = "NewDefaultAutoscalingMetadata False"
  obtain s where s: "observeAll vs (fresh_metadata ?c) = Ret () s" "ring_ok s vs"
    "AutoscalingConfig s = ?c"
    using observeAll_ring_ok [OF ring_ok_fresh, of ?c vs] by (auto simp: fresh_metadata_def)
  have ms: "length (scalingMetrics s) = 30" "windowHead s = 0"
    "\<And>j. j < 30 \<Longrightarrow> scalingMetrics s ! j = vs ! j"
    using s(2,3) assms by (auto simp: ring_ok_def holds_last_def Let_def)
  have cfg: "ScalingMethod ?c = Arithmetic" "ScalingPeriodSeconds ?c = 2"
    by (simp_all add: NewDefaultAutoscalingMetadata_def)
  have "windowSum ((scalingMetrics s)[0 := v]) False 0 30 30 0 0 0 =
      Some (0 + (\<Sum>t<30. (scalingMetrics s)[0 := v] ! nat ((0 - int t) mod 30)))"
    by (rule windowSum_wrap) (simp_all add: ms)
  then obtain r where "windowSum ((scalingMetrics s)[0 := v]) False 0 30 30 0 0 0 = Some r" by blast
  moreover have "windowSum ((scalingMetrics s)[0 := v]) False 0 3 3 0 0 0 =
      Some (v + vs ! 2 + vs ! 1)"
    by (simp add: numeral_3_eq_3 Let_def ms)
  ultimately have "\<exists>s'. gthen (observeAll vs) (windowAverage v) (fresh_metadata ?c) =
      Ret (r / 30, (v + vs ! 2 + vs ! 1) / 3) s'"
    using s by (simp add: gthen_def gbind_def windowAverage_def Let_def ms cfg)
  then show ?thesis by blast
qed

theorem panic_window_wraps_too_early_witness:
  "\<exists>avgStable s'.
    gthen (observeAll (replicate 28 0 @ [300, 300])) (windowAverage 300)
      (fresh_metadata (NewDefaultAutoscalingMetadata False)) = Ret (avgStable, 100) s' \<and>
    mean (lastN 3 ((replicate 28 0 @ [300, 300]) @ [300])) = 300"
  using panic_window_wraps_too_early [of "replicate 28 0 @ [300, 300]" 300]
  by (simp add: mean_def lastN_def nth_append)

text \<open>
  With the exponential averaging method both averages are always 0, whatever was observed:
  the smoothing coefficients, and with them the initial weights, are never set.
\<close>

theorem exponential_average_is_zero:
  assumes "ScalingMethod (AutoscalingConfig s) = Exponential"
    and "windowAverage v s = Ret (avgStable, avgPanic) s'"
  shows "avgStable = 0 \<and> avgPanic = 0"
  using assms windowSum_exponential
  by (auto simp: windowAverage_def Let_def split: if_splits option.splits)

theorem exponential_average_is_zero_witness:
  "\<exists>s'. windowAverage 7 (fresh_metadata
      ((NewDefaultAutoscalingMetadata True)\<lparr>ScalingMethod := Exponential\<rparr>)) = Ret (0, 0) s'"
proof -
  let ?s = "fresh_metadata ((NewDefaultAutoscalingMetadata True)\<lparr>ScalingMethod := Exponential\<rparr>)"
  obtain a b s' where "windowAverage 7 ?s = Ret (a, b) s'"
    by (simp add: windowAverage_def Let_def fresh_metadata_def NewDefaultAutoscalingMetadata_def
        stableBucketCount_def panicBucketCount_def signed_divide_int_def)
  moreover from this have "a = 0 \<and> b = 0"
    by (intro exponential_average_is_zero [of ?s 7 a b s']) (simp_all add: fresh_metadata_def)
  ultimately show ?thesis by simp
qed

section \<open>Scaling decisions\<close>

lemma windowAverage_frame:
  assumes "windowAverage v s = Ret a s'"
  shows "\<exists>ms h. s' = s\<lparr>scalingMetrics := ms, windowHead := h\<rparr>"
  using assms by (auto simp: windowAverage_def Let_def split: if_splits option.splits)

text \<open>What a decision is made of: the averages, the panic transition and the choice.\<close>

lemma internalScaleAlgorithm_RetE:
  assumes "internalScaleAlgorithm now m s = Ret (n, a) s'"
  obtains ms h dspc dppc over where
    "(n, s') = choosePodCount dspc dppc
       (panicTransition now over (s\<lparr>scalingMetrics := ms, windowHead := h\<rparr>))"
    and "dspc \<le> \<lceil>MaxScaleUpRate (AutoscalingConfig s) * max 1 (of_int (ActualScale s))\<rceil>"
    and "dppc \<le> \<lceil>MaxScaleUpRate (AutoscalingConfig s) * max 1 (of_int (ActualScale s))\<rceil>"
    and "\<lfloor>max 1 (of_int (ActualScale s)) / MaxScaleDownRate (AutoscalingConfig s)\<rfloor> \<le> dspc \<or>
         dspc = \<lceil>MaxScaleUpRate (AutoscalingConfig s) * max 1 (of_int (ActualScale s))\<rceil>"
proof -
  from assms obtain p q s1 where wa: "windowAverage m s = Ret (p, q) s1"
    by (auto simp: internalScaleAlgorithm_def Let_def gbind_def split: if_splits outcome.splits)
  then obtain ms h where s1: "s1 = s\<lparr>scalingMetrics := ms, windowHead := h\<rparr>"
    using windowAverage_frame by blast
  let ?ready = "max 1 (of_int (ActualScale s)) :: real"
  define up where "up = \<lceil>MaxScaleUpRate (AutoscalingConfig s) * ?ready\<rceil>"
  define down where "down = \<lfloor>?ready / MaxScaleDownRate (AutoscalingConfig s)\<rfloor>"
  define d where "d = desiredConcurrency (AutoscalingConfig s)"
  have "(n, s') = choosePodCount (min (max \<lceil>p / d\<rceil> down) up) (min (max \<lceil>q / d\<rceil> down) up)
      (panicTransition now (of_int \<lceil>q / d\<rceil> / ?ready \<ge> PanicThresholdPercentage (AutoscalingConfig s) / 100) s1)"
    using assms wa unfolding up_def down_def d_def
    by (auto simp: internalScaleAlgorithm_def Let_def gbind_def split: if_splits prod.splits)
  then show ?thesis unfolding s1
    by (rule that, unfold up_def [symmetric] down_def [symmetric]) auto
qed

fun scaleRun :: "(int \<times> int \<times> real) list \<Rightarrow> AutoscalingMetadata \<Rightarrow> (int \<times> AutoscalingMetadata) list" where
  \<comment> \<open>the decisions at consecutive ticks \<open>(now, ready instances, metric)\<close>\<close>
  "scaleRun [] s = []"
| "scaleRun ((now, actual, m) # evs) s =
     (case internalScaleAlgorithm now m (s\<lparr>ActualScale := actual\<rparr>) of
        Ret (n, _) s' \<Rightarrow> (n, s') # scaleRun evs s'
      | _ \<Rightarrow> [])"

lemma panic_step:
  assumes "internalScaleAlgorithm now m s = Ret (n, a) s'" and "InPanicMode s" and "InPanicMode s'"
  shows "MaxPanicPods s \<le> n \<and> n = MaxPanicPods s'"
  using assms(2,3)
  by (cases rule: internalScaleAlgorithm_RetE [OF assms(1)])
    (auto simp: choosePodCount_def panicTransition_def Let_def split: if_splits)

text \<open>
  C17. While a function stays in panic mode its desired scale never goes down, whatever the metric
  and the number of ready instances do from tick to tick.
\<close>

theorem panic_mode_never_scales_down:
  assumes "InPanicMode s" and "\<forall>(n, t) \<in> set (scaleRun evs s). InPanicMode t"
  shows "sorted (MaxPanicPods s # map fst (scaleRun evs s))"
  using assms
proof (induction evs s rule: scaleRun.induct)
  case (2 now actual m evs s)
  show ?case
  proof (cases "internalScaleAlgorithm now m (s\<lparr>ActualScale := actual\<rparr>)")
    case (Ret r s')
    obtain n a where r: "r = (n, a)" by fastforce
    with Ret "2.prems"(2) have p: "InPanicMode s'" by simp
    with Ret r "2.prems"(1) have "MaxPanicPods s \<le> n \<and> n = MaxPanicPods s'"
      using panic_step [of now m "s\<lparr>ActualScale := actual\<rparr>" n a s'] by simp
    moreover have "sorted (MaxPanicPods s' # map fst (scaleRun evs s'))"
      using "2.IH" [OF Ret r [symmetric] p] "2.prems"(2) Ret r by simp
    ultimately show ?thesis using Ret r by auto
  qed simp_all
qed simp


definition panicking :: AutoscalingMetadata where
  \<comment> \<open>a function in panic mode since time 0 with a peak of 5 instances, 3 of them ready\<close>
  "panicking = (fresh_metadata (NewDefaultAutoscalingMetadata True))
     \<lparr>InPanicMode := True, MaxPanicPods := 5, ActualScale := 3\<rparr>"

lemmas scale_eval = panicking_def fresh_metadata_def NewDefaultAutoscalingMetadata_def
  internalScaleAlgorithm_def windowAverage_def stableBucketCount_def panicBucketCount_def
  desiredConcurrency_def choosePodCount_def panicTransition_def signed_divide_int_def
  gbind_def Let_def

lemma panicking_run: "map (\<lambda>(n, t). (n, InPanicMode t)) (scaleRun [(0, 1, 10), (1, 2, 0)] panicking) =
    [(10, True), (10, True)]"
  by (simp add: scale_eval numeral_2_eq_2)

theorem panic_mode_never_scales_down_witness:
  "InPanicMode panicking \<and> sorted (5 # map fst (scaleRun [(0, 1, 10), (1, 2, 0)] panicking))"
proof -
  have "\<forall>(n, t) \<in> set (scaleRun [(0, 1, 10), (1, 2, 0)] panicking). InPanicMode t"
    using panicking_run by (auto simp del: scaleRun.simps)
  moreover have "InPanicMode panicking" and "MaxPanicPods panicking = 5"
    by (simp_all add: panicking_def)
  ultimately show ?thesis using panic_mode_never_scales_down [of panicking] by metis
qed


subsection \<open>An idle function\<close>

lemma windowSum_zero:
  "set ms \<subseteq> {0} \<Longrightarrow> windowSum ms b c len n i m acc = Some r \<Longrightarrow> r = acc"
proof (induction n arbitrary: i m)
  case (Suc n)
  have "ms ! nat i = 0" if "0 \<le> i" "i < int (length ms)"
    using that Suc.prems(1) by (metis nat_less_iff nth_mem singletonD subsetD)
  with Suc show ?case by (auto simp: Let_def split: if_splits)
qed simp

lemma holds_last_set:
  assumes "holds_last N ms hist" and "0 < N"
  shows "set ms \<subseteq> set (lastN N hist)"
proof
  fix x assume "x \<in> set ms"
  then obtain i where i: "i < length ms" "x = ms ! i" by (auto simp: in_set_conv_nth)
  from assms(1) have len: "length ms = min (length hist) N" by (simp add: holds_last_def)
  with i obtain k where k: "length hist = Suc k" by (cases "length hist") auto
  let ?L = "min (Suc k) N"
  define t where "t = nat ((int (k mod N) - int i) mod int ?L)"
  have "0 < int ?L" using assms(2) by simp
  from pos_mod_bound [OF this] pos_mod_sign [OF this]
  have t: "t < ?L" and "int t = (int (k mod N) - int i) mod int ?L"
    unfolding t_def by (simp_all only: nat_less_iff nat_0_le)
  then have "(int (k mod N) - int t) mod int ?L = int i"
    using i(1) len k by (simp add: mod_diff_right_eq)
  with holds_last_bucket [OF assms(1) k assms(2) t] i have "x = hist ! (k - t)" by simp
  moreover have "hist ! (k - t) = lastN N hist ! (k - t - (length hist - N))"
    using t k by (auto simp: lastN_def)
  moreover have "k - t - (length hist - N) < length (lastN N hist)" using t k by auto
  ultimately show "x \<in> set (lastN N hist)" by (metis nth_mem)
qed

lemma windowAverage_zero:
  "windowAverage v s = Ret (a, b) s' \<Longrightarrow> set (scalingMetrics s') \<subseteq> {0} \<Longrightarrow> b = 0"
  by (auto simp: windowAverage_def Let_def split: if_splits option.splits dest!: windowSum_zero [rotated])

fun feedbackRun :: "(int \<times> real) list \<Rightarrow> AutoscalingMetadata \<Rightarrow> int list" where
  \<comment> \<open>ticks \<open>(now, metric)\<close> where each decision is in force at the next tick\<close>
  "feedbackRun [] s = []"
| "feedbackRun ((now, m) # evs) s =
     (case internalScaleAlgorithm now m s of
        Ret (n, _) s' \<Rightarrow> n # feedbackRun evs (s'\<lparr>ActualScale := n\<rparr>)
      | _ \<Rightarrow> [])"

definition idle :: "AutoscalingMetadata \<Rightarrow> bool" where
  \<comment> \<open>the default configuration, no panic, and no request in flight for a whole stable window\<close>
  "idle s \<longleftrightarrow> AutoscalingConfig s = NewDefaultAutoscalingMetadata False \<and> \<not> InPanicMode s \<and>
     0 \<le> ActualScale s \<and> (\<exists>hist. ring_ok s hist \<and> set (lastN 30 hist) \<subseteq> {0})"

lemma idle_step:
  assumes "idle s"
  shows "\<exists>s'. internalScaleAlgorithm now 0 s = Ret (ActualScale s div 2, 0) s' \<and>
    idle (s'\<lparr>ActualScale := ActualScale s div 2\<rparr>)"
proof -
  from assms obtain hist where s: "AutoscalingConfig s = NewDefaultAutoscalingMetadata False"
    "\<not> InPanicMode s" "0 \<le> ActualScale s" "ring_ok s hist" and z: "set (lastN 30 hist) \<subseteq> {0}"
    by (auto simp: idle_def)
  have z': "set (lastN 30 (hist @ [0])) \<subseteq> {0 :: real}"
    using z set_drop_subset_set_drop [of "length hist - 30" "length hist - 29" hist]
    by (auto simp: lastN_def diff_le_mono2)
  then have m: "mean (lastN 30 (hist @ [0])) = 0"
    by (subst mean_def) (metis div_0 replicate_length_same singletonD subsetD sum_list_replicate mult_zero_right)
  have c: "window_config_ok (AutoscalingConfig s)" by (simp add: s)
  obtain p s1 where s1: "windowAverage 0 s = Ret (0, p) s1" "ring_ok s1 (hist @ [0])"
    "\<exists>ms h. s1 = s\<lparr>scalingMetrics := ms, windowHead := h\<rparr>"
    by (rule windowAverage_step [OF s(4) c, of 0]) (auto simp: s m)
  then have cfg: "AutoscalingConfig s1 = NewDefaultAutoscalingMetadata False" "\<not> InPanicMode s1"
    using s by auto
  have "set (scalingMetrics s1) \<subseteq> {0}"
    using s1(2) cfg z' holds_last_set [of 30 "scalingMetrics s1" "hist @ [0]"]
    by (auto simp: ring_ok_def Let_def)
  with s1(1) have "p = 0" by (rule windowAverage_zero)
  have down: "\<lfloor>max 1 (real_of_int (ActualScale s)) / 2\<rfloor> = ActualScale s div 2"
  proof (cases "ActualScale s = 0")
    case False
    with s(3) show ?thesis by (simp add: floor_divide_of_int_eq [of "ActualScale s" 2, simplified] max_def)
  qed simp
  have up: "ActualScale s div 2 \<le> \<lceil>1000 * max 1 (real_of_int (ActualScale s))\<rceil>"
    using s(3) by (simp add: max_def) linarith
  have "internalScaleAlgorithm now 0 s = Ret (ActualScale s div 2, 0) s1"
    using s s1(1) \<open>p = 0\<close> cfg(2) down up
    by (simp add: internalScaleAlgorithm_def NewDefaultAutoscalingMetadata_def desiredConcurrency_def
        gbind_def Let_def panicTransition_def choosePodCount_def)
  moreover have "idle (s1\<lparr>ActualScale := ActualScale s div 2\<rparr>)"
    using cfg s(3) s1(2) z' by (auto simp: idle_def ring_ok_def Let_def)
  ultimately show ?thesis by blast
qed



end
