(* ===== verification/Workers.thy ===== *)
theory Workers
  imports Sync_Maps Proto_Types
begin

text \<open>
  The control plane's view of its peers: \<^verbatim>\<open>internal/control_plane/core\<close> (endpoints and node
  configurations), \<^verbatim>\<open>workers/worker_node.go\<close> (a registered worker node) and
  \<^verbatim>\<open>data_plane/data_plane.go\<close> (a connected data plane). An endpoint is used as a pointer: the
  field \<open>ep_addr\<close> is its identity, and its node is referred to by name. The gRPC connection of a
  peer is represented by whether it is there; what a call over it answers is an argument of the
  operations that make it.
\<close>

section \<open>core\<close>

record WorkerNodeConfiguration =
  wc_Name :: string
  wc_IP :: string
  wc_Port :: string
  wc_CpuCores :: uint64
  wc_Memory :: uint64

record Endpoint =
  ep_addr :: nat
  ep_SandboxID :: string
  ep_URL :: string
  ep_Node :: "string option"
  ep_HostPort :: int

section \<open>Worker nodes\<close>

record WorkerNode =
  wn_Name :: string
  wn_IP :: string
  wn_Port :: string
  wn_CpuUsage :: uint64
  wn_MemoryUsage :: uint64
  wn_CpuCores :: uint64
  wn_Memory :: uint64
  wn_LastHeartbeat :: int
  wn_wnConnection :: bool
  wn_endpointMap :: "(Endpoint, string) Structure"
  wn_Schedulable :: bool

definition NewWorkerNode :: "int \<Rightarrow> WorkerNodeConfiguration \<Rightarrow> WorkerNode" where
  "NewWorkerNode now c = \<lparr>wn_Name = wc_Name c, wn_IP = wc_IP c, wn_Port = wc_Port c,
     wn_CpuUsage = 0, wn_MemoryUsage = 0, wn_CpuCores = wc_CpuCores c, wn_Memory = wc_Memory c,
     wn_LastHeartbeat = now, wn_wnConnection = False,
     wn_endpointMap = NewControlPlaneSyncStructure, wn_Schedulable = False\<rparr>"

definition SetSchedulability :: "bool \<Rightarrow> WorkerNode \<Rightarrow> WorkerNode" where
  "SetSchedulability val w = w\<lparr>wn_Schedulable := val\<rparr>"

definition GetSchedulability :: "WorkerNode \<Rightarrow> bool" where
  "GetSchedulability w = wn_Schedulable w"

definition GetWorkerNodeConfiguration :: "WorkerNode \<Rightarrow> WorkerNodeConfiguration" where
  "GetWorkerNodeConfiguration w = \<lparr>wc_Name = wn_Name w, wc_IP = wn_IP w, wc_Port = wn_Port w,
     wc_CpuCores = wn_CpuCores w, wc_Memory = wn_Memory w\<rparr>"

text \<open>
  Calls over the connection. \<^term>\<open>None\<close> as an answer is an error of gRPC. Without a connection
  \<^verbatim>\<open>wnConnection\<close> is nil and the call panics, except for \<^verbatim>\<open>ListEndpoints\<close>, which checks.
\<close>

definition WorkerNode_CreateSandbox ::
  "(ServiceInfo \<Rightarrow> SandboxCreationStatus option) \<Rightarrow> ServiceInfo \<Rightarrow>
   (WorkerNode, SandboxCreationStatus option) go" where
  "WorkerNode_CreateSandbox rpc info w =
     (if wn_wnConnection w then Ret (rpc info) w else Panic ''nil wnConnection'' w)"

definition WorkerNode_DeleteSandbox ::
  "(SandboxID \<Rightarrow> ActionStatus option) \<Rightarrow> SandboxID \<Rightarrow> (WorkerNode, ActionStatus option) go" where
  "WorkerNode_DeleteSandbox rpc sid w =
     (if wn_wnConnection w then Ret (rpc sid) w else Panic ''nil wnConnection'' w)"

definition WorkerNode_ListEndpoints ::
  "ProtoEndpoint list option \<Rightarrow> (WorkerNode, ProtoEndpoint list option) go" where
  "WorkerNode_ListEndpoints rpc w = (if wn_wnConnection w then Ret rpc w else Ret (Some []) w)"

definition ConnectToWorker :: "bool \<Rightarrow> WorkerNode \<Rightarrow> WorkerNode" where
  \<comment> \<open>\<open>dial\<close>: whether \<^verbatim>\<open>InitializeWorkerNodeConnection\<close> gives a connection\<close>
  "ConnectToWorker dial w = (if \<not> wn_wnConnection w then w\<lparr>wn_wnConnection := dial\<rparr> else w)"

definition UpdateLastHearBeat :: "int \<Rightarrow> WorkerNode \<Rightarrow> WorkerNode" where
  "UpdateLastHearBeat now w = w\<lparr>wn_LastHeartbeat := now\<rparr>"

definition SetCpuUsage :: "uint64 \<Rightarrow> WorkerNode \<Rightarrow> WorkerNode" where
  "SetCpuUsage usage w = w\<lparr>wn_CpuUsage := usage\<rparr>"

definition SetMemoryUsage :: "uint64 \<Rightarrow> WorkerNode \<Rightarrow> WorkerNode" where
  "SetMemoryUsage usage w = w\<lparr>wn_MemoryUsage := usage\<rparr>"

lemmas WorkerNode_defs = NewWorkerNode_def SetSchedulability_def GetSchedulability_def
  GetWorkerNodeConfiguration_def ConnectToWorker_def UpdateLastHearBeat_def SetCpuUsage_def
  SetMemoryUsage_def

section \<open>Data planes\<close>

record DataPlaneConnectionInfo =
  dc_Iface :: bool
  dc_IP :: string
  dc_APIPort :: string
  dc_ProxyPort :: string
  dc_LastHeartBeat :: int

definition NewDataplaneConnection :: "int \<Rightarrow> string \<Rightarrow> string \<Rightarrow> string \<Rightarrow> DataPlaneConnectionInfo" where
  "NewDataplaneConnection now IP APIPort ProxyPort =
     \<lparr>dc_Iface = False, dc_IP = IP, dc_APIPort = APIPort, dc_ProxyPort = ProxyPort,
      dc_LastHeartBeat = now\<rparr>"

definition UpdateHeartBeat :: "int \<Rightarrow> DataPlaneConnectionInfo \<Rightarrow> DataPlaneConnectionInfo" where
  "UpdateHeartBeat now d = d\<lparr>dc_LastHeartBeat := now\<rparr>"

definition InitializeDataPlaneConnection ::
  "bool \<Rightarrow> (DataPlaneConnectionInfo, bool) go" where
  \<comment> \<open>\<open>dial\<close>: whether the connection is made; the result tells whether there was an error\<close>
  "InitializeDataPlaneConnection dial d = Ret (\<not> dial) (d\<lparr>dc_Iface := dial\<rparr>)"

text \<open>
  \<^verbatim>\<open>ResetMeasurements\<close> calls itself instead of the method of \<^verbatim>\<open>Iface\<close>: the answer of the data plane,
  \<open>rpc\<close>, is never asked for.
\<close>

partial_function (option) ResetMeasurements ::
  "ActionStatus option \<Rightarrow> DataPlaneConnectionInfo \<Rightarrow> ActionStatus option option" where
  "ResetMeasurements rpc d = ResetMeasurements rpc d"

section \<open>Facts\<close>

lemma NewWorkerNode_configuration [simp]:
  "GetWorkerNodeConfiguration (NewWorkerNode now c) = c"
  by (simp add: WorkerNode_defs)

lemma ResetMeasurements_diverges: "ResetMeasurements rpc d = None"
proof -
  have "ResetMeasurements rpc d = Some r \<Longrightarrow> False" for r
    by (rule ResetMeasurements.raw_induct [where P = "\<lambda>_ _ _. False"]) auto
  then show ?thesis by (cases "ResetMeasurements rpc d") auto
qed

end
