(* ===== verification/Placement.thy ===== *)
theory Placement
  imports Workers "HOL-Library.List_Lexorder" "HOL-Library.Char_ord"
begin

text \<open>
  \<^verbatim>\<open>internal/control_plane/placement_policy\<close> (where a new sandbox goes) and
  \<^verbatim>\<open>internal/control_plane/eviction_policy\<close> (which sandbox is removed). Draws of \<^verbatim>\<open>rand.Intn\<close> are
  arguments. A policy runs on its own state and on the node storage, whose read lock
  \<^verbatim>\<open>ApplyPlacementPolicy\<close> holds meanwhile. The contract of a policy is the locale
  \<open>placement_policy\<close>, interpreted on the random and on the round-robin policy.
\<close>

section \<open>Resource maps\<close>

record ResourceMap =
  resources :: "(string, uint64) gomap"

abbreviation (input) RM_CPU_KEY :: string where "RM_CPU_KEY \<equiv> ''cpu''"
abbreviation (input) RM_MEMORY_KEY :: string where "RM_MEMORY_KEY \<equiv> ''memory''"

definition GetCPUCores :: "ResourceMap \<Rightarrow> uint64" where
  "GetCPUCores r = gm_get 0 (resources r) RM_CPU_KEY"

definition GetMemory :: "ResourceMap \<Rightarrow> uint64" where
  "GetMemory r = gm_get 0 (resources r) RM_MEMORY_KEY"

definition SetCPUCores :: "uint64 \<Rightarrow> ResourceMap \<Rightarrow> ResourceMap" where
  "SetCPUCores v r = r\<lparr>resources := gm_set RM_CPU_KEY v (resources r)\<rparr>"

definition SetMemory :: "uint64 \<Rightarrow> ResourceMap \<Rightarrow> ResourceMap" where
  "SetMemory v r = r\<lparr>resources := gm_set RM_MEMORY_KEY v (resources r)\<rparr>"

definition ResourceKeys :: "ResourceMap \<Rightarrow> string list" where
  "ResourceKeys r = map fst (resources r)"

definition GetByKey :: "ResourceMap \<Rightarrow> string \<Rightarrow> uint64 option" where
  \<comment> \<open>\<^term>\<open>None\<close> is \<^verbatim>\<open>logrus.Fatal\<close>\<close>
  "GetByKey r key = map_of (resources r) key"

fun SumAll :: "ResourceMap \<Rightarrow> string list \<Rightarrow> uint64 \<Rightarrow> uint64 option" where
  "SumAll r [] s = Some s"
| "SumAll r (key # keys) s = (case GetByKey r key of None \<Rightarrow> None | Some req \<Rightarrow> SumAll r keys (s + req))"

definition SumAllResourceTypes :: "ResourceMap \<Rightarrow> uint64 option" where
  "SumAllResourceTypes r = SumAll r (ResourceKeys r) 0"

definition CreateResourceMap :: "uint64 \<Rightarrow> uint64 \<Rightarrow> ResourceMap" where
  "CreateResourceMap cpu memory = SetMemory memory (SetCPUCores cpu \<lparr>resources = []\<rparr>)"

definition ExtendCPU :: "ResourceMap \<Rightarrow> ResourceMap" where
  "ExtendCPU r = SetCPUCores (GetCPUCores r * 1000) r"

definition SumResources :: "ResourceMap \<Rightarrow> ResourceMap \<Rightarrow> ResourceMap" where
  "SumResources a b =
     CreateResourceMap (GetCPUCores a + GetCPUCores b) (GetMemory a + GetMemory b)"

definition SubtractResources :: "ResourceMap \<Rightarrow> ResourceMap \<Rightarrow> ResourceMap" where
  "SubtractResources a b =
     CreateResourceMap (GetCPUCores a - GetCPUCores b) (GetMemory a - GetMemory b)"

section \<open>Policies\<close>

type_synonym NodeStorage = "(string, WorkerNode) Structure"

type_synonym 'p PlacementPolicy =
  "ResourceMap \<Rightarrow> ('p \<times> NodeStorage, WorkerNode option) go"

definition getSchedulableNodes :: "WorkerNode list \<Rightarrow> WorkerNode list" where
  "getSchedulableNodes allNodes = filter GetSchedulability allNodes"

definition getNumberNodes :: "(NodeStorage, nat) go" where
  "getNumberNodes = Structure_AtomicLen"

definition noNodesInCluster :: "(NodeStorage, bool) go" where
  "noNodesInCluster = gbind getNumberNodes (\<lambda>n. gret (n = 0))"

definition nodeFromIndex :: "NodeStorage \<Rightarrow> int \<Rightarrow> WorkerNode option option" where
  \<comment> \<open>the outer \<^term>\<open>None\<close> is the index panic; the nodes are taken in the order of their names\<close>
  "nodeFromIndex storage index =
     (let nodes = sort (map_Keys (Structure_GetMap storage)) in
      if index < 0 \<or> index \<ge> int (length nodes) then None
      else Some (Structure_Get storage (nodes ! nat index)))"

abbreviation on_storage :: "(NodeStorage, 'a) go \<Rightarrow> ('p \<times> NodeStorage, 'a) go" where
  "on_storage m \<equiv> gzoom snd (\<lambda>st s. (fst s, st)) m"

definition ApplyPlacementPolicy :: "'p PlacementPolicy \<Rightarrow> 'p PlacementPolicy" where
  "ApplyPlacementPolicy Place requested =
     gthen (on_storage Structure_RLock)
       (gdefer (on_storage Structure_RUnlock)
          (gbind (on_storage noNodesInCluster)
             (\<lambda>empty. if empty then gret None else Place requested)))"

subsection \<open>Random\<close>

definition Random_Place :: "(nat \<Rightarrow> nat) \<Rightarrow> unit PlacementPolicy" where
  "Random_Place Intn r s =
     (let schedulable = getSchedulableNodes (Structure_GetValues (snd s)) in
      if length schedulable \<noteq> 0 then Ret (Some (schedulable ! Intn (length schedulable))) s
      else Ret None s)"

subsection \<open>Round robin\<close>

text \<open>
  The compare-and-swap loop, with no other goroutine changing the counter meanwhile; it is
  \<^term>\<open>None\<close> when the loop never ends. The counter only ever holds indices, so its 32 bits do
  not wrap. \<^verbatim>\<open>%\<close> is the remainder of the division that rounds towards zero.
\<close>

partial_function (option) roundRobinLoop :: "int \<Rightarrow> int \<Rightarrow> (int \<times> int) option" where
  "roundRobinLoop len counter =
     (let index = counter smod len; newIndex = (index + 1) smod len
      in if counter = index then Some (index, newIndex) else roundRobinLoop len counter)"

definition RoundRobin_Place :: "int PlacementPolicy" where
  "RoundRobin_Place r s =
     (let schedulable = getSchedulableNodes (Structure_GetValues (snd s)) in
      if length schedulable = 0 then Ret None s
      else (case roundRobinLoop (int (length schedulable)) (fst s) of
              None \<Rightarrow> Blocked ''compare-and-swap loop'' s
            | Some (index, counter') \<Rightarrow>
                if index < 0 then Panic ''index out of range'' (counter', snd s)
                else Ret (Some (schedulable ! nat index)) (counter', snd s)))"

subsection \<open>Kubernetes\<close>

definition leastRequestedScore :: "uint64 \<Rightarrow> uint64 \<Rightarrow> uint64" where
  "leastRequestedScore requested capacity =
     (if capacity = 0 then 0
      else if requested > capacity then 0
      else ((capacity - requested) * 100) div capacity)"

definition fitWeights :: "(string, uint64) gomap" where
  "fitWeights = [(RM_CPU_KEY, 1), (RM_MEMORY_KEY, 1)]"

fun fitSums :: "ResourceMap \<Rightarrow> ResourceMap \<Rightarrow> string list \<Rightarrow> uint64 \<Rightarrow> uint64 \<Rightarrow> (uint64 \<times> uint64) option" where
  "fitSums installed requested [] nodeScore weightSum = Some (nodeScore, weightSum)"
| "fitSums installed requested (key # keys) nodeScore weightSum =
     (case GetByKey requested key of None \<Rightarrow> None
      | Some req \<Rightarrow> (case GetByKey installed key of None \<Rightarrow> None
      | Some av \<Rightarrow> fitSums installed requested keys
          (nodeScore + leastRequestedScore req av * gm_get 0 fitWeights key)
          (weightSum + gm_get 0 fitWeights key)))"

definition ScoreFitLeastAllocated :: "ResourceMap \<Rightarrow> ResourceMap \<Rightarrow> uint64 option" where
  "ScoreFitLeastAllocated installed requested =
     (case fitSums installed requested (ResourceKeys installed) 0 0 of
        None \<Rightarrow> None
      | Some (nodeScore, weightSum) \<Rightarrow> Some (if weightSum = 0 then 0 else nodeScore div weightSum))"

definition fractionOf :: "uint64 \<Rightarrow> uint64 \<Rightarrow> real option" where
  \<comment> \<open>\<^verbatim>\<open>req / av\<close> cut at 1; an infinite quotient is cut too, and \<^term>\<open>None\<close> is Go's NaN for 0/0\<close>
  "fractionOf req av =
     (if av = 0 then (if req = 0 then None else Some 1)
      else Some (min 1 (real (unat req) / real (unat av))))"

fun fractions :: "ResourceMap \<Rightarrow> ResourceMap \<Rightarrow> string list \<Rightarrow> real list \<Rightarrow> real list option" where
  "fractions installed requested [] fs = Some fs"
| "fractions installed requested (key # keys) fs =
     (case GetByKey requested key of None \<Rightarrow> None
      | Some req \<Rightarrow> (case GetByKey installed key of None \<Rightarrow> None
      | Some av \<Rightarrow> (case fractionOf req av of None \<Rightarrow> None
      | Some f \<Rightarrow> fractions installed requested keys (fs @ [f]))))"

definition stdOf :: "real list \<Rightarrow> real" where
  "stdOf fs =
     (if length fs = 2 then \<bar>(fs ! 0 - fs ! 1) / 2\<bar>
      else if length fs > 2 then
        let m = sum_list fs / real (length fs)
        in sqrt (sum_list (map (\<lambda>f. (f - m) * (f - m)) fs) / real (length fs))
      else 0)"

definition ScoreBalancedAllocation :: "ResourceMap \<Rightarrow> ResourceMap \<Rightarrow> uint64 option" where
  "ScoreBalancedAllocation installed requested =
     (case fractions installed requested (ResourceKeys installed) [] of
        None \<Rightarrow> None
      | Some fs \<Rightarrow> Some (word_of_int \<lfloor>(1 - stdOf fs) * 100\<rfloor>))"

type_synonym ScoringAlgorithm = "string \<times> (ResourceMap \<Rightarrow> ResourceMap \<Rightarrow> uint64 option)"

definition CreateScoringPipeline :: "ScoringAlgorithm list" where
  "CreateScoringPipeline =
     [(''NodeResourcesFit'', ScoreFitLeastAllocated),
      (''NodeResourcesBalancedAllocation'', ScoreBalancedAllocation)]"

text \<open>
  \<^verbatim>\<open>resultingNodes\<close> is an interface variable that nobody assigns: it is nil (\<^term>\<open>None\<close>), and
  calling \<^verbatim>\<open>Set\<close> on it panics (the outer \<^term>\<open>None\<close>).
\<close>

fun filterLoop :: "(string \<times> WorkerNode) list \<Rightarrow> ResourceMap \<Rightarrow> NodeStorage option \<Rightarrow> NodeStorage option option" where
  "filterLoop [] rm resultingNodes = Some resultingNodes"
| "filterLoop ((key, value) # rest) rm resultingNodes =
     (let isMemoryBigEnough = wn_Memory value \<ge> GetMemory rm;
          isCpuBigEnough = wn_CpuCores value \<ge> GetCPUCores rm
      in if \<not> isMemoryBigEnough \<or> \<not> isCpuBigEnough \<or> \<not> GetSchedulability value
         then filterLoop rest rm resultingNodes
         else (case resultingNodes of None \<Rightarrow> None
               | Some st \<Rightarrow> filterLoop rest rm (Some (Structure_Set key value st))))"

definition filterMachines :: "NodeStorage \<Rightarrow> ResourceMap \<Rightarrow> NodeStorage option option" where
  "filterMachines storage rm = filterLoop (Structure_GetMap storage) rm None"

definition getInstalledResources :: "WorkerNode \<Rightarrow> ResourceMap" where
  "getInstalledResources machine = CreateResourceMap (wn_CpuCores machine) (wn_Memory machine)"

definition getRequestedResources :: "WorkerNode \<Rightarrow> ResourceMap \<Rightarrow> ResourceMap" where
  "getRequestedResources machine request =
     SumResources (CreateResourceMap (wn_CpuUsage machine * wn_CpuCores machine)
                     (wn_MemoryUsage machine * wn_Memory machine)) request"

fun scoreMachines :: "(ResourceMap \<Rightarrow> ResourceMap \<Rightarrow> uint64 option) \<Rightarrow> ResourceMap \<Rightarrow>
    (string \<times> WorkerNode) list \<Rightarrow> (string, uint64) gomap \<Rightarrow> (string, uint64) gomap option" where
  "scoreMachines Score request [] scores = Some scores"
| "scoreMachines Score request ((key, machine) # rest) scores =
     (case Score (getInstalledResources machine) (getRequestedResources machine request) of
        None \<Rightarrow> None
      | Some sc \<Rightarrow> scoreMachines Score request rest (gm_set key (gm_get 0 scores key + sc) scores))"

fun runPipeline :: "ScoringAlgorithm list \<Rightarrow> ResourceMap \<Rightarrow> (string \<times> WorkerNode) list \<Rightarrow>
    (string, uint64) gomap \<Rightarrow> (string, uint64) gomap option" where
  "runPipeline [] request machines scores = Some scores"
| "runPipeline ((name, Score) # algs) request machines scores =
     (case scoreMachines Score request machines scores of
        None \<Rightarrow> None | Some scores' \<Rightarrow> runPipeline algs request machines scores')"

definition prioritizeNodes :: "NodeStorage option \<Rightarrow> ResourceMap \<Rightarrow> (string, uint64) gomap option" where
  \<comment> \<open>a nil storage panics at its first \<^verbatim>\<open>GetMap\<close>\<close>
  "prioritizeNodes storage request =
     (case storage of None \<Rightarrow> None
      | Some st \<Rightarrow> runPipeline CreateScoringPipeline request (Structure_GetMap st) [])"

text \<open>
  The loop of \<^verbatim>\<open>selectOneMachine\<close>: the candidate, the best score so far and how many nodes share
  it. \<open>Intn key n\<close> is the draw made when node \<open>key\<close> is visited.
\<close>

fun selectLoop :: "(string \<Rightarrow> nat \<Rightarrow> nat) \<Rightarrow> (string, uint64) gomap \<Rightarrow> (string \<times> WorkerNode) list \<Rightarrow>
    WorkerNode option \<Rightarrow> uint64 \<Rightarrow> nat \<Rightarrow> WorkerNode option" where
  "selectLoop Intn scores [] selected maxScore cnt = selected"
| "selectLoop Intn scores ((key, element) # rest) selected maxScore cnt =
     (if gm_get 0 scores key > maxScore
      then selectLoop Intn scores rest (Some element) (gm_get 0 scores key) 1
      else if gm_get 0 scores key = maxScore
      then selectLoop Intn scores rest
             (if Intn key (cnt + 1) = 0 then Some element else selected) maxScore (cnt + 1)
      else selectLoop Intn scores rest selected maxScore cnt)"

definition selectOneMachine ::
  "(string \<Rightarrow> nat \<Rightarrow> nat) \<Rightarrow> (string, uint64) gomap \<Rightarrow> (NodeStorage, WorkerNode option) go" where
  "selectOneMachine Intn scores =
     gbind Structure_AtomicLen (\<lambda>n.
       if n = 0 then gpanic ''There is no candidate machine to select from.''
       else gget (\<lambda>st. selectLoop Intn scores (Structure_GetMap st) None 0 1))"

record KubernetesPolicy =
  kp_resourceMap :: ResourceMap

definition NewKubernetesPolicy :: KubernetesPolicy where
  "NewKubernetesPolicy = \<lparr>kp_resourceMap = CreateResourceMap 1 1\<rparr>"

definition Kubernetes_Place :: "(string \<Rightarrow> nat \<Rightarrow> nat) \<Rightarrow> KubernetesPolicy PlacementPolicy" where
  "Kubernetes_Place Intn requested s =
     (case filterMachines (snd s) (kp_resourceMap (fst s)) of
        None \<Rightarrow> Panic ''nil pointer dereference'' s
      | Some filteredStorage \<Rightarrow>
          (case prioritizeNodes filteredStorage requested of
             None \<Rightarrow> Panic ''nil pointer dereference'' s
           | Some scores \<Rightarrow>
               (case filteredStorage of
                  None \<Rightarrow> Panic ''nil pointer dereference'' s
                | Some st \<Rightarrow> (case selectOneMachine Intn scores st of
                      Ret w _ \<Rightarrow> Ret w s
                    | Panic e _ \<Rightarrow> Panic e s
                    | Blocked e _ \<Rightarrow> Blocked e s))))"

section \<open>Eviction\<close>

fun without_index :: "Endpoint list \<Rightarrow> nat \<Rightarrow> nat \<Rightarrow> Endpoint list" where
  \<comment> \<open>the copying loop: \<open>i\<close> is the index of the head\<close>
  "without_index [] i index = []"
| "without_index (e # es) i index =
     (if i \<noteq> index then e # without_index es (i + 1) index else without_index es (i + 1) index)"

definition EvictionPolicy :: "(nat \<Rightarrow> nat) \<Rightarrow> Endpoint list \<Rightarrow> Endpoint option \<times> Endpoint list" where
  "EvictionPolicy Intn endpoint =
     (if length endpoint = 0 then (None, [])
      else let index = Intn (length endpoint)
           in (Some (endpoint ! index), without_index endpoint 0 index))"

section \<open>Contract of a policy\<close>

text \<open>
  What the scaling loop relies on: a policy leaves the storage alone, and when it answers, the
  answer is a registered, schedulable node, or nil if there is none. \<open>ok\<close> is the part of the
  policy's state and the storage for which it is known to answer.
\<close>

locale placement_policy =
  fixes Place :: "'p PlacementPolicy"
    and ok :: "'p \<Rightarrow> NodeStorage \<Rightarrow> bool"
  assumes place_answers: "ok p st \<Longrightarrow> \<exists>w p'. Place r (p, st) = Ret w (p', st)"
    and place_sound: "Place r (p, st) = Ret w s' \<Longrightarrow>
       snd s' = st \<and>
       (case w of None \<Rightarrow> \<forall>n \<in> set (Structure_GetValues st). \<not> wn_Schedulable n
        | Some n \<Rightarrow> n \<in> set (Structure_GetValues st) \<and> wn_Schedulable n)"
    and ok_rlock: "ok p (st\<lparr>rlocks := n\<rparr>) = ok p st"
begin

lemma apply_answers:
  assumes "ok p st" and "\<not> wlocked st"
  shows "\<exists>w p'. ApplyPlacementPolicy Place r (p, st) = Ret w (p', st) \<and>
     (case w of None \<Rightarrow> \<forall>n \<in> set (Structure_GetValues st). \<not> wn_Schedulable n
      | Some n \<Rightarrow> n \<in> set (Structure_GetValues st) \<and> wn_Schedulable n)"
proof -
  let ?st = "st\<lparr>rlocks := Suc (rlocks st)\<rparr>"
  obtain w p' where place: "Place r (p, ?st) = Ret w (p', ?st)"
    using place_answers [of p ?st r] assms(1) ok_rlock by blast
  have vals: "Structure_GetValues ?st = Structure_GetValues st"
    by (simp add: Structure_defs)
  show ?thesis
  proof (cases "InternalMap st = []")
    case True
    with assms(2) show ?thesis
      by (simp add: ApplyPlacementPolicy_def noNodesInCluster_def getNumberNodes_def Structure_defs go_monad)
  next
    case False
    with assms(2) place have "ApplyPlacementPolicy Place r (p, st) = Ret w (p', st)"
      by (simp add: ApplyPlacementPolicy_def noNodesInCluster_def getNumberNodes_def Structure_defs go_monad)
    with place_sound [OF place] show ?thesis unfolding vals by blast
  qed
qed

end

lemma getSchedulableNodes_mem:
  "i < length (getSchedulableNodes ns) \<Longrightarrow>
     getSchedulableNodes ns ! i \<in> set ns \<and> wn_Schedulable (getSchedulableNodes ns ! i)"
  using nth_mem [of i "getSchedulableNodes ns"]
  by (auto simp: getSchedulableNodes_def GetSchedulability_def)

lemma getSchedulableNodes_empty:
  "getSchedulableNodes ns = [] \<longleftrightarrow> (\<forall>n \<in> set ns. \<not> wn_Schedulable n)"
  by (simp add: getSchedulableNodes_def filter_empty_conv GetSchedulability_def)

text \<open>\<^verbatim>\<open>rand.Intn(n)\<close> answers a number below \<open>n\<close>; here the generator is fixed to a seed.\<close>

interpretation random_policy: placement_policy "Random_Place (\<lambda>n. seed mod n)" "\<lambda>_ _. True"
proof
  fix r p st w s'
  show "\<exists>w p'. Random_Place (\<lambda>n. seed mod n) r (p, st) = Ret w (p', st)"
    by (simp add: Random_Place_def Let_def)
  assume "Random_Place (\<lambda>n. seed mod n) r (p, st) = Ret w s'"
  then show "snd s' = st \<and>
       (case w of None \<Rightarrow> \<forall>n \<in> set (Structure_GetValues st). \<not> wn_Schedulable n
        | Some n \<Rightarrow> n \<in> set (Structure_GetValues st) \<and> wn_Schedulable n)"
    using getSchedulableNodes_mem [of _ "Structure_GetValues st"]
      getSchedulableNodes_empty [of "Structure_GetValues st"]
    by (auto simp: Random_Place_def Let_def split: if_splits)
qed simp

subsection \<open>Round robin\<close>

lemma smod_nonneg: "0 \<le> a \<Longrightarrow> 0 < b \<Longrightarrow> a smod b = a mod (b :: int)"
  by (cases "a = 0") (simp_all add: signed_modulo_int_def)

lemma smod_lt: "0 < b \<Longrightarrow> a smod b < (b :: int)"
proof (cases "0 \<le> a")
  case False
  assume "0 < b"
  then have "0 \<le> (- a) mod b" by simp
  moreover have "a smod b = - ((- a) mod b)" using False \<open>0 < b\<close> by (simp add: signed_modulo_int_def)
  ultimately show ?thesis using \<open>0 < b\<close> by linarith
qed (simp add: smod_nonneg)

lemma roundRobinLoop_below:
  assumes "0 \<le> counter" and "counter < len"
  shows "roundRobinLoop len counter = Some (counter, (counter + 1) mod len)"
  using assms by (subst roundRobinLoop.simps) (simp add: smod_nonneg Let_def)

lemma roundRobinLoop_SomeD:
  assumes "roundRobinLoop len counter = Some (index, nxt)"
  shows "counter smod len = counter \<and> index = counter \<and> nxt = (counter + 1) smod len"
proof -
  have "counter smod len = counter \<and> (index, nxt) = (counter, (counter + 1) smod len)"
  proof (rule roundRobinLoop.raw_induct [OF _ assms])
    fix f len counter r
    assume IH: "\<And>len counter r. f len counter = Some r \<Longrightarrow>
        counter smod len = counter \<and> r = (counter, (counter + 1) smod len)"
      and eq: "(let index = counter smod len; newIndex = (index + 1) smod len
         in if counter = index then Some (index, newIndex) else f len counter) = Some r"
    show "counter smod len = counter \<and> r = (counter, (counter + 1) smod len)"
    proof (cases "counter smod len = counter")
      case True
      with eq show ?thesis by simp
    next
      case False
      with eq have "f len counter = Some r" by (metis (full_types))
      then show ?thesis by (rule IH)
    qed
  qed
  then show ?thesis by simp
qed

definition rr_ok :: "int \<Rightarrow> NodeStorage \<Rightarrow> bool" where
  "rr_ok counter st \<longleftrightarrow> 0 \<le> counter \<and>
     (getSchedulableNodes (Structure_GetValues st) = [] \<or>
      counter < int (length (getSchedulableNodes (Structure_GetValues st))))"

interpretation round_robin: placement_policy RoundRobin_Place rr_ok
proof
  fix r p st w s' n
  show "rr_ok p st \<Longrightarrow> \<exists>w p'. RoundRobin_Place r (p, st) = Ret w (p', st)"
    by (auto simp: rr_ok_def RoundRobin_Place_def Let_def roundRobinLoop_below)
  show "rr_ok p (st\<lparr>rlocks := n\<rparr>) = rr_ok p st"
    by (simp add: rr_ok_def Structure_defs)
  assume r: "RoundRobin_Place r (p, st) = Ret w s'"
  let ?sn = "getSchedulableNodes (Structure_GetValues st)"
  show "snd s' = st \<and>
       (case w of None \<Rightarrow> \<forall>n \<in> set (Structure_GetValues st). \<not> wn_Schedulable n
        | Some n \<Rightarrow> n \<in> set (Structure_GetValues st) \<and> wn_Schedulable n)"
  proof (cases "?sn = []")
    case True
    with r show ?thesis
      using getSchedulableNodes_empty [of "Structure_GetValues st"]
      by (auto simp: RoundRobin_Place_def Let_def)
  next
    case False
    with r obtain index nxt where loop: "roundRobinLoop (int (length ?sn)) p = Some (index, nxt)"
      and w: "w = Some (?sn ! nat index)" and s': "s' = (nxt, st)"
      by (auto simp: RoundRobin_Place_def Let_def split: option.splits if_splits)
    have "nat index < length ?sn"
      using roundRobinLoop_SomeD [OF loop] False smod_lt [of "int (length ?sn)" p]
      by (cases "0 \<le> p") auto
    with w s' show ?thesis
      using getSchedulableNodes_mem by auto
  qed
qed

fun rrMany :: "nat \<Rightarrow> ResourceMap \<Rightarrow> (int \<times> NodeStorage, WorkerNode option list) go" where
  \<comment> \<open>consecutive placements\<close>
  "rrMany 0 r = gret []"
| "rrMany (Suc n) r = gbind (RoundRobin_Place r) (\<lambda>w. gbind (rrMany n r) (\<lambda>ws. gret (w # ws)))"

lemma RoundRobin_Place_step:
  assumes "k < length (getSchedulableNodes (Structure_GetValues st))"
  shows "RoundRobin_Place r (int k, st) =
     Ret (Some (getSchedulableNodes (Structure_GetValues st) ! k))
       (int (Suc k mod length (getSchedulableNodes (Structure_GetValues st))), st)"
  using assms by (auto simp: RoundRobin_Place_def Let_def roundRobinLoop_below zmod_int add.commute)

lemma rrMany_cycles:
  fixes st :: NodeStorage
  defines "sn \<equiv> getSchedulableNodes (Structure_GetValues st)"
  assumes "k < length sn"
  shows "rrMany n r (int k, st) =
     Ret (map (\<lambda>i. Some (sn ! ((k + i) mod length sn))) [0..<n]) (int ((k + n) mod length sn), st)"
  using assms(2)
proof (induction n arbitrary: k)
  case (Suc n)
  have "Suc k mod length sn < length sn" using Suc.prems by (intro mod_less_divisor) linarith
  from Suc.IH [OF this]
  have IH: "rrMany n r (int (Suc k mod length sn), st) =
      Ret (map (\<lambda>i. Some (sn ! ((Suc k + i) mod length sn))) [0..<n])
        (int ((Suc k + n) mod length sn), st)"
    by (simp only: mod_add_left_eq)
  have "map (\<lambda>i. Some (sn ! ((k + i) mod length sn))) [0..<Suc n] =
      Some (sn ! k) # map (\<lambda>i. Some (sn ! ((Suc k + i) mod length sn))) [0..<n]"
    using Suc.prems by (simp add: upt_conv_Cons map_Suc_upt [symmetric] del: upt_Suc)
  with IH RoundRobin_Place_step [of k st r] Suc.prems show ?case
    by (simp add: gbind_def gret_def sn_def [symmetric] del: upt_Suc)
qed (simp add: gret_def)

text \<open>
  C13. Placement answers, with a node that is registered and schedulable, or with nil exactly when
  no node is: for the random policy on every cluster, for the round-robin policy whenever its
  counter is an index of the schedulable nodes. The lock of the node storage is released.
\<close>

theorem placement_answers_with_schedulable_node:
  assumes "\<not> wlocked st"
  shows "(\<exists>w. ApplyPlacementPolicy (Random_Place (\<lambda>n. seed mod n)) r ((), st) = Ret w ((), st) \<and>
       (case w of None \<Rightarrow> \<forall>n \<in> set (Structure_GetValues st). \<not> wn_Schedulable n
        | Some n \<Rightarrow> n \<in> set (Structure_GetValues st) \<and> wn_Schedulable n)) \<and>
     (rr_ok counter st \<longrightarrow>
      (\<exists>w counter'. ApplyPlacementPolicy RoundRobin_Place r (counter, st) = Ret w (counter', st) \<and>
       (case w of None \<Rightarrow> \<forall>n \<in> set (Structure_GetValues st). \<not> wn_Schedulable n
        | Some n \<Rightarrow> n \<in> set (Structure_GetValues st) \<and> wn_Schedulable n)))"
  using random_policy.apply_answers [where st = st and seed = seed and r = r] round_robin.apply_answers [of counter st r] assms
  by auto


text \<open>
  C26. The round-robin policy never answers again once the counter is not an index of the
  schedulable nodes, which is the case when nodes leave the cluster: the value that the
  compare-and-swap expects is the counter modulo the number of nodes, and nobody writes it.
\<close>

theorem round_robin_spins_after_scale_in:
  assumes "getSchedulableNodes (Structure_GetValues st) \<noteq> []"
    and "int (length (getSchedulableNodes (Structure_GetValues st))) \<le> counter"
  shows "RoundRobin_Place r (counter, st) = Blocked ''compare-and-swap loop'' (counter, st)"
proof -
  let ?n = "int (length (getSchedulableNodes (Structure_GetValues st)))"
  have "0 < ?n" using assms(1) by simp
  have "roundRobinLoop ?n counter = None"
  proof (cases "roundRobinLoop ?n counter")
    case (Some p)
    then have "counter smod ?n = counter" using roundRobinLoop_SomeD by (cases p) auto
    with smod_lt [OF \<open>0 < ?n\<close>, of counter] assms(2) show ?thesis by simp
  qed
  with assms(1) show ?thesis by (simp add: RoundRobin_Place_def Let_def)
qed

definition demo_node :: "string \<Rightarrow> bool \<Rightarrow> WorkerNode" where
  \<comment> \<open>a node with one core and one unit of memory, for the examples\<close>
  "demo_node name sched = SetSchedulability sched (NewWorkerNode 0
     \<lparr>wc_Name = name, wc_IP = ''10.0.0.1'', wc_Port = ''10010'', wc_CpuCores = 1, wc_Memory = 1\<rparr>)"

definition demo_cluster :: "(string \<times> bool) list \<Rightarrow> NodeStorage" where
  "demo_cluster ns = \<lparr>InternalMap = map (\<lambda>(n, b). (n, demo_node n b)) ns, wlocked = False, rlocks = 0\<rparr>"

lemmas cluster_eval = demo_cluster_def demo_node_def getSchedulableNodes_def GetSchedulability_def
  SetSchedulability_def NewWorkerNode_def Structure_defs

theorem placement_answers_with_schedulable_node_witness:
  "\<not> wlocked (demo_cluster [(''a'', True), (''b'', False)]) \<and>
   rr_ok 0 (demo_cluster [(''a'', True), (''b'', False)]) \<and>
   (\<exists>w counter'. ApplyPlacementPolicy RoundRobin_Place (CreateResourceMap 1 1)
       (0, demo_cluster [(''a'', True), (''b'', False)]) =
     Ret (Some w) (counter', demo_cluster [(''a'', True), (''b'', False)]) \<and> wn_Schedulable w)"
proof -
  let ?st = "demo_cluster [(''a'', True), (''b'', False)]"
  have ok: "\<not> wlocked ?st" "rr_ok 0 ?st" by (simp_all add: rr_ok_def cluster_eval)
  have "\<exists>n \<in> set (Structure_GetValues ?st). wn_Schedulable n" by (simp add: cluster_eval)
  with ok placement_answers_with_schedulable_node [of ?st _ "CreateResourceMap 1 1" 0] show ?thesis
    by (fastforce split: option.splits)
qed


theorem round_robin_spins_after_scale_in_witness:
  "\<exists>w s. RoundRobin_Place (CreateResourceMap 1 1) (0, demo_cluster [(''a'', True), (''b'', True)]) = Ret w s \<and>
     RoundRobin_Place (CreateResourceMap 1 1) (fst s, Structure_Remove ''b'' (snd s)) =
       Blocked ''compare-and-swap loop'' (fst s, Structure_Remove ''b'' (snd s))"
proof -
  let ?st = "demo_cluster [(''a'', True), (''b'', True)]"
  have sn: "getSchedulableNodes (Structure_GetValues ?st) = [demo_node ''a'' True, demo_node ''b'' True]"
    and sn': "getSchedulableNodes (Structure_GetValues (Structure_Remove ''b'' ?st)) = [demo_node ''a'' True]"
    by (simp_all add: cluster_eval)
  have "RoundRobin_Place (CreateResourceMap 1 1) (0, ?st) = Ret (Some (demo_node ''a'' True)) (1, ?st)"
    using RoundRobin_Place_step [of 0 ?st] sn by simp
  moreover have "RoundRobin_Place (CreateResourceMap 1 1) (1, Structure_Remove ''b'' ?st) =
      Blocked ''compare-and-swap loop'' (1, Structure_Remove ''b'' ?st)"
    by (rule round_robin_spins_after_scale_in) (simp_all add: sn')
  ultimately show ?thesis by auto
qed

subsection \<open>Kubernetes\<close>

lemma filterLoop_nil: "filterLoop ms rm None = Some st \<Longrightarrow> st = None"
  by (induction ms) (auto simp: Let_def split: if_splits)

text \<open>
  The Kubernetes policy never places anything: whatever the cluster and the request, it
  panics, on a candidate if there is one, because the set of candidates is a nil interface, and
  otherwise when it asks that nil interface for its members.
\<close>

theorem kubernetes_policy_always_panics:
  "Kubernetes_Place Intn requested s = Panic ''nil pointer dereference'' s"
  using filterLoop_nil [of "Structure_GetMap (snd s)" "kp_resourceMap (fst s)"]
  by (auto simp: Kubernetes_Place_def filterMachines_def prioritizeNodes_def split: option.splits)

lemma selectLoop_le:
  assumes "\<forall>p \<in> set ms. gm_get 0 scores (fst p) \<le> mx"
  shows "selectLoop Intn scores ms sel mx cnt = sel \<or>
    (\<exists>p \<in> set ms. selectLoop Intn scores ms sel mx cnt = Some (snd p) \<and> gm_get 0 scores (fst p) = mx)"
  using assms
proof (induction ms arbitrary: sel cnt)
  case (Cons m ms)
  obtain k w where m: "m = (k, w)" by (cases m)
  have le: "\<forall>p \<in> set ms. gm_get 0 scores (fst p) \<le> mx" using Cons.prems by simp
  have "\<not> mx < gm_get 0 scores k" using Cons.prems m by auto
  with Cons.IH [OF le, of "Some w" "cnt + 1"] Cons.IH [OF le, of sel "cnt + 1"]
    Cons.IH [OF le, of sel cnt] m
  show ?case by auto
qed simp

lemma selectLoop_gt:
  assumes "\<exists>p \<in> set ms. gm_get 0 scores (fst p) > mx"
  shows "\<exists>p \<in> set ms. selectLoop Intn scores ms sel mx cnt = Some (snd p) \<and>
    mx < gm_get 0 scores (fst p) \<and> (\<forall>q \<in> set ms. gm_get 0 scores (fst q) \<le> gm_get 0 scores (fst p))"
  using assms
proof (induction ms arbitrary: sel mx cnt)
  case (Cons m ms)
  obtain k w where m: "m = (k, w)" by (cases m)
  let ?g = "gm_get 0 scores"
  show ?case
  proof (cases "\<exists>p \<in> set ms. ?g (fst p) > max mx (?g k)")
    case True
    obtain sel' cnt' where step: "selectLoop Intn scores (m # ms) sel mx cnt =
        selectLoop Intn scores ms sel' (max mx (?g k)) cnt'"
      using m by (cases "?g k > mx"; cases "?g k = mx") (auto simp: max_def dest: less_imp_le)
    obtain p where p: "p \<in> set ms" "selectLoop Intn scores (m # ms) sel mx cnt = Some (snd p)"
      "max mx (?g k) < ?g (fst p)" "\<forall>q \<in> set ms. ?g (fst q) \<le> ?g (fst p)"
      using Cons.IH [OF True, of sel' cnt'] unfolding step by blast
    then have "mx < ?g (fst p)" and "\<forall>q \<in> set (m # ms). ?g (fst q) \<le> ?g (fst p)"
      using m by auto
    with p(1,2) show ?thesis by (metis list.set_intros(2))
  next
    case False
    then have le: "\<forall>p \<in> set ms. ?g (fst p) \<le> max mx (?g k)" by (meson not_less)
    with Cons.prems m have gt: "?g k > mx" by (auto simp: max_def split: if_splits)
    with le have le': "\<forall>p \<in> set ms. ?g (fst p) \<le> ?g k" by (simp add: max_def less_imp_le)
    have step: "selectLoop Intn scores (m # ms) sel mx cnt = selectLoop Intn scores ms (Some w) (?g k) 1"
      using gt m by simp
    from selectLoop_le [OF le', of Intn "Some w" 1]
    obtain p where p: "p \<in> set (m # ms)" "?g (fst p) = ?g k"
      "selectLoop Intn scores (m # ms) sel mx cnt = Some (snd p)"
      unfolding step using m by fastforce
    have "\<forall>q \<in> set (m # ms). ?g (fst q) \<le> ?g (fst p)" using le' m p(2) by simp
    with p gt show ?thesis by metis
  qed
qed simp


lemma selectLoop_zero:
  assumes "\<forall>p \<in> set ms. gm_get 0 scores (fst p) = 0" and "\<forall>k n. 2 \<le> n \<longrightarrow> Intn k n \<noteq> 0"
    and "1 \<le> cnt"
  shows "selectLoop Intn scores ms None 0 cnt = None"
  using assms(1,3)
proof (induction ms arbitrary: cnt)
  case (Cons m ms)
  then have "2 \<le> cnt + 1" by simp
  with assms(2) have "Intn (fst m) (cnt + 1) \<noteq> 0" by blast
  moreover have "selectLoop Intn scores ms None 0 (cnt + 1) = None"
    using Cons.prems by (intro Cons.IH) auto
  ultimately show ?case using Cons.prems(1) by (cases m) simp
qed simp

text \<open>
  C27. Among the candidates that were scored, one with the highest score is selected, whatever the
  draws are and in whatever order the map is visited, as soon as one score is positive. When
  every score is 0 and no draw hits, nil is returned although there are candidates.
\<close>

theorem select_one_machine_picks_best:
  assumes "\<not> wlocked st" and "Structure_GetMap st \<noteq> []"
  shows "((\<exists>p \<in> set (Structure_GetMap st). gm_get 0 scores (fst p) > 0) \<longrightarrow>
      (\<exists>k w. selectOneMachine Intn scores st = Ret (Some w) st \<and> (k, w) \<in> set (Structure_GetMap st) \<and>
         (\<forall>q \<in> set (Structure_GetMap st). gm_get 0 scores (fst q) \<le> gm_get 0 scores k))) \<and>
    ((\<forall>p \<in> set (Structure_GetMap st). gm_get 0 scores (fst p) = 0) \<longrightarrow>
      (\<forall>k n. 2 \<le> n \<longrightarrow> Intn k n \<noteq> 0) \<longrightarrow> selectOneMachine Intn scores st = Ret None st)"
proof (intro conjI impI)
  have run: "selectOneMachine Intn scores st = Ret (selectLoop Intn scores (Structure_GetMap st) None 0 1) st"
    using assms by (simp add: selectOneMachine_def go_monad Structure_defs)
  show "\<exists>k w. selectOneMachine Intn scores st = Ret (Some w) st \<and> (k, w) \<in> set (Structure_GetMap st) \<and>
         (\<forall>q \<in> set (Structure_GetMap st). gm_get 0 scores (fst q) \<le> gm_get 0 scores k)"
    if pos: "\<exists>p \<in> set (Structure_GetMap st). gm_get 0 scores (fst p) > 0"
  proof -
    obtain p where "p \<in> set (Structure_GetMap st)"
      "selectLoop Intn scores (Structure_GetMap st) None 0 1 = Some (snd p)"
      "\<forall>q \<in> set (Structure_GetMap st). gm_get 0 scores (fst q) \<le> gm_get 0 scores (fst p)"
      using selectLoop_gt [OF pos, of Intn None 1] by blast
    then show ?thesis unfolding run by (intro exI [of _ "fst p"] exI [of _ "snd p"]) simp
  qed
  show "selectOneMachine Intn scores st = Ret None st"
    if "\<forall>p \<in> set (Structure_GetMap st). gm_get 0 scores (fst p) = 0" "\<forall>k n. 2 \<le> n \<longrightarrow> Intn k n \<noteq> 0"
    unfolding run using selectLoop_zero [OF that, of 1] by simp
qed

theorem select_one_machine_picks_best_witness:
  "\<exists>w. selectOneMachine (\<lambda>k n. n - 1) [(''a'', 5), (''b'', 9)] (demo_cluster [(''a'', True), (''b'', True)]) =
     Ret (Some w) (demo_cluster [(''a'', True), (''b'', True)]) \<and> wn_Name w = ''b''"
proof -
  let ?st = "demo_cluster [(''a'', True), (''b'', True)]"
  let ?sc = "[(''a'', 5), (''b'', 9)] :: (string, uint64) gomap"
  have st: "\<not> wlocked ?st"
    and m: "Structure_GetMap ?st = [(''a'', demo_node ''a'' True), (''b'', demo_node ''b'' True)]"
    by (simp_all add: demo_cluster_def Structure_defs)
  have ne: "Structure_GetMap ?st \<noteq> []" by (simp add: m)
  have "\<exists>p \<in> set (Structure_GetMap ?st). gm_get 0 ?sc (fst p) > 0" by (simp add: m gm_get_def)
  then obtain k w where sel: "selectOneMachine (\<lambda>k n. n - 1) ?sc ?st = Ret (Some w) ?st"
    "(k, w) \<in> set (Structure_GetMap ?st)"
    and best: "\<forall>q \<in> set (Structure_GetMap ?st). gm_get 0 ?sc (fst q) \<le> gm_get 0 ?sc k"
    using select_one_machine_picks_best [OF st, of ?sc "\<lambda>k n. n - 1"] ne by blast
  have "gm_get 0 ?sc ''b'' \<le> gm_get 0 ?sc k" using best by (simp add: m)
  with sel(2) have "wn_Name w = ''b''" by (auto simp: m gm_get_def demo_node_def WorkerNode_defs)
  with sel(1) show ?thesis by blast
qed

subsection \<open>Scores\<close>

lemma leastRequestedScore_bound:
  assumes "unat capacity * 100 < 2 ^ 64"
  shows "unat (leastRequestedScore requested capacity) =
      (if requested \<le> capacity then (unat capacity - unat requested) * 100 div unat capacity else 0)"
    and "unat (leastRequestedScore requested capacity) \<le> 100"
proof -
  show eq: "unat (leastRequestedScore requested capacity) =
      (if requested \<le> capacity then (unat capacity - unat requested) * 100 div unat capacity else 0)"
  proof (cases "requested \<le> capacity")
    case True
    have "unat ((capacity - requested) * 100) = (unat capacity - unat requested) * 100"
      using assms True by (subst unat_mult_lem [THEN iffD1]) (auto simp: unat_sub intro: le_less_trans [rotated])
    with True show ?thesis by (simp add: leastRequestedScore_def unat_div)
  qed (simp add: leastRequestedScore_def not_le)
  show "unat (leastRequestedScore requested capacity) \<le> 100"
  proof (cases "unat capacity = 0")
    case False
    then have "(unat capacity - unat requested) * 100 div unat capacity \<le> unat capacity * 100 div unat capacity"
      by (intro div_le_mono mult_le_mono1) simp
    with False show ?thesis unfolding eq by simp
  qed (simp add: eq)
qed

lemma stdOf_two: "stdOf [a, b] = \<bar>a - b\<bar> / 2"
  by (simp add: stdOf_def)

text \<open>The balance score of a node with CPU and memory is between 50 and 100.\<close>

lemma ScoreBalancedAllocation_bound:
  assumes "ScoreBalancedAllocation (CreateResourceMap c m) (CreateResourceMap rc rm) = Some sc"
  shows "50 \<le> unat sc \<and> unat sc \<le> 100"
proof -
  have frac: "fractionOf r a = Some f \<Longrightarrow> 0 \<le> f \<and> f \<le> 1" for r a f
    unfolding fractionOf_def by (auto split: if_splits simp del: unsigned_of_nat of_nat_unat)
  from assms obtain f g where fg: "fractionOf rc c = Some f" "fractionOf rm m = Some g"
    and sc: "sc = word_of_int \<lfloor>(1 - stdOf [f, g]) * 100\<rfloor>"
    by (auto simp: ScoreBalancedAllocation_def ResourceKeys_def CreateResourceMap_def SetCPUCores_def
        SetMemory_def GetByKey_def split: option.splits)
  define x where "x = \<lfloor>(1 - stdOf [f, g]) * 100\<rfloor>"
  have "0 \<le> f" "f \<le> 1" "0 \<le> g" "g \<le> 1" using frac fg by blast+
  then have "50 \<le> x" and "x \<le> 100" by (auto simp: x_def stdOf_two le_floor_iff floor_le_iff abs_if)
  moreover from this have "unat (word_of_int x :: uint64) = nat x"
    by (simp add: unat_eq_nat_uint uint_word_of_int take_bit_int_eq_self)
  ultimately show ?thesis unfolding sc x_def [symmetric] by linarith
qed

section \<open>Eviction removes one endpoint\<close>

lemma without_index_less: "index < i \<Longrightarrow> without_index es i index = es"
  by (induction es arbitrary: i) auto

lemma without_index_remove_nth: "without_index es i (i + j) = remove_nth j es"
proof (induction es arbitrary: i j)
  case (Cons e es)
  show ?case
  proof (cases j)
    case (Suc j')
    then show ?thesis using Cons.IH [of "i + 1" j'] by (simp add: remove_nth_def)
  qed (simp add: without_index_less remove_nth_def)
qed (simp add: remove_nth_def)

lemma EvictionPolicy_nonempty:
  "es \<noteq> [] \<Longrightarrow> EvictionPolicy Intn es = (Some (es ! Intn (length es)), remove_nth (Intn (length es)) es)"
  using without_index_remove_nth [of es 0 "Intn (length es)"] by (simp add: EvictionPolicy_def Let_def)

end
