(* ===== verification/Persistence.thy ===== *)
theory Persistence
  imports Workers "HOL-Library.Sublist"
begin

text \<open>
  \<^verbatim>\<open>internal/control_plane/persistence\<close> and \<^verbatim>\<open>pkg/redis_helpers\<close>: where the control plane keeps what
  it must not forget. The interface \<^verbatim>\<open>PersistenceLayer\<close> is a record of operations on a database
  \<open>'db\<close>; its two implementations are the one on Redis and the empty one. The Redis client library
  and the protobuf and JSON encoders are third-party code: they are the arguments \<open>rc\<close> and \<open>cod\<close>, with
  their documented behaviour in \<open>redis_laws\<close> and \<open>codec_laws\<close>. An error is a string, \<^term>\<open>None\<close> is
  Go's nil error.
\<close>

type_synonym error = string

section \<open>The interface\<close>

record 'db PersistenceLayer =
  pl_StoreDataPlaneInformation :: "DataplaneInformation \<Rightarrow> ('db, error option) go"
  pl_DeleteDataPlaneInformation :: "DataplaneInformation \<Rightarrow> ('db, error option) go"
  pl_GetDataPlaneInformation :: "('db, error + DataplaneInformation list) go"
  pl_StoreWorkerNodeInformation :: "WorkerNodeInformation \<Rightarrow> ('db, error option) go"
  pl_DeleteWorkerNodeInformation :: "string \<Rightarrow> ('db, error option) go"
  pl_GetWorkerNodeInformation :: "('db, error + WorkerNodeInformation list) go"
  pl_StoreServiceInformation :: "ServiceInfo \<Rightarrow> ('db, error option) go"
  pl_DeleteServiceInformation :: "ServiceInfo \<Rightarrow> ('db, error option) go"
  pl_GetServiceInformation :: "('db, error + ServiceInfo list) go"
  pl_SetLeader :: "('db, error option) go"
  pl_StoreEndpoint :: "Endpoint \<Rightarrow> ('db, error option) go"

section \<open>The client library\<close>

text \<open>
  The calls of the Redis client that the code makes. Reads do not change the database. \<open>rc_Scan\<close>
  takes a cursor and a prefix (the code always scans \<open>prefix*\<close>) and answers a page of keys and the
  next cursor.
\<close>

record 'db redis =
  rc_HSet :: "string \<Rightarrow> string \<Rightarrow> string \<Rightarrow> 'db \<Rightarrow> error option \<times> 'db"
  rc_HGetAll :: "string \<Rightarrow> 'db \<Rightarrow> error + (string, string) gomap"
  rc_Del :: "string list \<Rightarrow> 'db \<Rightarrow> error option \<times> 'db"
  rc_Scan :: "uint64 \<Rightarrow> string \<Rightarrow> 'db \<Rightarrow> error + string list \<times> uint64"
  rc_Wait :: "nat \<Rightarrow> 'db \<Rightarrow> error option"
  rc_SlaveOf :: "nat option \<Rightarrow> string \<Rightarrow> string \<Rightarrow> 'db \<Rightarrow> error option \<times> 'db"
    \<comment> \<open>sent to the own instance (\<^term>\<open>None\<close>) or to a replica\<close>

record codec =
  enc_dp :: "DataplaneInformation \<Rightarrow> error + string"
  dec_dp :: "string \<Rightarrow> DataplaneInformation option"
  enc_wn :: "WorkerNodeInformation \<Rightarrow> error + string"
  dec_wn :: "string \<Rightarrow> WorkerNodeInformation option"
  enc_svc :: "ServiceInfo \<Rightarrow> error + string"
  dec_svc :: "string \<Rightarrow> ServiceInfo option"
  enc_ep :: "Endpoint \<Rightarrow> error + string"

section \<open>pkg/redis\_helpers\<close>

text \<open>
  The loop of \<^verbatim>\<open>ScanKeys\<close>, \<^term>\<open>None\<close> if it never ends: it goes on until the cursor is 0 again. The
  inner \<^term>\<open>None\<close> is the panic on an error.
\<close>

partial_function (option) scanLoop ::
  "'db redis \<Rightarrow> 'db \<Rightarrow> string \<Rightarrow> uint64 \<Rightarrow> string list \<Rightarrow> string list option option" where
  "scanLoop rc db pre cursor output =
     (case rc_Scan rc cursor pre db of
        Inl err \<Rightarrow> Some None
      | Inr (keys, cursor') \<Rightarrow>
          if cursor' = 0 then Some (Some (output @ keys))
          else scanLoop rc db pre cursor' (output @ keys))"

definition ScanKeys :: "'db redis \<Rightarrow> string \<Rightarrow> ('db, string list) go" where
  "ScanKeys rc pre db = (case scanLoop rc db pre 0 [] of
       None \<Rightarrow> Blocked ''scan'' db
     | Some None \<Rightarrow> Panic ''scan'' db
     | Some (Some keys) \<Rightarrow> Ret keys db)"

section \<open>The Redis implementation\<close>

abbreviation (input) dataplanePrefix :: string where "dataplanePrefix \<equiv> ''dataplane''"
abbreviation (input) workerPrefix :: string where "workerPrefix \<equiv> ''worker''"
abbreviation (input) servicePrefix :: string where "servicePrefix \<equiv> ''service''"

definition keyOf :: "string \<Rightarrow> string \<Rightarrow> string" where
  \<comment> \<open>\<^verbatim>\<open>fmt.Sprintf("%s:%s", prefix, name)\<close>\<close>
  "keyOf pre name = pre @ '':'' @ name"

record RedisClient =
  rcl_OtherClients :: nat
  rcl_Addr :: string
  rcl_Port :: string

definition WaitForQuorumWrite :: "'db redis \<Rightarrow> RedisClient \<Rightarrow> ('db, error option) go" where
  "WaitForQuorumWrite rc driver db = Ret (rc_Wait rc (rcl_OtherClients driver) db) db"

definition storeData :: "'db redis \<Rightarrow> RedisClient \<Rightarrow> string \<Rightarrow> error + string \<Rightarrow> ('db, error option) go" where
  \<comment> \<open>the common body of the Store operations: the encoded data, \<^verbatim>\<open>HSet\<close>, then wait for the replicas\<close>
  "storeData rc driver key encoded db =
     (case encoded of
        Inl err \<Rightarrow> Ret (Some err) db
      | Inr data \<Rightarrow>
          (case rc_HSet rc key ''data'' data db of
             (Some err, db') \<Rightarrow> Ret (Some err) db'
           | (None, db') \<Rightarrow> WaitForQuorumWrite rc driver db'))"

definition deleteKeys :: "'db redis \<Rightarrow> RedisClient \<Rightarrow> string list \<Rightarrow> ('db, error option) go" where
  "deleteKeys rc driver keys db =
     (case rc_Del rc keys db of
        (Some err, db') \<Rightarrow> Ret (Some err) db'
      | (None, db') \<Rightarrow> WaitForQuorumWrite rc driver db')"

fun readAll :: "'db redis \<Rightarrow> (string \<Rightarrow> 'a option) \<Rightarrow> string list \<Rightarrow> 'a list \<Rightarrow> ('db, error + 'a list) go" where
  \<comment> \<open>the common loop of the Get operations; data that does not decode is a panic\<close>
  "readAll rc decode [] acc db = Ret (Inr acc) db"
| "readAll rc decode (key # keys) acc db =
     (case rc_HGetAll rc key db of
        Inl err \<Rightarrow> Ret (Inl err) db
      | Inr flds \<Rightarrow>
          (case decode (gm_get [] flds ''data'') of
             None \<Rightarrow> Panic ''unmarshal'' db
           | Some x \<Rightarrow> readAll rc decode keys (acc @ [x]) db))"

definition Redis_StoreDataPlaneInformation ::
  "'db redis \<Rightarrow> codec \<Rightarrow> RedisClient \<Rightarrow> DataplaneInformation \<Rightarrow> ('db, error option) go" where
  "Redis_StoreDataPlaneInformation rc cod driver info =
     storeData rc driver (keyOf dataplanePrefix (di_Address info)) (enc_dp cod info)"

definition Redis_DeleteDataPlaneInformation ::
  "'db redis \<Rightarrow> RedisClient \<Rightarrow> DataplaneInformation \<Rightarrow> ('db, error option) go" where
  "Redis_DeleteDataPlaneInformation rc driver info =
     deleteKeys rc driver [keyOf dataplanePrefix (di_Address info)]"

definition Redis_GetDataPlaneInformation ::
  "'db redis \<Rightarrow> codec \<Rightarrow> ('db, error + DataplaneInformation list) go" where
  "Redis_GetDataPlaneInformation rc cod =
     gbind (ScanKeys rc dataplanePrefix) (\<lambda>keys. readAll rc (dec_dp cod) keys [])"

definition Redis_StoreWorkerNodeInformation ::
  "'db redis \<Rightarrow> codec \<Rightarrow> RedisClient \<Rightarrow> WorkerNodeInformation \<Rightarrow> ('db, error option) go" where
  "Redis_StoreWorkerNodeInformation rc cod driver info =
     storeData rc driver (keyOf workerPrefix (wi_Name info)) (enc_wn cod info)"

definition Redis_DeleteWorkerNodeInformation ::
  "'db redis \<Rightarrow> RedisClient \<Rightarrow> string \<Rightarrow> ('db, error option) go" where
  "Redis_DeleteWorkerNodeInformation rc driver name =
     deleteKeys rc driver [keyOf workerPrefix name, ''data'']"

definition Redis_GetWorkerNodeInformation ::
  "'db redis \<Rightarrow> codec \<Rightarrow> ('db, error + WorkerNodeInformation list) go" where
  "Redis_GetWorkerNodeInformation rc cod =
     gbind (ScanKeys rc workerPrefix) (\<lambda>keys. readAll rc (dec_wn cod) keys [])"

definition Redis_StoreServiceInformation ::
  "'db redis \<Rightarrow> codec \<Rightarrow> RedisClient \<Rightarrow> ServiceInfo \<Rightarrow> ('db, error option) go" where
  "Redis_StoreServiceInformation rc cod driver info =
     storeData rc driver (keyOf servicePrefix (si_Name info)) (enc_svc cod info)"

definition Redis_DeleteServiceInformation ::
  "'db redis \<Rightarrow> RedisClient \<Rightarrow> ServiceInfo \<Rightarrow> ('db, error option) go" where
  "Redis_DeleteServiceInformation rc driver info =
     deleteKeys rc driver [keyOf servicePrefix (si_Name info), ''data'']"

definition Redis_GetServiceInformation :: "'db redis \<Rightarrow> codec \<Rightarrow> ('db, error + ServiceInfo list) go" where
  "Redis_GetServiceInformation rc cod =
     gbind (ScanKeys rc servicePrefix) (\<lambda>keys. readAll rc (dec_svc cod) keys [])"

fun slaveAll :: "'db redis \<Rightarrow> RedisClient \<Rightarrow> nat list \<Rightarrow> 'db \<Rightarrow> 'db" where
  \<comment> \<open>errors of the replicas are only logged\<close>
  "slaveAll rc driver [] db = db"
| "slaveAll rc driver (i # is) db =
     slaveAll rc driver is (snd (rc_SlaveOf rc (Some i) (rcl_Addr driver) (rcl_Port driver) db))"

definition Redis_SetLeader :: "'db redis \<Rightarrow> RedisClient \<Rightarrow> ('db, error option) go" where
  "Redis_SetLeader rc driver db =
     (case rc_SlaveOf rc None ''no'' ''one'' db of
        (Some err, db') \<Rightarrow> Ret (Some err) db'
      | (None, db') \<Rightarrow> Ret None (slaveAll rc driver [0..<rcl_OtherClients driver] db'))"

definition Redis_StoreEndpoint ::
  "'db redis \<Rightarrow> codec \<Rightarrow> RedisClient \<Rightarrow> Endpoint \<Rightarrow> ('db, error option) go" where
  "Redis_StoreEndpoint rc cod driver endpoint =
     storeData rc driver (keyOf workerPrefix (ep_SandboxID endpoint)) (enc_ep cod endpoint)"

definition redisPersistence :: "'db redis \<Rightarrow> codec \<Rightarrow> RedisClient \<Rightarrow> 'db PersistenceLayer" where
  "redisPersistence rc cod driver = \<lparr>
     pl_StoreDataPlaneInformation = Redis_StoreDataPlaneInformation rc cod driver,
     pl_DeleteDataPlaneInformation = Redis_DeleteDataPlaneInformation rc driver,
     pl_GetDataPlaneInformation = Redis_GetDataPlaneInformation rc cod,
     pl_StoreWorkerNodeInformation = Redis_StoreWorkerNodeInformation rc cod driver,
     pl_DeleteWorkerNodeInformation = Redis_DeleteWorkerNodeInformation rc driver,
     pl_GetWorkerNodeInformation = Redis_GetWorkerNodeInformation rc cod,
     pl_StoreServiceInformation = Redis_StoreServiceInformation rc cod driver,
     pl_DeleteServiceInformation = Redis_DeleteServiceInformation rc driver,
     pl_GetServiceInformation = Redis_GetServiceInformation rc cod,
     pl_SetLeader = Redis_SetLeader rc driver,
     pl_StoreEndpoint = Redis_StoreEndpoint rc cod driver\<rparr>"

section \<open>The empty implementation\<close>

definition EmptyPersistence :: "unit PersistenceLayer" where
  "EmptyPersistence = \<lparr>
     pl_StoreDataPlaneInformation = (\<lambda>_. gret None),
     pl_DeleteDataPlaneInformation = (\<lambda>_. gret None),
     pl_GetDataPlaneInformation = gret (Inr []),
     pl_StoreWorkerNodeInformation = (\<lambda>_. gret None),
     pl_DeleteWorkerNodeInformation = (\<lambda>_. gret None),
     pl_GetWorkerNodeInformation = gret (Inr []),
     pl_StoreServiceInformation = (\<lambda>_. gret None),
     pl_DeleteServiceInformation = (\<lambda>_. gret None),
     pl_GetServiceInformation = gret (Inr []),
     pl_SetLeader = gret None,
     pl_StoreEndpoint = (\<lambda>_. gret None)\<rparr>"


section \<open>Documented behaviour of the libraries\<close>

text \<open>
  \<open>redis_laws rc ks view\<close>: for the keys \<open>ks db\<close> and the hashes \<open>view db\<close> of a database, \<^verbatim>\<open>HSET\<close> sets
  one field, \<^verbatim>\<open>DEL\<close> removes keys, \<^verbatim>\<open>HGETALL\<close> answers the fields of a hash, and a full iteration of
  \<^verbatim>\<open>SCAN\<close> answers every matching key, some perhaps more than once, in pages of any size.
\<close>

fun scan_pages :: "'db redis \<Rightarrow> 'db \<Rightarrow> string \<Rightarrow> uint64 \<Rightarrow> string list list \<Rightarrow> bool" where
  "scan_pages rc db pre c [] = False"
| "scan_pages rc db pre c [page] = (rc_Scan rc c pre db = Inr (page, 0))"
| "scan_pages rc db pre c (page # page' # pages) =
     (\<exists>c'. c' \<noteq> 0 \<and> rc_Scan rc c pre db = Inr (page, c') \<and> scan_pages rc db pre c' (page' # pages))"

definition redis_laws ::
  "'db redis \<Rightarrow> ('db \<Rightarrow> string set) \<Rightarrow> ('db \<Rightarrow> string \<Rightarrow> string \<rightharpoonup> string) \<Rightarrow> bool" where
  "redis_laws rc ks view \<longleftrightarrow>
     (\<forall>k f v db db'. rc_HSet rc k f v db = (None, db') \<longrightarrow>
        ks db' = insert k (ks db) \<and> view db' = (view db)(k := (view db k)(f \<mapsto> v))) \<and>
     (\<forall>dels db db'. rc_Del rc dels db = (None, db') \<longrightarrow>
        ks db' = ks db - set dels \<and> (\<forall>k. k \<notin> set dels \<longrightarrow> view db' k = view db k)) \<and>
     (\<forall>k db flds. rc_HGetAll rc k db = Inr flds \<longrightarrow> map_of flds = view db k) \<and>
     (\<forall>pre db. \<exists>pages. scan_pages rc db pre 0 pages \<and> set (concat pages) = {k \<in> ks db. prefix pre k})"

definition codec_laws :: "('a \<Rightarrow> error + string) \<Rightarrow> (string \<Rightarrow> 'a option) \<Rightarrow> bool" where
  "codec_laws enc decode \<longleftrightarrow> (\<forall>x data. enc x = Inr data \<longrightarrow> decode data = Some x)"

lemma scanLoop_pages:
  "scan_pages rc db pre c pages \<Longrightarrow> scanLoop rc db pre c acc = Some (Some (acc @ concat pages))"
proof (induction pages arbitrary: c acc rule: induct_list012)
  case (2 page)
  then show ?case by (subst scanLoop.simps) simp
next
  case (3 page page' pages)
  then obtain c' where "c' \<noteq> 0" "rc_Scan rc c pre db = Inr (page, c')" "scan_pages rc db pre c' (page' # pages)"
    by auto
  with "3.IH"(2) [of c' "acc @ page"] show ?case by (subst scanLoop.simps) simp
qed simp

lemma ScanKeys_returns:
  assumes "redis_laws rc ks view"
  shows "\<exists>keys. ScanKeys rc pre db = Ret keys db \<and> set keys = {k \<in> ks db. prefix pre k}"
proof -
  obtain pages where "scan_pages rc db pre 0 pages" "set (concat pages) = {k \<in> ks db. prefix pre k}"
    using assms unfolding redis_laws_def by meson
  then show ?thesis by (auto simp: ScanKeys_def scanLoop_pages)
qed

section \<open>Tables\<close>

text \<open>
  What the database holds under one prefix, as a table from names to values. The three kinds of
  records the control plane stores are three such tables.
\<close>

definition table :: "('db \<Rightarrow> string set) \<Rightarrow> ('db \<Rightarrow> string \<Rightarrow> string \<rightharpoonup> string) \<Rightarrow> string \<Rightarrow>
    ('a \<Rightarrow> error + string) \<Rightarrow> 'db \<Rightarrow> (string \<rightharpoonup> 'a) \<Rightarrow> bool" where
  "table ks view pre enc db T \<longleftrightarrow>
     (\<forall>k \<in> ks db. prefix pre k \<longrightarrow> (\<exists>name x. k = keyOf pre name \<and> T name = Some x)) \<and>
     (\<forall>name x. T name = Some x \<longrightarrow> keyOf pre name \<in> ks db \<and>
        (\<exists>data. enc x = Inr data \<and> view db (keyOf pre name) ''data'' = Some data))"

lemma keyOf_inj [simp]: "keyOf pre a = keyOf pre b \<longleftrightarrow> a = b"
  by (simp add: keyOf_def)

lemma prefix_keyOf [simp]: "prefix pre (keyOf pre a)"
  by (simp add: keyOf_def)

lemma tableD:
  assumes "table ks view pre enc db T"
  shows "k \<in> ks db \<Longrightarrow> prefix pre k \<Longrightarrow> \<exists>name. k = keyOf pre name \<and> T name \<noteq> None"
    and "T name = Some x \<Longrightarrow> keyOf pre name \<in> ks db \<and>
        (\<exists>data. enc x = Inr data \<and> view db (keyOf pre name) ''data'' = Some data)"
  using assms unfolding table_def by blast+

lemma tableI:
  assumes "\<And>k. k \<in> ks db \<Longrightarrow> prefix pre k \<Longrightarrow> \<exists>name. k = keyOf pre name \<and> T name \<noteq> None"
    and "\<And>name x. T name = Some x \<Longrightarrow> keyOf pre name \<in> ks db \<and>
        (\<exists>data. enc x = Inr data \<and> view db (keyOf pre name) ''data'' = Some data)"
  shows "table ks view pre enc db T"
  using assms unfolding table_def by blast

lemma table_store:
  assumes laws: "redis_laws rc ks view" and t: "table ks view pre enc db T"
    and "storeData rc driver (keyOf pre name) (enc x) db = Ret None db'"
  shows "table ks view pre enc db' (T(name \<mapsto> x))"
proof -
  obtain data where enc: "enc x = Inr data" and h: "rc_HSet rc (keyOf pre name) ''data'' data db = (None, db')"
    using assms(3) by (auto simp: storeData_def WaitForQuorumWrite_def split: sum.splits prod.splits option.splits)
  have d: "ks db' = insert (keyOf pre name) (ks db)"
    "view db' = (view db)(keyOf pre name := (view db (keyOf pre name))(''data'' \<mapsto> data))"
    using laws h unfolding redis_laws_def by blast+
  show ?thesis
  proof (rule tableI)
    fix k assume "k \<in> ks db'" "prefix pre k"
    then show "\<exists>n. k = keyOf pre n \<and> (T(name \<mapsto> x)) n \<noteq> None"
      using tableD(1) [OF t, of k] d(1) by (metis fun_upd_apply insert_iff option.distinct(1))
  next
    fix n y assume "(T(name \<mapsto> x)) n = Some y"
    then show "keyOf pre n \<in> ks db' \<and> (\<exists>data. enc y = Inr data \<and> view db' (keyOf pre n) ''data'' = Some data)"
      using tableD(2) [OF t, of n y] d enc by (cases "n = name") auto
  qed
qed

lemma table_delete:
  assumes laws: "redis_laws rc ks view" and t: "table ks view pre enc db T"
    and "deleteKeys rc driver (keyOf pre name # others) db = Ret None db'"
    and other: "\<forall>k \<in> set others. \<not> prefix pre k"
  shows "table ks view pre enc db' (T(name := None))"
proof -
  have h: "rc_Del rc (keyOf pre name # others) db = (None, db')"
    using assms(3) by (auto simp: deleteKeys_def WaitForQuorumWrite_def split: prod.splits option.splits)
  have d: "ks db' = ks db - set (keyOf pre name # others)"
    "\<And>k. k \<notin> set (keyOf pre name # others) \<Longrightarrow> view db' k = view db k"
    using laws h unfolding redis_laws_def by blast+
  have kept: "keyOf pre n \<notin> set (keyOf pre name # others)" if "n \<noteq> name" for n
    using that other by auto
  show ?thesis
  proof (rule tableI)
    fix k assume "k \<in> ks db'" "prefix pre k"
    then show "\<exists>n. k = keyOf pre n \<and> (T(name := None)) n \<noteq> None"
      using tableD(1) [OF t, of k] d(1) by (metis DiffE fun_upd_apply list.set_intros(1))
  next
    fix n y assume "(T(name := None)) n = Some y"
    then show "keyOf pre n \<in> ks db' \<and> (\<exists>data. enc y = Inr data \<and> view db' (keyOf pre n) ''data'' = Some data)"
      using tableD(2) [OF t, of n y] d kept [of n] by (cases "n = name") auto
  qed
qed

lemma readAll_table:
  assumes laws: "redis_laws rc ks view" and t: "table ks view pre enc db T" and "codec_laws enc decode"
    and reads: "\<forall>k. \<exists>flds. rc_HGetAll rc k db = Inr flds"
    and keys: "\<forall>k \<in> set keys. k \<in> ks db \<and> prefix pre k"
  shows "\<exists>xs. readAll rc decode keys acc db = Ret (Inr (acc @ xs)) db \<and>
     set xs = {x. \<exists>name. keyOf pre name \<in> set keys \<and> T name = Some x}"
  using keys
proof (induction keys arbitrary: acc)
  case (Cons k keys)
  then obtain name x where k: "k = keyOf pre name" "T name = Some x" using t unfolding table_def by force
  then obtain data where data: "enc x = Inr data" "view db k ''data'' = Some data"
    using t unfolding table_def by blast
  obtain flds where f: "rc_HGetAll rc k db = Inr flds" using reads by blast
  then have "map_of flds = view db k" using laws unfolding redis_laws_def by blast
  then have "decode (gm_get [] flds ''data'') = Some x"
    using data assms(3) by (simp add: gm_get_def codec_laws_def)
  moreover obtain xs where "readAll rc decode keys (acc @ [x]) db = Ret (Inr ((acc @ [x]) @ xs)) db"
    "set xs = {x. \<exists>name. keyOf pre name \<in> set keys \<and> T name = Some x}"
    using Cons.IH [of "acc @ [x]"] Cons.prems by auto
  ultimately show ?case using f k by (intro exI [of _ "x # xs"]) auto
qed simp

lemma table_read:
  assumes "redis_laws rc ks view" and t: "table ks view pre enc db T" and "codec_laws enc decode"
    and "\<forall>k. \<exists>flds. rc_HGetAll rc k db = Inr flds"
  shows "\<exists>xs. gbind (ScanKeys rc pre) (\<lambda>keys. readAll rc decode keys []) db = Ret (Inr xs) db \<and> set xs = ran T"
proof -
  obtain keys where k: "ScanKeys rc pre db = Ret keys db" "set keys = {k \<in> ks db. prefix pre k}"
    using ScanKeys_returns [OF assms(1)] by blast
  obtain xs where "readAll rc decode keys [] db = Ret (Inr ([] @ xs)) db"
    "set xs = {x. \<exists>name. keyOf pre name \<in> set keys \<and> T name = Some x}"
    using readAll_table [OF assms, of keys "[]"] k(2) by auto
  moreover have "{x. \<exists>name. keyOf pre name \<in> set keys \<and> T name = Some x} = ran T"
    using t k(2) unfolding table_def ran_def by fastforce
  ultimately show ?thesis using k(1) by (simp add: gbind_def)
qed


section \<open>Registered services survive\<close>

datatype service_op = StoreService ServiceInfo | DeleteService ServiceInfo

fun run_service_ops :: "'db PersistenceLayer \<Rightarrow> service_op list \<Rightarrow> ('db, error option) go" where
  \<comment> \<open>a sequence of operations, given up at the first error\<close>
  "run_service_ops pl [] db = Ret None db"
| "run_service_ops pl (op # ops) db =
     gbind (case op of StoreService s \<Rightarrow> pl_StoreServiceInformation pl s
                     | DeleteService s \<Rightarrow> pl_DeleteServiceInformation pl s)
       (\<lambda>e. case e of None \<Rightarrow> run_service_ops pl ops | Some err \<Rightarrow> gret (Some err)) db"

fun service_table :: "service_op list \<Rightarrow> (string \<rightharpoonup> ServiceInfo) \<Rightarrow> (string \<rightharpoonup> ServiceInfo)" where
  "service_table [] T = T"
| "service_table (StoreService s # ops) T = service_table ops (T(si_Name s \<mapsto> s))"
| "service_table (DeleteService s # ops) T = service_table ops (T(si_Name s := None))"

lemma run_service_ops_table:
  assumes "redis_laws rc ks view" and "table ks view servicePrefix (enc_svc cod) db T"
    and "run_service_ops (redisPersistence rc cod driver) ops db = Ret None db'"
  shows "table ks view servicePrefix (enc_svc cod) db' (service_table ops T)"
  using assms(2,3)
proof (induction ops arbitrary: db T)
  case (Cons op ops)
  show ?case
  proof (cases op)
    case (StoreService s)
    with Cons.prems(2) obtain db1 where run:
      "storeData rc driver (keyOf servicePrefix (si_Name s)) (enc_svc cod s) db = Ret None db1"
      "run_service_ops (redisPersistence rc cod driver) ops db1 = Ret None db'"
      by (auto elim!: gbind_RetE split: option.splits
          simp: redisPersistence_def Redis_StoreServiceInformation_def gret_def)
    from Cons.IH [OF table_store [OF assms(1) Cons.prems(1) run(1)] run(2)] StoreService show ?thesis by (simp add: fun_upd_def)
  next
    case (DeleteService s)
    with Cons.prems(2) obtain db1 where run:
      "deleteKeys rc driver [keyOf servicePrefix (si_Name s), ''data''] db = Ret None db1"
      "run_service_ops (redisPersistence rc cod driver) ops db1 = Ret None db'"
      by (auto elim!: gbind_RetE split: option.splits
          simp: redisPersistence_def Redis_DeleteServiceInformation_def gret_def)
    from Cons.IH [OF table_delete [OF assms(1) Cons.prems(1) run(1)] run(2)] DeleteService show ?thesis by (simp add: fun_upd_def)
  qed
qed simp

text \<open>
  C12. Services survive a restart: after any sequence of successful store and delete operations on a
  database that held no service, reading the services back returns (it neither loops nor panics)
  and answers exactly the services stored and not deleted since, each in its last version.
\<close>

theorem services_round_trip:
  assumes "redis_laws rc ks view" and "codec_laws (enc_svc cod) (dec_svc cod)"
    and "\<forall>k \<in> ks db. \<not> prefix servicePrefix k"
    and "run_service_ops (redisPersistence rc cod driver) ops db = Ret None db'"
    and "\<forall>k. \<exists>flds. rc_HGetAll rc k db' = Inr flds"
  shows "\<exists>infos. pl_GetServiceInformation (redisPersistence rc cod driver) db' = Ret (Inr infos) db' \<and>
     set infos = ran (service_table ops Map.empty)"
proof -
  have "table ks view servicePrefix (enc_svc cod) db Map.empty" using assms(3) by (auto simp: table_def)
  from table_read [OF assms(1) run_service_ops_table [OF assms(1) this assms(4)] assms(2,5)]
  show ?thesis by (simp add: redisPersistence_def Redis_GetServiceInformation_def)
qed

text \<open>An instance of the libraries: Redis as a map in memory, which scans in one page.\<close>

type_synonym memory = "(string, (string, string) gomap) gomap"

definition memory_redis :: "memory redis" where
  "memory_redis = \<lparr>
     rc_HSet = (\<lambda>k f v db. (None, gm_set k (gm_set f v (gm_get [] db k)) db)),
     rc_HGetAll = (\<lambda>k db. Inr (gm_get [] db k)),
     rc_Del = (\<lambda>dels db. (None, filter (\<lambda>p. fst p \<notin> set dels) db)),
     rc_Scan = (\<lambda>c pre db. Inr (filter (prefix pre) (map fst db), 0)),
     rc_Wait = (\<lambda>_ _. None),
     rc_SlaveOf = (\<lambda>_ _ _ db. (None, db))\<rparr>"

lemma memory_redis_laws: "redis_laws memory_redis (\<lambda>db. fst ` set db) (\<lambda>db k. map_of (gm_get [] db k))"
  unfolding redis_laws_def
proof (intro conjI allI impI)
  fix dels :: "string list" and db db' :: memory and k
  assume "rc_Del memory_redis dels db = (None, db')"
  then have db': "db' = filter (\<lambda>p. fst p \<notin> set dels) db" by (simp add: memory_redis_def)
  then show "fst ` set db' = fst ` set db - set dels" by auto
  assume "k \<notin> set dels"
  then have "map_of db' k = map_of db k" unfolding db' by (induction db) auto
  then show "map_of (gm_get [] db' k) = map_of (gm_get [] db k)" by (simp add: gm_get_def)
next
  fix pre and db :: memory
  show "\<exists>pages. scan_pages memory_redis db pre 0 pages \<and> set (concat pages) = {k \<in> fst ` set db. prefix pre k}"
    by (intro exI [of _ "[filter (prefix pre) (map fst db)]"]) (auto simp: memory_redis_def)
qed (auto simp: memory_redis_def dom_update fun_eq_iff)

definition demo_service :: "string \<Rightarrow> ServiceInfo" where
  "demo_service name = \<lparr>si_Name = name, si_Image = ''img'', si_RequestedCpu = 1, si_RequestedMemory = 64,
     si_PortForwarding = \<lparr>pm_HostPort = 0, pm_GuestPort = 80, pm_Protocol = L4Protocol_TCP\<rparr>,
     si_AutoscalingConfig = \<lparr>ScalingUpperBound = 10, ScalingLowerBound = 0, PanicThresholdPercentage = 2,
       MaxScaleUpRate = 1000, MaxScaleDownRate = 2, ContainerConcurrency = 1,
       ContainerConcurrencyTargetPercentage = 70, StableWindowWidthSeconds = 60,
       PanicWindowWidthSeconds = 6, ScalingPeriodSeconds = 2, ScalingMethod = 0\<rparr>\<rparr>"

definition demo_codec :: codec where
  "demo_codec = \<lparr>
     enc_dp = (\<lambda>_. Inl ''unsupported''), dec_dp = (\<lambda>_. None),
     enc_wn = (\<lambda>_. Inl ''unsupported''), dec_wn = (\<lambda>_. None),
     enc_svc = (\<lambda>s. if s = demo_service (si_Name s) then Inr (si_Name s) else Inl ''unsupported''),
     dec_svc = (\<lambda>d. Some (demo_service d)),
     enc_ep = (\<lambda>e. Inr (''{'' @ ep_SandboxID e @ ''}''))\<rparr>"

theorem services_round_trip_witness:
  "\<exists>infos. pl_GetServiceInformation (redisPersistence memory_redis demo_codec
        \<lparr>rcl_OtherClients = 2, rcl_Addr = [], rcl_Port = []\<rparr>)
        [(''service:g'', [(''data'', ''g'')])] = Ret (Inr infos) [(''service:g'', [(''data'', ''g'')])] \<and>
     set infos = ran [''g'' \<mapsto> demo_service ''g'']"
proof -
  let ?d = "\<lparr>rcl_OtherClients = 2, rcl_Addr = [], rcl_Port = []\<rparr>"
  let ?ops = "[StoreService (demo_service ''f''), StoreService (demo_service ''g''), DeleteService (demo_service ''f'')]"
  have name [simp]: "si_Name (demo_service n) = n" for n by (simp add: demo_service_def)
  have codec: "codec_laws (enc_svc demo_codec) (dec_svc demo_codec)"
    by (auto simp: codec_laws_def demo_codec_def split: if_splits)
  have run: "run_service_ops (redisPersistence memory_redis demo_codec ?d) ?ops [] =
      Ret None [(''service:g'', [(''data'', ''g'')])]"
    by (simp add: redisPersistence_def Redis_StoreServiceInformation_def Redis_DeleteServiceInformation_def
        storeData_def deleteKeys_def WaitForQuorumWrite_def memory_redis_def demo_codec_def keyOf_def
        gbind_def gm_get_def)
  have "service_table ?ops Map.empty = [''g'' \<mapsto> demo_service ''g'']"
    by (auto simp: fun_eq_iff)
  with services_round_trip [OF memory_redis_laws codec _ run] show ?thesis
    by (simp add: memory_redis_def)
qed



end
