(* ===== verification/Configuration.thy ===== *)
theory Configuration
  imports Go_Base
begin

text \<open>
  \<^verbatim>\<open>pkg/config\<close> and the constants of \<^verbatim>\<open>pkg/utils\<close>: the configuration records of the three daemons, how the
  path of a configuration file is taken apart, and the readers. The library that finds the file and
  decodes it (viper) is the argument of the readers.
\<close>

section \<open>Constants\<close>

text \<open>Durations are nanoseconds.\<close>

definition TolerateHeartbeatMisses :: int where "TolerateHeartbeatMisses = 3"
definition HeartbeatInterval :: int where "HeartbeatInterval = 5 * 1000000000"

section \<open>Records\<close>

record ProfilerConfig =
  prof_Enable :: bool
  prof_Mutex :: bool

record RedisConf =
  redis_Address :: string
  redis_DockerAddress :: string
  redis_Password :: string
  redis_Replicas :: "string list"
  redis_Db :: int
  redis_FullPersistence :: bool

record ControlPlaneConfig =
  cpc_Port :: string
  cpc_Replicas :: "string list"
  cpc_RegistrationServer :: string
  cpc_RegistrationServerReplicas :: "string list"
  cpc_Verbosity :: string
  cpc_TraceOutputFolder :: string
  cpc_PlacementPolicy :: string
  cpc_Persistence :: bool
  cpc_Profiler :: ProfilerConfig
  cpc_RedisConf :: RedisConf
  cpc_Reconstruct :: bool
  cpc_LoadBalancerAddress :: string
  cpc_RemoveWorkerNode :: bool
  cpc_RemoveDataplane :: bool
  cpc_PrecreateSnapshots :: bool
  cpc_EndpointPersistence :: bool

record DataPlaneConfig =
  dpc_DataPlaneIp :: string
  dpc_ControlPlaneAddress :: "string list"
  dpc_PortProxy :: string
  dpc_PortProxyRead :: string
  dpc_PortGRPC :: string
  dpc_Verbosity :: string
  dpc_TraceOutputFolder :: string
  dpc_LoadBalancingPolicy :: string
  dpc_Async :: bool
  dpc_RedisConf :: RedisConf
  dpc_PersistRequests :: bool
  dpc_NumberRetries :: int

record WorkerNodeConfig =
  wnc_WorkerNodeIP :: string
  wnc_ControlPlaneAddress :: "string list"
  wnc_Port :: int
  wnc_Verbosity :: string
  wnc_CRIType :: string
  wnc_CRIPath :: string
  wnc_CNIConfigPath :: string
  wnc_PrefetchImage :: bool
  wnc_FirecrackerKernel :: string
  wnc_FirecrackerFileSystem :: string
  wnc_FirecrackerInternalIPPrefix :: string
  wnc_FirecrackerExposedIPPrefix :: string
  wnc_FirecrackerVMDebugMode :: bool
  wnc_FirecrackerUseSnapshots :: bool
  wnc_FirecrackerNetworkPoolSize :: int

section \<open>Paths\<close>

text \<open>What the code uses of \<^verbatim>\<open>path/filepath\<close> and \<^verbatim>\<open>strings\<close>.\<close>

definition filepath_Split :: "string \<Rightarrow> string \<times> string" where
  \<comment> \<open>the path up to and including the last slash, and the rest\<close>
  "filepath_Split path =
     (let file = rev (takeWhile (\<lambda>c. c \<noteq> CHR ''/'') (rev path))
      in (take (length path - length file) path, file))"

definition filepath_Ext :: "string \<Rightarrow> string" where
  \<comment> \<open>the suffix from the last dot of the last element on, empty if it has no dot\<close>
  "filepath_Ext path =
     (let file = snd (filepath_Split path);
          ext = rev (takeWhile (\<lambda>c. c \<noteq> CHR ''.'') (rev file))
      in if CHR ''.'' \<in> set file then CHR ''.'' # ext else [])"

definition TrimSuffix :: "string \<Rightarrow> string \<Rightarrow> string" where
  "TrimSuffix s suf =
     (if length suf \<le> length s \<and> drop (length s - length suf) s = suf
      then take (length s - length suf) s else s)"

definition parseConfigPath :: "string \<Rightarrow> string \<times> string \<times> string" where
  "parseConfigPath configPath =
     (let (configFolder, configName) = filepath_Split configPath;
          configName' = TrimSuffix configName (filepath_Ext configName);
          configType = filter (\<lambda>c. c \<noteq> CHR ''.'') (filepath_Ext configPath)
      in (if configFolder = [] then ''./'' else configFolder, configName', configType))"

section \<open>Readers\<close>

text \<open>
  \<open>read folder name type\<close> is what viper finds, \<open>unmarshal\<close> how it decodes it; both may answer an error.
\<close>

definition setupViper :: "(string \<Rightarrow> string \<Rightarrow> string \<Rightarrow> string + 'v) \<Rightarrow> string \<Rightarrow> string + 'v" where
  "setupViper read configPath =
     (let (configFolder, configName, configType) = parseConfigPath configPath
      in read configFolder configName configType)"

definition readWith :: "(string \<Rightarrow> string \<Rightarrow> string \<Rightarrow> string + 'v) \<Rightarrow> ('v \<Rightarrow> string + 'c) \<Rightarrow> string \<Rightarrow> string + 'c" where
  \<comment> \<open>the common part of the readers\<close>
  "readWith read unmarshal configPath =
     (case setupViper read configPath of Inl err \<Rightarrow> Inl err | Inr v \<Rightarrow> unmarshal v)"

definition ReadControlPlaneConfiguration ::
  "(string \<Rightarrow> string \<Rightarrow> string \<Rightarrow> string + 'v) \<Rightarrow> ('v \<Rightarrow> string + ControlPlaneConfig) \<Rightarrow> string \<Rightarrow>
   (unit, string + ControlPlaneConfig) go" where
  "ReadControlPlaneConfiguration read unmarshal configPath =
     (case readWith read unmarshal configPath of
        Inl err \<Rightarrow> gret (Inl err)
      | Inr c \<Rightarrow>
          if length (cpc_Replicas c) mod 2 = 1 then gpanic ''even number of control planes''
          else gret (Inr c))"

definition ReadDataPlaneConfiguration ::
  "(string \<Rightarrow> string \<Rightarrow> string \<Rightarrow> string + 'v) \<Rightarrow> ('v \<Rightarrow> string + DataPlaneConfig) \<Rightarrow> string \<Rightarrow> string \<Rightarrow>
   string + DataPlaneConfig" where
  \<comment> \<open>\<open>localIP\<close>: the address of the host\<close>
  "ReadDataPlaneConfiguration read unmarshal localIP configPath =
     (case readWith read unmarshal configPath of
        Inl err \<Rightarrow> Inl err
      | Inr c \<Rightarrow> Inr (if dpc_DataPlaneIp c = ''dynamic'' then c\<lparr>dpc_DataPlaneIp := localIP\<rparr> else c))"

definition ReadWorkedNodeConfiguration ::
  "(string \<Rightarrow> string \<Rightarrow> string \<Rightarrow> string + 'v) \<Rightarrow> ('v \<Rightarrow> string + WorkerNodeConfig) \<Rightarrow> string \<Rightarrow>
   string + WorkerNodeConfig" where
  "ReadWorkedNodeConfiguration read unmarshal configPath = readWith read unmarshal configPath"

section \<open>Facts\<close>

lemma takeWhile_rev_free: "c \<notin> set ys \<Longrightarrow> takeWhile (\<lambda>x. x \<noteq> c) (rev ys) = rev ys"
  by (induction ys rule: rev_induct) auto

lemma takeWhile_rev_sep:
  assumes "c \<notin> set ys"
  shows "takeWhile (\<lambda>x. x \<noteq> c) (rev (xs @ c # ys)) = rev ys"
  using assms by (induction ys rule: rev_induct) auto

lemma filepath_Split_slash:
  assumes "CHR ''/'' \<notin> set file"
  shows "filepath_Split (dir @ ''/'' @ file) = (dir @ ''/'', file)"
  using takeWhile_rev_sep [OF assms, of dir] by (simp add: filepath_Split_def Let_def)

lemma filepath_Split_free:
  assumes "CHR ''/'' \<notin> set file"
  shows "filepath_Split file = ([], file)"
  unfolding filepath_Split_def takeWhile_rev_free [OF assms] by simp

lemma filepath_Ext_dot:
  assumes "snd (filepath_Split path) = name @ ''.'' @ ext" and "CHR ''.'' \<notin> set ext"
  shows "filepath_Ext path = ''.'' @ ext"
  using takeWhile_rev_sep [OF assms(2), of name] assms(1) by (simp add: filepath_Ext_def)

lemma TrimSuffix_append [simp]: "TrimSuffix (xs @ ys) ys = xs"
  by (simp add: TrimSuffix_def)

text \<open>
  C34. The path of a configuration file is taken apart correctly: folder, name and extension put
  together again by the caller's separators give back exactly these three parts, and a file given
  without a folder is looked for in the current one.
\<close>

theorem parse_config_path_round_trip:
  assumes "CHR ''/'' \<notin> set name" and "CHR ''/'' \<notin> set ext" and "CHR ''.'' \<notin> set ext"
  shows "parseConfigPath (dir @ ''/'' @ name @ ''.'' @ ext) = (dir @ ''/'', name, ext) \<and>
    parseConfigPath (name @ ''.'' @ ext) = (''./'', name, ext)"
proof -
  let ?file = "name @ ''.'' @ ext"
  have free: "CHR ''/'' \<notin> set ?file" using assms by simp
  note split = filepath_Split_slash [OF free] filepath_Split_free [OF free]
  have ext: "filepath_Ext (dir @ ''/'' @ ?file) = ''.'' @ ext" "filepath_Ext ?file = ''.'' @ ext"
    by (rule filepath_Ext_dot [of _ name]; simp only: split snd_conv assms not_False_eq_True)+
  have filt: "filter (\<lambda>c. c \<noteq> CHR ''.'') (''.'' @ ext) = ext"
    using assms(3) by (induction ext) auto
  show ?thesis
    unfolding parseConfigPath_def split Let_def prod.case ext filt TrimSuffix_append by simp
qed

theorem parse_config_path_round_trip_witness:
  "parseConfigPath ''cmd/master_node/config.cluster.yaml'' = (''cmd/master_node/'', ''config.cluster'', ''yaml'') \<and>
   parseConfigPath ''config.yaml'' = (''./'', ''config'', ''yaml'')"
  using parse_config_path_round_trip [of "''config.cluster''" "''yaml''" "''cmd/master_node''"]
    parse_config_path_round_trip [of "''config''" "''yaml''"] by simp

end
