(* ===== verification/Scaling.thy ===== *)
theory Scaling
  imports Autoscaling Placement Persistence Configuration "HOL-Library.Multiset"
begin

text \<open>
  How a function is scaled: \<^verbatim>\<open>autoscaling/controller.go\<close> (the loop that computes a desired scale) and
  \<^verbatim>\<open>scaling_loop.go\<close> (the loop that creates and removes sandboxes until it is reached), with the part of
  the control plane's state they work on. What happens outside of the control plane is the record
  \<open>world\<close>: the persistence layer, the placement policy, the answers of worker nodes and data planes,
  the clock and the random numbers. Every call to another machine is recorded in \<open>cp_calls\<close>, and the
  answer to a call may depend on how many calls came before it.
\<close>

section \<open>Channels\<close>

text \<open>
  \<^verbatim>\<open>make(chan int)\<close> is not buffered: a value in \<open>ch_sent\<close> belongs to a sender that waits for the
  receiver. Closing the channel under a waiting sender makes the sender panic.
\<close>

record chan =
  ch_sent :: "int list"
  ch_closed :: bool

definition chan_make :: chan where
  "chan_make = \<lparr>ch_sent = [], ch_closed = False\<rparr>"

definition chan_send :: "int \<Rightarrow> (chan, unit) go" where
  "chan_send v ch =
     (if ch_closed ch then Panic ''send on closed channel'' ch
      else Ret () (ch\<lparr>ch_sent := ch_sent ch @ [v]\<rparr>))"

definition chan_close :: "(chan, unit) go" where
  "chan_close ch =
     (if ch_closed ch then Panic ''close of closed channel'' ch
      else if ch_sent ch \<noteq> [] then Panic ''send on closed channel'' (ch\<lparr>ch_closed := True\<rparr>)
      else Ret () (ch\<lparr>ch_closed := True\<rparr>))"

definition chan_try :: "chan \<Rightarrow> ((int \<times> bool) \<times> chan) option" where
  \<comment> \<open>a receive that does not wait; a closed channel is always ready and gives the zero value\<close>
  "chan_try ch = (case ch_sent ch of
       v # vs \<Rightarrow> Some ((v, True), ch\<lparr>ch_sent := vs\<rparr>)
     | [] \<Rightarrow> if ch_closed ch then Some ((0, False), ch) else None)"

definition chan_recv :: "(chan, int \<times> bool) go" where
  "chan_recv ch = (case chan_try ch of Some (r, ch') \<Rightarrow> Ret r ch' | None \<Rightarrow> Blocked ''receive'' ch)"

lemmas chan_defs = chan_make_def chan_send_def chan_close_def chan_try_def chan_recv_def

section \<open>autoscaling/controller.go\<close>

record PFStateController =
  EndpointLock :: bool
  pf_ServiceName :: string
  AutoscalingRunning :: int32
  DesiredStateChannel :: chan
  ScalingMetadata :: AutoscalingMetadata
  Endpoints :: "Endpoint list"
  pf_Period :: int
  StopCh :: "nat option" \<comment> \<open>how many stop signals the channel of size 1 holds; \<^term>\<open>None\<close> for nil\<close>

definition NewPerFunctionStateController :: "chan \<Rightarrow> ServiceInfo \<Rightarrow> int \<Rightarrow> PFStateController" where
  "NewPerFunctionStateController scalingChannel serviceInfo period =
     \<lparr>EndpointLock = False, pf_ServiceName = si_Name serviceInfo, AutoscalingRunning = 0,
      DesiredStateChannel = scalingChannel,
      ScalingMetadata = fresh_metadata (si_AutoscalingConfig serviceInfo),
      Endpoints = [], pf_Period = period, StopCh = None\<rparr>"

definition Controller_Start :: "(PFStateController, bool) go" where
  \<comment> \<open>\<^term>\<open>True\<close> means that a goroutine with the scaling loop has been started\<close>
  "Controller_Start as =
     (if AutoscalingRunning as = 0 then Ret True (as\<lparr>AutoscalingRunning := 1, StopCh := Some 0\<rparr>)
      else Ret False as)"

definition Controller_Stop :: "(PFStateController, unit) go" where
  "Controller_Stop as =
     (if AutoscalingRunning as \<noteq> 0 then
        (case StopCh as of
           Some 0 \<Rightarrow> Ret () (as\<lparr>StopCh := Some 1\<rparr>)
         | _ \<Rightarrow> Blocked ''send to StopCh'' as)
      else Ret () as)"

definition stopAutoscalingLoop :: "(PFStateController, unit) go" where
  "stopAutoscalingLoop as =
     (case StopCh as of
        None \<Rightarrow> Panic ''close of nil channel'' (as\<lparr>AutoscalingRunning := 0\<rparr>)
      | Some _ \<Rightarrow> Ret () (as\<lparr>AutoscalingRunning := 0, StopCh := None\<rparr>))"

abbreviation on_metadata :: "(AutoscalingMetadata, 'a) go \<Rightarrow> (PFStateController, 'a) go" where
  "on_metadata m \<equiv> gzoom ScalingMetadata (\<lambda>x as. as\<lparr>ScalingMetadata := x\<rparr>) m"

abbreviation on_channel :: "(chan, 'a) go \<Rightarrow> (PFStateController, 'a) go" where
  "on_channel m \<equiv> gzoom DesiredStateChannel (\<lambda>x as. as\<lparr>DesiredStateChannel := x\<rparr>) m"

definition scalingCycle :: "(int \<Rightarrow> int \<Rightarrow> int \<Rightarrow> int) \<Rightarrow> int \<Rightarrow> bool \<Rightarrow> (PFStateController, bool) go" where
  "scalingCycle clamp now isScaleFromZero =
     gbind (on_metadata (KnativeScaling clamp now isScaleFromZero)) (\<lambda>desiredScale.
       gthen (on_channel (chan_send desiredScale))
         (if desiredScale = 0 then gthen stopAutoscalingLoop (gret True) else gret False))"

text \<open>
  The loop for a sequence of outcomes of its \<^verbatim>\<open>select\<close>: the ticker (at a time) or the stop channel. The
  result tells whether the goroutine has returned.
\<close>

datatype loop_event = Tick int | StopReceived

fun scalingSelect :: "(int \<Rightarrow> int \<Rightarrow> int \<Rightarrow> int) \<Rightarrow> loop_event list \<Rightarrow> (PFStateController, bool) go" where
  "scalingSelect clamp [] = gret False"
| "scalingSelect clamp (Tick now # evs) =
     gbind (scalingCycle clamp now False)
       (\<lambda>toStop. if toStop then gret True else scalingSelect clamp evs)"
| "scalingSelect clamp (StopReceived # evs) =
     gbind (gget StopCh) (\<lambda>stop. case stop of
        Some (Suc n) \<Rightarrow> gthen (gmodify (\<lambda>as. as\<lparr>StopCh := Some n\<rparr>)) (gthen stopAutoscalingLoop (gret True))
      | _ \<Rightarrow> gblock ''receive from StopCh'')"

definition ScalingLoop :: "(int \<Rightarrow> int \<Rightarrow> int \<Rightarrow> int) \<Rightarrow> int \<Rightarrow> loop_event list \<Rightarrow> (PFStateController, bool) go" where
  "ScalingLoop clamp now evs =
     gbind (scalingCycle clamp now True) (\<lambda>toStop. if toStop then gret True else scalingSelect clamp evs)"

section \<open>The state of the control plane\<close>

record ServiceInfoStorage =
  ss_ServiceInfo :: ServiceInfo
  ss_Controller :: PFStateController
  ss_StartTime :: int

datatype rpc =
    RpcAddDeployment string ServiceInfo
  | RpcDeleteDeployment string ServiceInfo
  | RpcUpdateEndpointList string DeploymentEndpointPatch
  | RpcDrainSandbox string DeploymentEndpointPatch
  | RpcCreateSandbox string ServiceInfo
  | RpcDeleteSandbox string SandboxID
  | RpcListEndpoints string

record ('db, 'p) ControlPlane =
  DataPlaneConnections :: "(string, DataPlaneConnectionInfo) Structure"
  NIStorage :: NodeStorage
  SIStorage :: "(string, ServiceInfoStorage) Structure"
  cp_PlacementPolicy :: 'p
  cp_db :: 'db
  cp_Config :: ControlPlaneConfig
  cp_calls :: "rpc list"
  cp_traces :: "string list" \<comment> \<open>sandboxes reported to the cold start tracing\<close>
  cp_next :: nat \<comment> \<open>the address of the next endpoint\<close>

record ('db, 'p) world =
  w_pl :: "'db PersistenceLayer"
  w_Place :: "'p PlacementPolicy"
  w_now :: int
  w_err :: "nat \<Rightarrow> rpc \<Rightarrow> bool" \<comment> \<open>whether a call fails\<close>
  w_create :: "nat \<Rightarrow> string \<Rightarrow> ServiceInfo \<Rightarrow> SandboxCreationStatus option"
  w_list :: "nat \<Rightarrow> string \<Rightarrow> ProtoEndpoint list option"
  w_dial :: "string \<Rightarrow> bool"
  w_Intn :: "nat \<Rightarrow> nat \<Rightarrow> nat"

type_synonym ('db, 'p) service_state = "ServiceInfoStorage \<times> ('db, 'p) ControlPlane"

abbreviation on_dp :: "((string, DataPlaneConnectionInfo) Structure, 'a) go \<Rightarrow> (('db, 'p) ControlPlane, 'a) go" where
  "on_dp m \<equiv> gzoom DataPlaneConnections (\<lambda>x c. c\<lparr>DataPlaneConnections := x\<rparr>) m"

abbreviation on_ni :: "(NodeStorage, 'a) go \<Rightarrow> (('db, 'p) ControlPlane, 'a) go" where
  "on_ni m \<equiv> gzoom NIStorage (\<lambda>x c. c\<lparr>NIStorage := x\<rparr>) m"

abbreviation on_si :: "((string, ServiceInfoStorage) Structure, 'a) go \<Rightarrow> (('db, 'p) ControlPlane, 'a) go" where
  "on_si m \<equiv> gzoom SIStorage (\<lambda>x c. c\<lparr>SIStorage := x\<rparr>) m"

abbreviation on_db :: "('db, 'a) go \<Rightarrow> (('db, 'p) ControlPlane, 'a) go" where
  "on_db m \<equiv> gzoom cp_db (\<lambda>x c. c\<lparr>cp_db := x\<rparr>) m"

abbreviation on_policy :: "('p \<times> NodeStorage, 'a) go \<Rightarrow> (('db, 'p) ControlPlane, 'a) go" where
  "on_policy m \<equiv> gzoom (\<lambda>c. (cp_PlacementPolicy c, NIStorage c))
     (\<lambda>x c. c\<lparr>cp_PlacementPolicy := fst x, NIStorage := snd x\<rparr>) m"

abbreviation on_cp :: "(('db, 'p) ControlPlane, 'a) go \<Rightarrow> (('db, 'p) service_state, 'a) go" where
  "on_cp m \<equiv> gzoom snd (\<lambda>c s. (fst s, c)) m"

abbreviation on_controller :: "(PFStateController, 'a) go \<Rightarrow> (('db, 'p) service_state, 'a) go" where
  "on_controller m \<equiv> gzoom (\<lambda>s. ss_Controller (fst s))
     (\<lambda>x s. ((fst s)\<lparr>ss_Controller := x\<rparr>, snd s)) m"

definition on_node :: "string \<Rightarrow> (WorkerNode, 'a) go \<Rightarrow> (('db, 'p) ControlPlane, 'a) go" where
  \<comment> \<open>a method of the node that \<^verbatim>\<open>NIStorage\<close> holds under a name; nil if there is none\<close>
  "on_node name m c = (case Structure_Get (NIStorage c) name of
       None \<Rightarrow> Panic ''nil pointer dereference'' c
     | Some n \<Rightarrow> gzoom (\<lambda>_. n) (\<lambda>n' c. c\<lparr>NIStorage := Structure_Set name n' (NIStorage c)\<rparr>) m c)"

abbreviation on_endpoint_map :: "((Endpoint, string) Structure, 'a) go \<Rightarrow> (WorkerNode, 'a) go" where
  "on_endpoint_map m \<equiv> gzoom wn_endpointMap (\<lambda>x n. n\<lparr>wn_endpointMap := x\<rparr>) m"

definition cp_call :: "('db, 'p) world \<Rightarrow> rpc \<Rightarrow> (('db, 'p) ControlPlane, bool) go" where
  \<comment> \<open>makes a call and tells whether it failed\<close>
  "cp_call w r c = Ret (w_err w (length (cp_calls c)) r) (c\<lparr>cp_calls := cp_calls c @ [r]\<rparr>)"

definition dp_call :: "('db, 'p) world \<Rightarrow> DataPlaneConnectionInfo \<Rightarrow> rpc \<Rightarrow> (('db, 'p) ControlPlane, bool) go" where
  \<comment> \<open>a call over the connection to a data plane, which is nil before it has been initialized\<close>
  "dp_call w dp r = (if dc_Iface dp then cp_call w r else gpanic ''nil pointer dereference'')"


section \<open>scaling\_loop.go\<close>

definition GetAllURLs :: "ServiceInfoStorage \<Rightarrow> string list" where
  "GetAllURLs ss = map ep_URL (Endpoints (ss_Controller ss))"

definition prepareEndpointInfo :: "Endpoint list \<Rightarrow> EndpointInfo list" where
  "prepareEndpointInfo endpoints = map (\<lambda>e. \<lparr>ei_ID = ep_SandboxID e, ei_URL = ep_URL e\<rparr>) endpoints"

definition prepareCurrentEndpointInfoList :: "ServiceInfoStorage \<Rightarrow> EndpointInfo list" where
  "prepareCurrentEndpointInfoList ss =
     map (\<lambda>e. \<lparr>ei_ID = ep_SandboxID e, ei_URL = ep_URL e\<rparr>) (Endpoints (ss_Controller ss))"

definition excludeEndpoints :: "(Endpoint, unit) gomap \<Rightarrow> PFStateController \<Rightarrow> PFStateController" where
  "excludeEndpoints toExclude as =
     as\<lparr>Endpoints := filter (\<lambda>e. map_of toExclude e = None) (Endpoints as)\<rparr>"

definition isDownScalingDisabled :: "int \<Rightarrow> ServiceInfoStorage \<Rightarrow> bool" where
  "isDownScalingDisabled now ss \<longleftrightarrow>
     now - ss_StartTime ss <
       StableWindowWidthSeconds (AutoscalingConfig (ScalingMetadata (ss_Controller ss))) * 1000000000"

definition addActualScale :: "int \<Rightarrow> PFStateController \<Rightarrow> PFStateController" where
  \<comment> \<open>\<^verbatim>\<open>atomic.AddInt64\<close>\<close>
  "addActualScale d as = as\<lparr>ScalingMetadata :=
     (ScalingMetadata as)\<lparr>ActualScale := ActualScale (ScalingMetadata as) + d\<rparr>\<rparr>"

text \<open>The goroutines that call the data planes run to completion here one after the other.\<close>

definition singlethreadUpdateEndpoints ::
  "('db, 'p) world \<Rightarrow> ServiceInfo \<Rightarrow> EndpointInfo list \<Rightarrow> (('db, 'p) ControlPlane, unit) go" where
  "singlethreadUpdateEndpoints w info endpoints =
     gbind (gget (\<lambda>c. Structure_GetMap (DataPlaneConnections c))) (\<lambda>dps.
       gthen (grange dps (\<lambda>(key, dp).
           gthen (dp_call w dp (RpcUpdateEndpointList (dc_IP dp)
                    \<lparr>patch_Service = Some info, patch_Endpoints = Some endpoints\<rparr>)) (gret (None :: unit option))))
         (gret ()))"

definition updateEndpoints ::
  "('db, 'p) world \<Rightarrow> ServiceInfo \<Rightarrow> EndpointInfo list \<Rightarrow> (('db, 'p) ControlPlane, unit) go" where
  "updateEndpoints w info endpoints =
     gthen (on_dp Structure_Lock)
       (gdefer (on_dp Structure_Unlock) (singlethreadUpdateEndpoints w info endpoints))"

definition drainSandbox ::
  "('db, 'p) world \<Rightarrow> ServiceInfo \<Rightarrow> (Endpoint, unit) gomap \<Rightarrow> (('db, 'p) ControlPlane, unit) go" where
  \<comment> \<open>the lock only covers the start of the goroutines\<close>
  "drainSandbox w info toEvict =
     gthen (on_dp Structure_Lock)
       (gbind (gget (\<lambda>c. Structure_GetMap (DataPlaneConnections c))) (\<lambda>dps.
          gthen (on_dp Structure_Unlock)
            (gthen (grange dps (\<lambda>(key, dp).
                gthen (dp_call w dp (RpcDrainSandbox (dc_IP dp)
                         \<lparr>patch_Service = Some info,
                          patch_Endpoints = Some (prepareEndpointInfo (map fst toEvict))\<rparr>))
                  (gret (None :: unit option)))) (gret ()))))"

text \<open>
  A sandbox was created or listed over the connection of its node, so that connection is there;
  the answer is only logged.
\<close>

definition deleteSandbox :: "('db, 'p) world \<Rightarrow> Endpoint \<Rightarrow> (('db, 'p) ControlPlane, unit) go" where
  "deleteSandbox w key = (case ep_Node key of
       None \<Rightarrow> gret ()
     | Some name \<Rightarrow> gthen (cp_call w (RpcDeleteSandbox name
                       \<lparr>sid_ID = ep_SandboxID key, sid_HostPort = ep_HostPort key\<rparr>)) (gret ()))"

definition removeEndpointFromWNStruct :: "Endpoint \<Rightarrow> (('db, 'p) ControlPlane, unit) go" where
  "removeEndpointFromWNStruct e = (case ep_Node e of
       None \<Rightarrow> gret ()
     | Some name \<Rightarrow> on_node name (on_endpoint_map
         (gthen Structure_Lock (gdefer Structure_Unlock (gmodify (Structure_Remove e))))))"

text \<open>One goroutine of \<^verbatim>\<open>doUpscaling\<close>.\<close>

definition createSandbox ::
  "('db, 'p) world \<Rightarrow> WorkerNode \<Rightarrow> ServiceInfo \<Rightarrow> (('db, 'p) ControlPlane, SandboxCreationStatus option) go" where
  "createSandbox w node info c =
     (case WorkerNode_CreateSandbox (w_create w (length (cp_calls c)) (wn_Name node)) info node of
        Ret resp _ \<Rightarrow> Ret resp (c\<lparr>cp_calls := cp_calls c @ [RpcCreateSandbox (wn_Name node) info]\<rparr>)
      | Panic e _ \<Rightarrow> Panic e c
      | Blocked e _ \<Rightarrow> Blocked e c)"

definition newEndpoint :: "nat \<Rightarrow> WorkerNode \<Rightarrow> string \<Rightarrow> int \<Rightarrow> Endpoint" where
  "newEndpoint addr node sandboxID port =
     \<lparr>ep_addr = addr, ep_SandboxID = sandboxID, ep_URL = wn_IP node @ '':'' @ itoa port,
      ep_Node = Some (wn_Name node), ep_HostPort = port\<rparr>"

definition addNewEndpoint :: "('db, 'p) world \<Rightarrow> Endpoint \<Rightarrow> string \<Rightarrow> (('db, 'p) service_state, unit) go" where
  \<comment> \<open>what follows a successful creation: book-keeping and propagation\<close>
  "addNewEndpoint w e nodeName =
     gbind (gget (\<lambda>s. ss_ServiceInfo (fst s))) (\<lambda>info.
       gthen (on_cp (gmodify (\<lambda>c. c\<lparr>cp_next := cp_next c + 1\<rparr>)))
      (gthen (on_cp (gthen (on_ni Structure_RLock) (gthen (on_ni Structure_RUnlock)
                (on_node nodeName (on_endpoint_map (Structure_AtomicSet e (si_Name info)))))))
      (gthen (on_controller (gmodify (\<lambda>as. as\<lparr>Endpoints := Endpoints as @ [e]\<rparr>)))
      (gthen (on_cp (updateEndpoints w info (prepareEndpointInfo [e])))
             (on_cp (gmodify (\<lambda>c. c\<lparr>cp_traces := cp_traces c @ [ep_SandboxID e]\<rparr>)))))))"

definition handleCreation ::
  "('db, 'p) world \<Rightarrow> WorkerNode \<Rightarrow> SandboxCreationStatus option \<Rightarrow> (('db, 'p) service_state, unit) go" where
  \<comment> \<open>what follows the answer of the worker node\<close>
  "handleCreation w node resp = (case resp of
       None \<Rightarrow> on_controller (gmodify (addActualScale (-1)))
     | Some r \<Rightarrow>
         if \<not> sc_Success r then on_controller (gmodify (addActualScale (-1)))
         else (case sc_PortMappings r of
             None \<Rightarrow> gpanic ''nil pointer dereference''
           | Some pm \<Rightarrow>
               gbind (gget (\<lambda>s. newEndpoint (cp_next (snd s)) node (sc_ID r) (pm_HostPort pm))) (\<lambda>e.
               gbind (gget (\<lambda>s. cpc_EndpointPersistence (cp_Config (snd s)))) (\<lambda>persist.
               gthen (gwhen persist (gthen (on_cp (on_db (pl_StoreEndpoint (w_pl w) e))) (gret ())))
                 (addNewEndpoint w e (wn_Name node))))))"

definition upscaleOne :: "('db, 'p) world \<Rightarrow> (('db, 'p) service_state, unit) go" where
  "upscaleOne w =
     gbind (gget (\<lambda>s. ss_ServiceInfo (fst s))) (\<lambda>info.
     gbind (on_cp (on_policy (ApplyPlacementPolicy (w_Place w)
              (CreateResourceMap (si_RequestedCpu info) (si_RequestedMemory info))))) (\<lambda>node.
     case node of
       None \<Rightarrow> on_controller (gmodify (addActualScale (-1)))
     | Some n \<Rightarrow> gbind (on_cp (createSandbox w n info)) (handleCreation w n)))"

fun doUpscaling :: "('db, 'p) world \<Rightarrow> nat \<Rightarrow> (('db, 'p) service_state, unit) go" where
  \<comment> \<open>the goroutines one after the other\<close>
  "doUpscaling w 0 = gret ()"
| "doUpscaling w (Suc toCreateCount) = gthen (upscaleOne w) (doUpscaling w toCreateCount)"

fun evictLoop :: "(nat \<Rightarrow> nat \<Rightarrow> nat) \<Rightarrow> nat \<Rightarrow> nat \<Rightarrow> Endpoint list \<Rightarrow> (Endpoint, unit) gomap \<Rightarrow>
    (Endpoint, unit) gomap" where
  \<comment> \<open>the loop of \<^verbatim>\<open>doDownscaling\<close>; the draw number \<open>i\<close> and how many rounds are left\<close>
  "evictLoop Intn i 0 currentState toEvict = toEvict"
| "evictLoop Intn i (Suc n) currentState toEvict =
     (case EvictionPolicy (Intn i) currentState of
        (None, newState) \<Rightarrow> evictLoop Intn (i + 1) n currentState toEvict
      | (Some endpoint, newState) \<Rightarrow> evictLoop Intn (i + 1) n newState (gm_set endpoint () toEvict))"

definition doDownscaling ::
  "('db, 'p) world \<Rightarrow> int \<Rightarrow> int \<Rightarrow> (('db, 'p) service_state, (Endpoint, unit) gomap) go" where
  \<comment> \<open>the result is what the goroutine started at the end, \<open>evictGoroutine\<close>, works on\<close>
  "doDownscaling w actualScale desiredCount =
     gbind (gget (\<lambda>s. evictLoop (w_Intn w) 0 (nat (actualScale - desiredCount))
              (Endpoints (ss_Controller (fst s))) [])) (\<lambda>toEvict.
       gthen (on_controller (gmodify (excludeEndpoints toEvict))) (gret toEvict))"

definition evictGoroutine ::
  "('db, 'p) world \<Rightarrow> ServiceInfo \<Rightarrow> (Endpoint, unit) gomap \<Rightarrow> (('db, 'p) ControlPlane, unit) go" where
  "evictGoroutine w info toEvict =
     gthen (drainSandbox w info toEvict)
       (gthen (grange (map fst toEvict) (\<lambda>victim.
           gthen (deleteSandbox w victim)
             (gthen (removeEndpointFromWNStruct victim) (gret (None :: unit option))))) (gret ()))"

text \<open>
  The inner loop of \<^verbatim>\<open>ScalingControllerLoop\<close>, which takes values from the channel until there is none
  waiting; \<^term>\<open>None\<close> if it never ends.
\<close>

partial_function (option) drainChannel :: "chan \<Rightarrow> int \<times> bool \<Rightarrow> ((int \<times> bool) \<times> chan) option" where
  "drainChannel ch latest = (case chan_try ch of
       None \<Rightarrow> Some (latest, ch)
     | Some (r, ch') \<Rightarrow> drainChannel ch' r)"

definition drainDesired :: "int \<times> bool \<Rightarrow> (chan, int \<times> bool) go" where
  "drainDesired latest ch = (case drainChannel ch latest of
       None \<Rightarrow> Blocked ''the draining loop never ends'' ch
     | Some (r, ch') \<Rightarrow> Ret r ch')"

definition EndpointLock_Lock :: "(PFStateController, unit) go" where
  "EndpointLock_Lock as =
     (if EndpointLock as then Blocked ''EndpointLock'' as else Ret () (as\<lparr>EndpointLock := True\<rparr>))"

definition EndpointLock_Unlock :: "(PFStateController, unit) go" where
  "EndpointLock_Unlock as =
     (if EndpointLock as then Ret () (as\<lparr>EndpointLock := False\<rparr>)
      else Panic ''unlock of unlocked mutex'' as)"

definition setActualScale :: "int \<Rightarrow> PFStateController \<Rightarrow> PFStateController" where
  "setActualScale d as = as\<lparr>ScalingMetadata := (ScalingMetadata as)\<lparr>ActualScale := d\<rparr>\<rparr>"

definition rescale :: "('db, 'p) world \<Rightarrow> int \<Rightarrow> int \<Rightarrow> (('db, 'p) service_state, (Endpoint, unit) gomap) go" where
  \<comment> \<open>the body of an iteration under the endpoint lock\<close>
  "rescale w actualScale desiredCount =
     gbind (gget (\<lambda>s. isDownScalingDisabled (w_now w) (fst s))) (\<lambda>disabled.
       if actualScale < desiredCount
       then gthen (doUpscaling w (nat (desiredCount - actualScale))) (gret [])
       else if \<not> disabled \<and> actualScale > desiredCount then doDownscaling w actualScale desiredCount
       else gret [])"

definition ScalingControllerIteration ::
  "('db, 'p) world \<Rightarrow> (('db, 'p) service_state, (Endpoint, unit) gomap \<times> bool) go" where
  \<comment> \<open>one iteration of \<^verbatim>\<open>ScalingControllerLoop\<close>: what is to be evicted and whether the loop goes on\<close>
  "ScalingControllerIteration w =
     gbind (on_controller (on_channel (gbind chan_recv drainDesired))) (\<lambda>(desiredCount, isLoopRunning).
     gbind (gget (\<lambda>s. ActualScale (ScalingMetadata (ss_Controller (fst s))))) (\<lambda>actualScale.
       gthen (on_controller (gmodify (setActualScale desiredCount)))
      (gthen (on_controller EndpointLock_Lock)
      (gbind (if \<not> isLoopRunning then doDownscaling w actualScale 0 else rescale w actualScale desiredCount)
         (\<lambda>toEvict. gthen (on_controller EndpointLock_Unlock) (gret (toEvict, isLoopRunning)))))))"


section \<open>Calls and book-keeping\<close>

lemma dp_call_connected: "dc_Iface dp \<Longrightarrow> dp_call w dp r = cp_call w r"
  by (simp add: dp_call_def)

lemma grange_dp_calls:
  assumes "\<forall>p \<in> set dps. dc_Iface (snd p)"
  shows "grange dps (\<lambda>(key, dp). gthen (dp_call w dp (f dp)) (gret None)) c =
     Ret None (c\<lparr>cp_calls := cp_calls c @ map (f \<circ> snd) dps\<rparr>)"
  using assms
proof (induction dps arbitrary: c)
  case (Cons p dps)
  then show ?case
    by (cases p) (simp add: dp_call_connected cp_call_def gbind_def gthen_def gret_def)
qed (simp add: gret_def)

definition dps_ready :: "(string, DataPlaneConnectionInfo) Structure \<Rightarrow> bool" where
  \<comment> \<open>no goroutine holds the lock and every connection is established\<close>
  "dps_ready st \<longleftrightarrow> unlocked st \<and> (\<forall>p \<in> set (InternalMap st). dc_Iface (snd p))"

definition endpoint_updates :: "ServiceInfo \<Rightarrow> EndpointInfo list \<Rightarrow> (string, DataPlaneConnectionInfo) Structure \<Rightarrow> rpc list" where
  "endpoint_updates info eps st = map ((\<lambda>dp. RpcUpdateEndpointList (dc_IP dp)
      \<lparr>patch_Service = Some info, patch_Endpoints = Some eps\<rparr>) \<circ> snd) (InternalMap st)"

lemma singlethreadUpdateEndpoints_connected:
  assumes "\<forall>p \<in> set (InternalMap (DataPlaneConnections c)). dc_Iface (snd p)"
  shows "singlethreadUpdateEndpoints w info eps c =
     Ret () (c\<lparr>cp_calls := cp_calls c @ endpoint_updates info eps (DataPlaneConnections c)\<rparr>)"
  unfolding singlethreadUpdateEndpoints_def gbind_def gget_def
  by (simp add: gthen_apply [of "grange _ _"] Structure_GetMap_def grange_dp_calls [OF assms]
      endpoint_updates_def gret_def)

lemma updateEndpoints_ready:
  assumes "dps_ready (DataPlaneConnections c)"
  shows "updateEndpoints w info eps c =
     Ret () (c\<lparr>cp_calls := cp_calls c @ endpoint_updates info eps (DataPlaneConnections c)\<rparr>)"
proof -
  let ?l = "c\<lparr>DataPlaneConnections := (DataPlaneConnections c)\<lparr>wlocked := True\<rparr>\<rparr>"
  have lock: "on_dp Structure_Lock c = Ret () ?l"
    using assms by (simp add: dps_ready_def unlocked_def gzoom_def Structure_Lock_def)
  have body: "singlethreadUpdateEndpoints w info eps ?l =
      Ret () (?l\<lparr>cp_calls := cp_calls c @ endpoint_updates info eps (DataPlaneConnections c)\<rparr>)"
    using assms by (subst singlethreadUpdateEndpoints_connected) (auto simp: dps_ready_def endpoint_updates_def)
  have "wlocked (DataPlaneConnections c) = False" using assms by (simp add: dps_ready_def unlocked_def)
  then show ?thesis
    unfolding updateEndpoints_def gthen_def gbind_def lock
    by (simp add: gdefer_def body gbind_def gret_def gzoom_def Structure_Unlock_def)
qed

text \<open>Nodes that can be worked with: registered under their own name, connected, and with free locks.\<close>

definition node_ready :: "string \<times> WorkerNode \<Rightarrow> bool" where
  "node_ready p \<longleftrightarrow> wn_Name (snd p) = fst p \<and> wn_wnConnection (snd p) \<and> unlocked (wn_endpointMap (snd p))"

definition nodes_ready :: "NodeStorage \<Rightarrow> bool" where
  "nodes_ready st \<longleftrightarrow> \<not> wlocked st \<and> gm_wf (InternalMap st) \<and> (\<forall>p \<in> set (InternalMap st). node_ready p)"

lemma map_snd_gm_set:
  "map_of m k = Some v \<Longrightarrow> f v' = f v \<Longrightarrow> map (f \<circ> snd) (gm_set k v' m) = map (f \<circ> snd) m"
  by (induction m) (auto split: if_splits)

lemma schedulable_set:
  assumes "Structure_Get st k = Some n" and "wn_Schedulable n' = wn_Schedulable n"
  shows "map wn_Schedulable (Structure_GetValues (Structure_Set k n' st)) =
     map wn_Schedulable (Structure_GetValues st)"
  using map_snd_gm_set [of "InternalMap st" k n wn_Schedulable n'] assms
  by (simp add: Structure_defs)

lemma map_fst_gm_set: "map_of m k = Some v \<Longrightarrow> map fst (gm_set k v' m) = map fst m"
  by (induction m) (auto split: if_splits)

lemma GetKeys_set:
  "Structure_Get st k = Some n \<Longrightarrow> Structure_GetKeys (Structure_Set k n' st) = Structure_GetKeys st"
  by (simp add: Structure_defs map_fst_gm_set)

lemma nodes_ready_set:
  assumes "nodes_ready st" and "node_ready (k, n')"
  shows "nodes_ready (Structure_Set k n' st)"
  using assms by (auto simp: nodes_ready_def Structure_Set_def set_gm_set)

lemma nodes_readyD:
  assumes "nodes_ready st" and "Structure_Get st k = Some n"
  shows "node_ready (k, n)"
  using assms by (auto simp: nodes_ready_def Structure_Get_def dest!: map_of_SomeD)

lemma on_node_AtomicSet:
  assumes "Structure_Get (NIStorage c) name = Some n" and "unlocked (wn_endpointMap n)"
  shows "on_node name (on_endpoint_map (Structure_AtomicSet e svc)) c =
     Ret () (c\<lparr>NIStorage := Structure_Set name
         (n\<lparr>wn_endpointMap := Structure_Set e svc (wn_endpointMap n)\<rparr>) (NIStorage c)\<rparr>)"
  using assms by (simp add: on_node_def gzoom_def Structure_AtomicSet_unlocked)

lemma removeEndpointFromWNStruct_node:
  assumes "Structure_Get (NIStorage c) name = Some n" and "unlocked (wn_endpointMap n)" and "ep_Node e = Some name"
  shows "removeEndpointFromWNStruct e c =
     Ret () (c\<lparr>NIStorage := Structure_Set name
         (n\<lparr>wn_endpointMap := Structure_Remove e (wn_endpointMap n)\<rparr>) (NIStorage c)\<rparr>)"
  using assms by (simp add: removeEndpointFromWNStruct_def on_node_def gzoom_def
      Structure_AtomicRemove_def [symmetric] Structure_AtomicRemove_unlocked)

section \<open>Policies that keep answering\<close>

text \<open>
  What the scaling loop needs of a placement policy besides its contract: after a placement it
  can place again, and only which nodes are schedulable matters to it.
\<close>

locale stable_policy = placement_policy Place ok
  for Place :: "'p PlacementPolicy" and ok +
  assumes ok_place: "ok p st \<Longrightarrow> Place r (p, st) = Ret w (p', st') \<Longrightarrow> ok p' st"
    and ok_cong: "map wn_Schedulable (Structure_GetValues st') = map wn_Schedulable (Structure_GetValues st) \<Longrightarrow>
       ok p st' = ok p st"

interpretation random_stable: stable_policy "Random_Place (\<lambda>n. seed mod n)" "\<lambda>_ _. True"
  by unfold_locales simp_all

lemma length_schedulable_cong:
  assumes "map wn_Schedulable ns' = map wn_Schedulable ns"
  shows "length (getSchedulableNodes ns') = length (getSchedulableNodes ns)"
proof -
  have "length (getSchedulableNodes xs) = length (filter id (map wn_Schedulable xs))" for xs
    by (induction xs) (auto simp: getSchedulableNodes_def GetSchedulability_def)
  then show ?thesis using assms by metis
qed

interpretation rr_stable: stable_policy RoundRobin_Place rr_ok
proof
  fix p p' st st' r w
  assume ok: "rr_ok p st" and place: "RoundRobin_Place r (p, st) = Ret w (p', st')"
  let ?n = "length (getSchedulableNodes (Structure_GetValues st))"
  show "rr_ok p' st"
  proof (cases "?n = 0")
    case True
    with ok place show ?thesis by (simp add: RoundRobin_Place_def Let_def rr_ok_def)
  next
    case False
    with ok have k: "nat p < ?n" "int (nat p) = p" by (auto simp: rr_ok_def)
    from RoundRobin_Place_step [OF k(1), of r] place k(2) have "p' = int (Suc (nat p) mod ?n)" by simp
    with False show ?thesis
      unfolding rr_ok_def by (metis mod_less_divisor of_nat_0_le_iff of_nat_less_iff not_gr_zero)
  qed
next
  fix p and st st' :: NodeStorage
  assume "map wn_Schedulable (Structure_GetValues st') = map wn_Schedulable (Structure_GetValues st)"
  from length_schedulable_cong [OF this] show "rr_ok p st' = rr_ok p st"
    unfolding rr_ok_def by (metis length_0_conv)
qed


section \<open>Creating sandboxes\<close>

definition world_ok :: "('db, 'p) world \<Rightarrow> bool" where
  \<comment> \<open>a sandbox that was created has a port, the persistence layer answers, the draws are in range\<close>
  "world_ok w \<longleftrightarrow>
     (\<forall>i name info r. w_create w i name info = Some r \<longrightarrow> sc_Success r \<longrightarrow> sc_PortMappings r \<noteq> None) \<and>
     (\<forall>e db. runs (pl_StoreEndpoint (w_pl w) e) db (\<lambda>_ _. True)) \<and>
     (\<forall>i n. 0 < n \<longrightarrow> w_Intn w i n < n)"

definition creates_always :: "('db, 'p) world \<Rightarrow> bool" where
  "creates_always w \<longleftrightarrow> (\<forall>i name info. \<exists>r. w_create w i name info = Some r \<and> sc_Success r)"

definition ready :: "('p \<Rightarrow> NodeStorage \<Rightarrow> bool) \<Rightarrow> ('db, 'p) ControlPlane \<Rightarrow> bool" where
  "ready ok c \<longleftrightarrow> dps_ready (DataPlaneConnections c) \<and> nodes_ready (NIStorage c) \<and>
     ok (cp_PlacementPolicy c) (NIStorage c)"

definition same_cluster :: "('db, 'p) ControlPlane \<Rightarrow> ('db, 'p) ControlPlane \<Rightarrow> bool" where
  "same_cluster c c' \<longleftrightarrow> DataPlaneConnections c' = DataPlaneConnections c \<and> SIStorage c' = SIStorage c \<and>
     cp_Config c' = cp_Config c \<and> Structure_GetKeys (NIStorage c') = Structure_GetKeys (NIStorage c) \<and>
     map wn_Schedulable (Structure_GetValues (NIStorage c')) = map wn_Schedulable (Structure_GetValues (NIStorage c))"

lemma same_cluster_refl [simp]: "same_cluster c c"
  and same_cluster_trans: "same_cluster a b \<Longrightarrow> same_cluster b c \<Longrightarrow> same_cluster a c"
  by (simp_all add: same_cluster_def)

definition has_node :: "('db, 'p) ControlPlane \<Rightarrow> bool" where
  "has_node c \<longleftrightarrow> (\<exists>n \<in> set (Structure_GetValues (NIStorage c)). wn_Schedulable n)"

lemma has_node_cong:
  fixes c c' :: "('db, 'p) ControlPlane"
  assumes "same_cluster c c'"
  shows "has_node c' = has_node c"
proof -
  have "has_node c = (True \<in> set (map wn_Schedulable (Structure_GetValues (NIStorage c))))" for c :: "('db, 'p) ControlPlane"
    unfolding has_node_def by (auto simp: image_iff)
  then show ?thesis using assms by (simp only: same_cluster_def)
qed

definition located :: "('db, 'p) ControlPlane \<Rightarrow> Endpoint \<Rightarrow> bool" where
  \<comment> \<open>the endpoint is on a registered node\<close>
  "located c e \<longleftrightarrow> (\<exists>name \<in> set (Structure_GetKeys (NIStorage c)). ep_Node e = Some name)"

lemma located_cong: "same_cluster c c' \<Longrightarrow> located c' e = located c e"
  by (simp add: located_def same_cluster_def)

text \<open>What one goroutine of an upscaling does: it gives up its place in the scale, or it adds an endpoint.\<close>

definition gave_up :: "('db, 'p) service_state \<Rightarrow> ('db, 'p) service_state \<Rightarrow> bool" where
  "gave_up s s' \<longleftrightarrow> fst s' = (fst s)\<lparr>ss_Controller := addActualScale (-1) (ss_Controller (fst s))\<rparr> \<and>
     cp_next (snd s') = cp_next (snd s)"

definition added :: "('db, 'p) service_state \<Rightarrow> ('db, 'p) service_state \<Rightarrow> bool" where
  "added s s' \<longleftrightarrow> (\<exists>e. fst s' = (fst s)\<lparr>ss_Controller := (ss_Controller (fst s))
        \<lparr>Endpoints := Endpoints (ss_Controller (fst s)) @ [e]\<rparr>\<rparr> \<and>
     ep_addr e = cp_next (snd s) \<and> cp_next (snd s') = Suc (cp_next (snd s)) \<and> located (snd s) e)"

text \<open>
  The accounts of a service: how far the scale is ahead of the endpoints, which are distinct objects.
\<close>

definition accounting :: "int \<Rightarrow> ('db, 'p) service_state \<Rightarrow> bool" where
  "accounting ahead s \<longleftrightarrow>
     (let as = ss_Controller (fst s) in
        ActualScale (ScalingMetadata as) = int (length (Endpoints as)) + ahead \<and>
        distinct (map ep_addr (Endpoints as)) \<and> (\<forall>e \<in> set (Endpoints as). ep_addr e < cp_next (snd s)))"

abbreviation scale_of :: "('db, 'p) service_state \<Rightarrow> int" where
  "scale_of s \<equiv> ActualScale (ScalingMetadata (ss_Controller (fst s)))"

abbreviation endpoints_of :: "('db, 'p) service_state \<Rightarrow> Endpoint list" where
  "endpoints_of s \<equiv> Endpoints (ss_Controller (fst s))"

definition controller_frame :: "ServiceInfoStorage \<Rightarrow> ServiceInfoStorage \<Rightarrow> bool" where
  \<comment> \<open>what a rescaling leaves alone\<close>
  "controller_frame ss ss' \<longleftrightarrow> ss_ServiceInfo ss' = ss_ServiceInfo ss \<and> ss_StartTime ss' = ss_StartTime ss \<and>
     (let as = ss_Controller ss; as' = ss_Controller ss' in
        EndpointLock as' = EndpointLock as \<and> AutoscalingRunning as' = AutoscalingRunning as \<and>
        DesiredStateChannel as' = DesiredStateChannel as \<and> StopCh as' = StopCh as \<and>
        AutoscalingConfig (ScalingMetadata as') = AutoscalingConfig (ScalingMetadata as))"

definition grown :: "('db, 'p) world \<Rightarrow> ('db, 'p) service_state \<Rightarrow> ('db, 'p) service_state \<Rightarrow> bool" where
  \<comment> \<open>what any number of these goroutines do together\<close>
  "grown w s s' \<longleftrightarrow> same_cluster (snd s) (snd s') \<and> controller_frame (fst s) (fst s') \<and>
     (\<exists>new. endpoints_of s' = endpoints_of s @ new \<and>
        (\<forall>e \<in> set new. located (snd s) e \<and> cp_next (snd s) \<le> ep_addr e)) \<and> cp_next (snd s) \<le> cp_next (snd s') \<and>
     scale_of s' \<le> scale_of s \<and> (creates_always w \<and> has_node (snd s) \<longrightarrow> scale_of s' = scale_of s)"

lemma grown_refl: "grown w s s"
  by (simp add: grown_def controller_frame_def)

lemma grown_step:
  assumes "same_cluster (snd s) (snd s')"
    and "gave_up s s' \<and> \<not> (creates_always w \<and> has_node (snd s)) \<or> added s s'"
  shows "grown w s s'"
  using assms(2)
proof
  assume "gave_up s s' \<and> \<not> (creates_always w \<and> has_node (snd s))"
  with assms(1) show ?thesis by (simp add: grown_def gave_up_def addActualScale_def controller_frame_def)
next
  assume "added s s'"
  with assms(1) show ?thesis by (auto simp: grown_def added_def controller_frame_def Let_def)
qed

lemma grown_trans:
  assumes "grown w a b" and "grown w b c"
  shows "grown w a c"
proof -
  obtain new new' where "endpoints_of b = endpoints_of a @ new" "endpoints_of c = endpoints_of b @ new'"
    and n: "\<forall>e \<in> set new. located (snd a) e \<and> cp_next (snd a) \<le> ep_addr e"
      "\<forall>e \<in> set new'. located (snd b) e \<and> cp_next (snd b) \<le> ep_addr e"
    using assms unfolding grown_def by blast
  then have "endpoints_of c = endpoints_of a @ (new @ new')" by simp
  moreover have ab: "same_cluster (snd a) (snd b)" "cp_next (snd a) \<le> cp_next (snd b)"
    using assms(1) by (simp_all add: grown_def)
  then have "\<forall>e \<in> set (new @ new'). located (snd a) e \<and> cp_next (snd a) \<le> ep_addr e"
    using n located_cong [OF ab(1)] by fastforce
  ultimately have "\<exists>new. endpoints_of c = endpoints_of a @ new \<and>
      (\<forall>e \<in> set new. located (snd a) e \<and> cp_next (snd a) \<le> ep_addr e)" by blast
  moreover have "same_cluster (snd a) (snd c)" using assms same_cluster_trans by (auto simp: grown_def)
  moreover have "controller_frame (fst a) (fst c)" using assms by (simp add: grown_def controller_frame_def Let_def)
  ultimately show ?thesis
    using assms has_node_cong [OF ab(1)] by (simp add: grown_def)
qed

lemma accounting_grow:
  assumes "accounting d s"
    and "gave_up s s' \<and> b \<or> added s s'"
  shows "accounting (d - 1) s'"
  using assms(2)
proof
  assume "gave_up s s' \<and> b"
  with assms(1) show ?thesis by (simp add: gave_up_def accounting_def Let_def addActualScale_def)
next
  assume "added s s'"
  then obtain e where e: "endpoints_of s' = endpoints_of s @ [e]" "scale_of s' = scale_of s"
    "ep_addr e = cp_next (snd s)" "cp_next (snd s') = Suc (cp_next (snd s))"
    by (auto simp: added_def)
  have "cp_next (snd s) \<notin> ep_addr ` set (endpoints_of s)" using assms(1) by (auto simp: accounting_def Let_def)
  with assms(1) e show ?thesis by (auto simp: accounting_def Let_def less_Suc_eq)
qed

lemma createSandbox_connected:
  "wn_wnConnection n \<Longrightarrow> createSandbox w n info c =
     Ret (w_create w (length (cp_calls c)) (wn_Name n) info)
       (c\<lparr>cp_calls := cp_calls c @ [RpcCreateSandbox (wn_Name n) info]\<rparr>)"
  by (simp add: createSandbox_def WorkerNode_CreateSandbox_def)

context stable_policy
begin

lemma apply_ok:
  assumes "ok p st" and "\<not> wlocked st"
  shows "\<exists>node p'. ApplyPlacementPolicy Place r (p, st) = Ret node (p', st) \<and> ok p' st \<and>
     (case node of None \<Rightarrow> \<forall>n \<in> set (Structure_GetValues st). \<not> wn_Schedulable n
      | Some n \<Rightarrow> n \<in> set (Structure_GetValues st) \<and> wn_Schedulable n)"
proof -
  let ?st = "st\<lparr>rlocks := Suc (rlocks st)\<rparr>"
  obtain node p' where placed: "ApplyPlacementPolicy Place r (p, st) = Ret node (p', st)"
    and sound: "case node of None \<Rightarrow> \<forall>n \<in> set (Structure_GetValues st). \<not> wn_Schedulable n
      | Some n \<Rightarrow> n \<in> set (Structure_GetValues st) \<and> wn_Schedulable n"
    using apply_answers [OF assms] by blast
  have "ok p' st"
  proof (cases "InternalMap st = []")
    case True
    with placed assms show ?thesis
      by (simp add: ApplyPlacementPolicy_def noNodesInCluster_def getNumberNodes_def Structure_defs go_monad)
  next
    case False
    obtain v q where place: "Place r (p, ?st) = Ret v (q, ?st)"
      using place_answers [of p ?st r] assms(1) ok_rlock by blast
    with False placed assms(2) have "q = p'"
      by (simp add: ApplyPlacementPolicy_def noNodesInCluster_def getNumberNodes_def Structure_defs go_monad)
    then show ?thesis using ok_place [OF _ place] assms(1) ok_rlock by blast
  qed
  with placed sound show ?thesis by blast
qed

lemma addNewEndpoint_runs:
  assumes "ready ok c" and "Structure_Get (NIStorage c) name = Some n"
  shows "runs (addNewEndpoint w e name) (ss, c) (\<lambda>_ s'.
     fst s' = ss\<lparr>ss_Controller := (ss_Controller ss)\<lparr>Endpoints := Endpoints (ss_Controller ss) @ [e]\<rparr>\<rparr> \<and>
     cp_next (snd s') = Suc (cp_next c) \<and> ready ok (snd s') \<and> same_cluster c (snd s'))"
proof -
  let ?n = "n\<lparr>wn_endpointMap := Structure_Set e (si_Name (ss_ServiceInfo ss)) (wn_endpointMap n)\<rparr>"
  let ?st = "Structure_Set name ?n (NIStorage c)"
  have n: "node_ready (name, n)" using nodes_readyD assms by (auto simp: ready_def)
  have st: "nodes_ready ?st"
    using assms(1) n by (intro nodes_ready_set) (auto simp: ready_def node_ready_def)
  have sched: "map wn_Schedulable (Structure_GetValues ?st) = map wn_Schedulable (Structure_GetValues (NIStorage c))"
    by (rule schedulable_set [OF assms(2)]) simp
  have keys: "Structure_GetKeys ?st = Structure_GetKeys (NIStorage c)" by (rule GetKeys_set [OF assms(2)])
  have wl: "\<not> wlocked (NIStorage c)" using assms(1) by (simp add: ready_def nodes_ready_def)
  have set: "runs (on_node name (on_endpoint_map (Structure_AtomicSet e (si_Name (ss_ServiceInfo ss))))) c' Q =
      Q () (c'\<lparr>NIStorage := ?st\<rparr>)" if "NIStorage c' = NIStorage c" for c' :: "('a, 'p) ControlPlane" and Q
    using on_node_AtomicSet [of c' name n e "si_Name (ss_ServiceInfo ss)"] that assms(2) n
    by (simp add: runs_def node_ready_def)
  have upd: "runs (updateEndpoints w info eps) c' Q =
      Q () (c'\<lparr>cp_calls := cp_calls c' @ endpoint_updates info eps (DataPlaneConnections c)\<rparr>)"
    if "DataPlaneConnections c' = DataPlaneConnections c" for c' info eps Q
    using updateEndpoints_ready [of c' w info eps] that assms(1) by (simp add: runs_def ready_def)
  have rl: "runs Structure_RLock st Q = Q () (st\<lparr>rlocks := rlocks st + 1\<rparr>)" if "\<not> wlocked st" for st :: NodeStorage and Q
    using that by (simp add: runs_def Structure_RLock_def)
  have ru: "runs Structure_RUnlock (st\<lparr>rlocks := rlocks st + 1\<rparr>) Q = Q () st" for st :: NodeStorage and Q
    by (simp add: runs_def Structure_RUnlock_def)
  have ok: "ok (cp_PlacementPolicy c) ?st" using assms(1) ok_cong [OF sched] by (simp add: ready_def)
  have same: "c'\<lparr>NIStorage := NIStorage c'\<rparr> = c'" for c' :: "('a, 'p) ControlPlane" by simp
  show ?thesis
    using assms(1) st sched ok keys
    by (simp add: addNewEndpoint_def wp rl wl ru set upd ready_def same_cluster_def del: One_nat_def)
qed

lemma handleCreation_runs:
  assumes w: "world_ok w" and r: "ready ok c" and n: "Structure_Get (NIStorage c) (wn_Name n) = Some n"
    and port: "\<And>r. resp = Some r \<Longrightarrow> sc_Success r \<Longrightarrow> sc_PortMappings r \<noteq> None"
  shows "runs (handleCreation w n resp) (ss, c) (\<lambda>_ s'. ready ok (snd s') \<and> same_cluster c (snd s') \<and>
     (gave_up (ss, c) s' \<and> \<not> (\<exists>r. resp = Some r \<and> sc_Success r) \<or> added (ss, c) s'))"
    (is "runs _ _ ?Q")
proof (cases "\<exists>r. resp = Some r \<and> sc_Success r")
  case False
  with r show ?thesis by (auto simp: handleCreation_def wp gave_up_def split: option.splits)
next
  case True
  then obtain r pm where resp: "resp = Some r" "sc_Success r" "sc_PortMappings r = Some pm"
    using port by blast
  let ?e = "newEndpoint (cp_next c) n (sc_ID r) (pm_HostPort pm)"
  have add: "runs (addNewEndpoint w ?e (wn_Name n)) (ss, c') ?Q"
    if "c' = c \<or> (\<exists>db. c' = c\<lparr>cp_db := db\<rparr>)" for c'
  proof -
    have c': "ready ok c'" "cp_next c' = cp_next c" "same_cluster c c'" "NIStorage c' = NIStorage c"
      using that r by (auto simp: ready_def same_cluster_def)
    have "located c ?e"
      using n by (force simp: located_def newEndpoint_def Structure_defs dest: map_of_SomeD)
    then show ?thesis
      using addNewEndpoint_runs [OF c'(1), of "wn_Name n" n w ?e ss] n c'(4)
      by (auto elim!: runs_mono simp: added_def newEndpoint_def c'(2) intro: same_cluster_trans [OF c'(3)])
  qed
  show ?thesis
  proof (cases "cpc_EndpointPersistence (cp_Config c)")
    case True
    obtain x db where "pl_StoreEndpoint (w_pl w) ?e (cp_db c) = Ret x db"
      using w unfolding world_ok_def by (metis runsE)
    then have store: "runs (pl_StoreEndpoint (w_pl w) ?e) (cp_db c) Q = Q x db" for Q by (rule runs_Ret)
    show ?thesis using add [of "c\<lparr>cp_db := db\<rparr>"] True by (auto simp: handleCreation_def resp wp store)
  next
    case False
    with add show ?thesis by (simp add: handleCreation_def resp wp)
  qed
qed

lemma upscaleOne_runs:
  assumes w: "world_ok w" "w_Place w = Place" and r: "ready ok c"
  shows "runs (upscaleOne w) (ss, c) (\<lambda>_ s'. ready ok (snd s') \<and> same_cluster c (snd s') \<and>
     (gave_up (ss, c) s' \<and> \<not> (creates_always w \<and> has_node c) \<or> added (ss, c) s'))"
    (is "runs _ _ ?Q")
proof -
  let ?info = "ss_ServiceInfo ss"
  let ?req = "CreateResourceMap (si_RequestedCpu ?info) (si_RequestedMemory ?info)"
  obtain node p' where place: "ApplyPlacementPolicy Place ?req (cp_PlacementPolicy c, NIStorage c) = Ret node (p', NIStorage c)"
    and ok: "ok p' (NIStorage c)"
    and sound: "case node of None \<Rightarrow> \<forall>n \<in> set (Structure_GetValues (NIStorage c)). \<not> wn_Schedulable n
      | Some n \<Rightarrow> n \<in> set (Structure_GetValues (NIStorage c)) \<and> wn_Schedulable n"
    using apply_ok [of "cp_PlacementPolicy c" "NIStorage c" ?req] r by (auto simp: ready_def nodes_ready_def)
  then have place_runs: "runs (ApplyPlacementPolicy Place ?req) (cp_PlacementPolicy c, NIStorage c) Q =
      Q node (p', NIStorage c)" for Q
    by (simp add: runs_def)
  let ?c = "c\<lparr>cp_PlacementPolicy := p'\<rparr>"
  have ready': "ready ok ?c" using r ok by (simp add: ready_def)
  show ?thesis
  proof (cases node)
    case None
    with sound have "\<not> has_node c" by (auto simp: has_node_def)
    with None ready' place show ?thesis
      by (simp add: upscaleOne_def wp w(2) place_runs gave_up_def same_cluster_def ready_def)
  next
    case (Some n)
    with sound obtain k where k: "(k, n) \<in> set (InternalMap (NIStorage c))"
      by (auto simp: Structure_defs)
    with r have nr: "node_ready (k, n)" by (auto simp: ready_def nodes_ready_def)
    let ?c2 = "?c\<lparr>cp_calls := cp_calls c @ [RpcCreateSandbox (wn_Name n) ?info]\<rparr>"
    let ?resp = "w_create w (length (cp_calls c)) (wn_Name n) ?info"
    have create: "runs (createSandbox w n ?info) ?c Q = Q ?resp ?c2" for Q
      using nr by (simp add: createSandbox_connected node_ready_def runs_def)
    have c2: "ready ok ?c2" "same_cluster c ?c2" "has_node c = has_node ?c2"
      using ready' by (simp_all add: ready_def same_cluster_def has_node_def)
    have n: "Structure_Get (NIStorage ?c2) (wn_Name n) = Some n"
      using k nr r by (simp add: Structure_Get_def ready_def nodes_ready_def node_ready_def map_of_gm_wf)
    have port: "?resp = Some r \<Longrightarrow> sc_Success r \<Longrightarrow> sc_PortMappings r \<noteq> None" for r
      using w(1) unfolding world_ok_def by blast
    have creates: "creates_always w \<Longrightarrow> \<exists>r. ?resp = Some r \<and> sc_Success r"
      unfolding creates_always_def by blast
    from handleCreation_runs [OF w(1) c2(1) n, of ?resp ss, OF port]
    have "runs (handleCreation w n ?resp) (ss, ?c2) ?Q"
      by (rule runs_mono) (use c2(2) creates in \<open>auto simp: gave_up_def added_def located_def intro: same_cluster_trans\<close>)
    then show ?thesis
      unfolding upscaleOne_def by (simp add: wp w(2) place_runs Some create)
  qed
qed

lemma doUpscaling_runs:
  assumes w: "world_ok w" "w_Place w = Place" and "ready ok (snd s)" and "accounting d s"
  shows "runs (doUpscaling w n) s (\<lambda>_ s'. ready ok (snd s') \<and> accounting (d - int n) s' \<and> grown w s s')"
  using assms(3-4)
proof (induction n arbitrary: s d)
  case 0
  then show ?case by (simp add: wp grown_refl)
next
  case (Suc n)
  obtain ss c where s: "s = (ss, c)" by (cases s)
  have step: "runs (doUpscaling w n) s' (\<lambda>_ s'. ready ok (snd s') \<and> accounting (d - int (Suc n)) s' \<and> grown w s s')"
    if r: "ready ok (snd s')" "same_cluster (snd s) (snd s')"
      and ga: "gave_up s s' \<and> \<not> (creates_always w \<and> has_node (snd s)) \<or> added s s'" for s'
  proof -
    from Suc.IH [OF r(1) accounting_grow [OF Suc.prems(2) ga]] show ?thesis
      by (rule runs_mono) (use grown_trans [OF grown_step [OF r(2) ga]] in \<open>auto simp: diff_diff_eq add.commute\<close>)
  qed
  have "ready ok c" using Suc.prems(1) s by simp
  from upscaleOne_runs [OF w this, of ss]
  have "runs (upscaleOne w) s (\<lambda>_ s'. runs (doUpscaling w n) s'
      (\<lambda>_ s'. ready ok (snd s') \<and> accounting (d - int (Suc n)) s' \<and> grown w s s'))"
    unfolding s by (rule runs_mono) (rule step [unfolded s]; simp)
  then show ?case by (simp add: wp)
qed

end

section \<open>The channel\<close>

lemma drainChannel_open:
  "drainChannel \<lparr>ch_sent = vs, ch_closed = False\<rparr> r =
     Some (if vs = [] then r else (last vs, True), \<lparr>ch_sent = [], ch_closed = False\<rparr>)"
  by (induction vs arbitrary: r; subst drainChannel.simps) (simp_all add: chan_try_def)

lemma recv_drain_open:
  assumes "ch_sent ch \<noteq> []" and "\<not> ch_closed ch"
  shows "gbind chan_recv drainDesired ch = Ret (last (ch_sent ch), True) \<lparr>ch_sent = [], ch_closed = False\<rparr>"
proof -
  obtain v vs where "ch = \<lparr>ch_sent = v # vs, ch_closed = False\<rparr>" using assms by (cases ch) (auto simp: neq_Nil_conv)
  then show ?thesis
    by (simp add: gbind_def chan_recv_def chan_try_def drainDesired_def drainChannel_open)
qed

lemma drainChannel_closed: "ch_closed ch \<Longrightarrow> drainChannel ch r = None"
proof (rule ccontr)
  assume closed: "ch_closed ch" and "drainChannel ch r \<noteq> None"
  then obtain y where "drainChannel ch r = Some y" by blast
  then have "\<not> ch_closed ch"
  proof (rule drainChannel.raw_induct [rotated])
    fix f ch l y
    assume IH: "\<And>ch l y. f ch l = Some y \<Longrightarrow> \<not> ch_closed ch"
      and eq: "(case chan_try ch of None \<Rightarrow> Some (l, ch) | Some (r, ch') \<Rightarrow> f ch' r) = Some y"
    show "\<not> ch_closed ch"
    proof
      assume "ch_closed ch"
      then obtain q ch' where "chan_try ch = Some (q, ch')" "ch_closed ch'"
        by (cases "ch_sent ch") (auto simp: chan_try_def)
      with eq IH [of ch' q y] show False by simp
    qed
  qed
  with closed show False by simp
qed

section \<open>Evicting\<close>

lemma evictLoop_picks:
  assumes Intn: "\<And>i n. 0 < n \<Longrightarrow> Intn i n < (n :: nat)" and "distinct cur" and "fst ` set ev \<inter> set cur = {}" and "gm_wf ev"
  shows "\<exists>new. distinct new \<and> set new \<subseteq> set cur \<and> length new = min n (length cur) \<and>
     fst ` set (evictLoop Intn i n cur ev) = fst ` set ev \<union> set new \<and> gm_wf (evictLoop Intn i n cur ev)"
  using assms(2-4)
proof (induction n arbitrary: i cur ev)
  case (Suc n)
  show ?case
  proof (cases "cur = []")
    case True
    with Suc.IH [of "[]" ev "i + 1"] Suc.prems show ?thesis by (simp add: EvictionPolicy_def)
  next
    case False
    let ?k = "Intn i (length cur)" and ?e = "cur ! Intn i (length cur)"
    have k: "?k < length cur" using Intn False by simp
    let ?cur = "remove_nth ?k cur"
    have cur: "distinct ?cur" "set ?cur = set cur - {?e}" "length ?cur = length cur - 1"
      using k Suc.prems(1) by (simp_all add: distinct_remove_nth set_remove_nth_distinct)
    have ev: "fst ` set (gm_set ?e () ev) = insert ?e (fst ` set ev)"
      using Suc.prems(3) by (auto simp: set_gm_set image_iff)
    have "fst ` set (gm_set ?e () ev) \<inter> set ?cur = {}" using ev cur(2) Suc.prems(2) by auto
    from Suc.IH [OF cur(1) this gm_wf_set [OF Suc.prems(3)], of "i + 1"]
    obtain new where new: "distinct new" "set new \<subseteq> set ?cur" "length new = min n (length ?cur)"
      "fst ` set (evictLoop Intn (i + 1) n ?cur (gm_set ?e () ev)) = insert ?e (fst ` set ev) \<union> set new"
      "gm_wf (evictLoop Intn (i + 1) n ?cur (gm_set ?e () ev))"
      unfolding ev by blast
    have step: "evictLoop Intn i (Suc n) cur ev = evictLoop Intn (i + 1) n ?cur (gm_set ?e () ev)"
      using False by (simp add: EvictionPolicy_nonempty)
    have "distinct (?e # new)" "set (?e # new) \<subseteq> set cur" "length (?e # new) = min (Suc n) (length cur)"
      using new(1-3) cur(2,3) k by auto
    with new(4,5) show ?thesis unfolding step by (intro exI [of _ "?e # new"]) auto
  qed
qed simp

lemma excludeEndpoints_picked:
  assumes "distinct es" and "distinct new" and "set new \<subseteq> set es" and "fst ` set ev = set new"
  shows "length (filter (\<lambda>e. map_of ev e = None) es) = length es - length new"
    and "set (filter (\<lambda>e. map_of ev e = None) es) = set es - set new"
proof -
  have eq: "map_of ev e = None \<longleftrightarrow> e \<notin> set new" for e
    using assms(4) by (simp add: map_of_eq_None_iff)
  then show "set (filter (\<lambda>e. map_of ev e = None) es) = set es - set new" by auto
  then have "card (set (filter (\<lambda>e. map_of ev e = None) es)) = card (set es) - card (set new)"
    using assms(3) by (simp add: card_Diff_subset)
  then show "length (filter (\<lambda>e. map_of ev e = None) es) = length es - length new"
    using assms(1,2) by (metis distinct_card distinct_filter)
qed

lemma doDownscaling_runs:
  assumes "world_ok w" and "accounting k s"
  shows "runs (doDownscaling w actual desired) s (\<lambda>ev s'. snd s' = snd s \<and>
     fst s' = (fst s)\<lparr>ss_Controller := excludeEndpoints ev (ss_Controller (fst s))\<rparr> \<and>
     gm_wf ev \<and> fst ` set ev \<subseteq> set (endpoints_of s) \<and>
     length (endpoints_of s') = length (endpoints_of s) - nat (actual - desired) \<and>
     set (endpoints_of s') = set (endpoints_of s) - fst ` set ev)"
proof -
  let ?es = "endpoints_of s"
  let ?ev = "evictLoop (w_Intn w) 0 (nat (actual - desired)) ?es []"
  have "distinct ?es" using assms(2) by (auto simp: accounting_def Let_def distinct_map)
  moreover obtain new where "distinct new" "set new \<subseteq> set ?es" "length new = min (nat (actual - desired)) (length ?es)"
    "fst ` set ?ev = set new" "gm_wf ?ev"
    using evictLoop_picks [of "w_Intn w" ?es "[]" "nat (actual - desired)" 0] assms(1) \<open>distinct ?es\<close>
    by (auto simp: world_ok_def)
  ultimately show ?thesis
    using excludeEndpoints_picked [of ?es new ?ev]
    by (simp add: doDownscaling_def wp excludeEndpoints_def min_def)
qed

lemma accounting_filter:
  assumes "accounting k s" and "scale = int (length (filter P (endpoints_of s))) + k'"
    and "snd s' = snd s" and "endpoints_of s' = filter P (endpoints_of s)" and "scale_of s' = scale"
  shows "accounting k' s'"
  using assms by (auto simp: accounting_def Let_def distinct_map_filter)

text \<open>What holds of a service between two iterations of its scaling loop.\<close>

definition service_ok :: "('p \<Rightarrow> NodeStorage \<Rightarrow> bool) \<Rightarrow> ('db, 'p) service_state \<Rightarrow> bool" where
  "service_ok ok s \<longleftrightarrow> ready ok (snd s) \<and> accounting 0 s \<and> (\<forall>e \<in> set (endpoints_of s). located (snd s) e) \<and>
     \<not> EndpointLock (ss_Controller (fst s)) \<and> \<not> ch_closed (DesiredStateChannel (ss_Controller (fst s)))"

context stable_policy
begin

lemma rescale_runs:
  assumes w: "world_ok w" "w_Place w = Place" and "ready ok (snd s)"
    and acc: "accounting (d - a) s" "scale_of s = d" and "0 \<le> d"
    and loc: "\<forall>e \<in> set (endpoints_of s). located (snd s) e"
    and "\<not> isDownScalingDisabled (w_now w) (fst s)"
  shows "runs (rescale w a d) s (\<lambda>ev s'. ready ok (snd s') \<and> accounting 0 s' \<and> controller_frame (fst s) (fst s') \<and>
     (\<forall>e \<in> set (endpoints_of s'). located (snd s') e) \<and> same_cluster (snd s) (snd s') \<and>
     scale_of s' \<le> d \<and> (creates_always w \<and> has_node (snd s) \<longrightarrow> scale_of s' = d) \<and>
     fst ` set ev \<subseteq> set (endpoints_of s) \<and> set (endpoints_of s) \<subseteq> set (endpoints_of s') \<union> fst ` set ev \<and>
     set (endpoints_of s') \<inter> fst ` set ev = {} \<and> gm_wf ev \<and> cp_next (snd s) \<le> cp_next (snd s') \<and>
     (\<forall>e \<in> set (endpoints_of s'). e \<in> set (endpoints_of s) \<or> cp_next (snd s) \<le> ep_addr e))"
proof -
  have a: "int (length (endpoints_of s)) = a" using acc by (simp add: accounting_def Let_def)
  show ?thesis
  proof (cases a d rule: linorder_cases)
    case less
    have "accounting (d - a - int (nat (d - a))) s' \<longleftrightarrow> accounting 0 s'" for s' :: "('a, 'p) service_state"
      using less by simp
    then show ?thesis
      using doUpscaling_runs [OF w assms(3) acc(1), of "nat (d - a)"] less assms
      unfolding rescale_def
      by (simp add: wp) (erule runs_mono, auto simp: grown_def located_cong)
  next
    case equal
    then show ?thesis using assms by (simp add: rescale_def wp controller_frame_def)
  next
    case greater
    have "runs (doDownscaling w a d) s (\<lambda>ev s'. snd s' = snd s \<and>
       fst s' = (fst s)\<lparr>ss_Controller := excludeEndpoints ev (ss_Controller (fst s))\<rparr> \<and>
       fst ` set ev \<subseteq> set (endpoints_of s) \<and> int (length (endpoints_of s')) = d \<and> gm_wf ev \<and>
       set (endpoints_of s') = set (endpoints_of s) - fst ` set ev)"
      using doDownscaling_runs [OF w(1) acc(1), of a d] by (rule runs_mono) (use greater a assms(6) in auto)
    then show ?thesis
      using greater assms unfolding rescale_def
      by (simp add: wp) (erule runs_mono, auto simp: controller_frame_def excludeEndpoints_def Let_def
          intro: accounting_filter [OF acc(1)])
  qed
qed

lemma iteration_runs:
  assumes w: "world_ok w" "w_Place w = Place" and ok: "service_ok ok s"
    and sent: "ch_sent (DesiredStateChannel (ss_Controller (fst s))) = vs" "vs \<noteq> []" "0 \<le> last vs"
    and enabled: "\<not> isDownScalingDisabled (w_now w) (fst s)"
  shows "runs (ScalingControllerIteration w) s (\<lambda>(ev, running) s'. running \<and> service_ok ok s' \<and>
     same_cluster (snd s) (snd s') \<and> ss_StartTime (fst s') = ss_StartTime (fst s) \<and>
     AutoscalingConfig (ScalingMetadata (ss_Controller (fst s'))) = AutoscalingConfig (ScalingMetadata (ss_Controller (fst s))) \<and>
     ch_sent (DesiredStateChannel (ss_Controller (fst s'))) = [] \<and>
     scale_of s' \<le> last vs \<and> (creates_always w \<and> has_node (snd s) \<longrightarrow> scale_of s' = last vs) \<and>
     fst ` set ev \<subseteq> set (endpoints_of s) \<and> set (endpoints_of s) \<subseteq> set (endpoints_of s') \<union> fst ` set ev \<and>
     set (endpoints_of s') \<inter> fst ` set ev = {} \<and> gm_wf ev \<and> cp_next (snd s) \<le> cp_next (snd s') \<and>
     (\<forall>e \<in> set (endpoints_of s'). e \<in> set (endpoints_of s) \<or> cp_next (snd s) \<le> ep_addr e))"
    (is "runs _ _ ?Q")
proof -
  let ?as = "(ss_Controller (fst s))\<lparr>DesiredStateChannel := \<lparr>ch_sent = [], ch_closed = False\<rparr>\<rparr>"
  let ?s1 = "((fst s)\<lparr>ss_Controller := (setActualScale (last vs) ?as)\<lparr>EndpointLock := True\<rparr>\<rparr>, snd s)"
  have ch: "\<not> ch_closed (DesiredStateChannel (ss_Controller (fst s)))" "\<not> EndpointLock (ss_Controller (fst s))"
    using ok by (simp_all add: service_ok_def)
  have recv: "runs chan_recv (DesiredStateChannel (ss_Controller (fst s))) (\<lambda>r ch. runs (drainDesired r) ch Q) =
      Q (last vs, True) \<lparr>ch_sent = [], ch_closed = False\<rparr>" for Q
    using recv_drain_open [of "DesiredStateChannel (ss_Controller (fst s))"] sent ch(1)
    by (simp add: runs_gbind [symmetric]) (simp add: runs_def)
  have lock: "runs EndpointLock_Lock as Q = Q () (as\<lparr>EndpointLock := True\<rparr>)" if "\<not> EndpointLock as" for as Q
    using that by (simp add: runs_def EndpointLock_Lock_def)
  have unlock: "runs EndpointLock_Unlock as Q = Q () (as\<lparr>EndpointLock := False\<rparr>)" if "EndpointLock as" for as Q
    using that by (simp add: runs_def EndpointLock_Unlock_def)
  have s1: "ready ok (snd ?s1)" "accounting (last vs - scale_of s) ?s1" "scale_of ?s1 = last vs"
    "\<forall>e \<in> set (endpoints_of ?s1). located (snd ?s1) e" "\<not> isDownScalingDisabled (w_now w) (fst ?s1)"
    using ok enabled by (auto simp: service_ok_def accounting_def Let_def setActualScale_def isDownScalingDisabled_def)
  have "runs (rescale w (scale_of s) (last vs)) ?s1
     (\<lambda>ev s'. runs (gthen (on_controller EndpointLock_Unlock) (gret (ev, True))) s' ?Q)"
    using rescale_runs [OF w s1(1-3) sent(3) s1(4,5)]
    by (rule runs_mono)
      (auto simp: wp unlock controller_frame_def Let_def setActualScale_def service_ok_def accounting_def)
  then show ?thesis
    using ch(2) unfolding ScalingControllerIteration_def
    by (simp add: wp recv lock setActualScale_def)
qed

end

section \<open>The eviction goroutine\<close>

definition drain_calls :: "ServiceInfo \<Rightarrow> (Endpoint, unit) gomap \<Rightarrow> (string, DataPlaneConnectionInfo) Structure \<Rightarrow> rpc list" where
  "drain_calls info ev st = map ((\<lambda>dp. RpcDrainSandbox (dc_IP dp)
      \<lparr>patch_Service = Some info, patch_Endpoints = Some (prepareEndpointInfo (map fst ev))\<rparr>) \<circ> snd) (InternalMap st)"

definition delete_call :: "Endpoint \<Rightarrow> rpc list" where
  "delete_call e = (case ep_Node e of None \<Rightarrow> []
     | Some name \<Rightarrow> [RpcDeleteSandbox name \<lparr>sid_ID = ep_SandboxID e, sid_HostPort = ep_HostPort e\<rparr>])"

lemma drainSandbox_ready:
  assumes "dps_ready (DataPlaneConnections c)"
  shows "drainSandbox w info ev c =
     Ret () (c\<lparr>cp_calls := cp_calls c @ drain_calls info ev (DataPlaneConnections c)\<rparr>)"
proof -
  let ?l = "c\<lparr>DataPlaneConnections := (DataPlaneConnections c)\<lparr>wlocked := True\<rparr>\<rparr>"
  have u: "unlocked (DataPlaneConnections c)" and con: "\<forall>p \<in> set (InternalMap (DataPlaneConnections c)). dc_Iface (snd p)"
    using assms by (simp_all add: dps_ready_def)
  have lock: "on_dp Structure_Lock c = Ret () ?l" "on_dp Structure_Unlock ?l = Ret () c"
    using u by (simp_all add: unlocked_def gzoom_def Structure_Lock_def Structure_Unlock_def)
  show ?thesis
    unfolding drainSandbox_def
    by (simp add: gthen_apply [of "on_dp _"] gthen_apply [of "grange _ _"] gbind_def [of "gget _"] gget_def
        lock Structure_GetMap_def grange_dp_calls [OF con] drain_calls_def gret_def)
qed

lemma evictGoroutine_runs:
  assumes r: "dps_ready (DataPlaneConnections c)" "nodes_ready (NIStorage c)"
    and loc: "\<forall>e \<in> fst ` set ev. located c e"
  shows "runs (evictGoroutine w info ev) c (\<lambda>_ c'. nodes_ready (NIStorage c') \<and> same_cluster c c' \<and>
     cp_next c' = cp_next c \<and> cp_PlacementPolicy c' = cp_PlacementPolicy c \<and>
     cp_calls c' = cp_calls c @ drain_calls info ev (DataPlaneConnections c) @ concat (map (delete_call \<circ> fst) ev))"
proof -
  let ?drains = "cp_calls c @ drain_calls info ev (DataPlaneConnections c)"
  let ?I = "\<lambda>xs c'. nodes_ready (NIStorage c') \<and> same_cluster c c' \<and> cp_next c' = cp_next c \<and>
     cp_PlacementPolicy c' = cp_PlacementPolicy c \<and> (\<forall>e \<in> set xs. located c e) \<and>
     cp_calls c' @ concat (map delete_call xs) = ?drains @ concat (map (delete_call \<circ> fst) ev)"
  let ?body = "\<lambda>victim. gthen (deleteSandbox w victim)
       (gthen (removeEndpointFromWNStruct victim) (gret (None :: unit option)))"
  have drain: "runs (drainSandbox w info ev) c Q = Q () (c\<lparr>cp_calls := ?drains\<rparr>)" for Q
    by (simp add: runs_def drainSandbox_ready [OF r(1)])
  have "runs (grange (map fst ev) ?body) (c\<lparr>cp_calls := ?drains\<rparr>) (\<lambda>x s'. x = None \<and> ?I [] s')"
  proof (rule runs_grange [of ?I])
    show "?I (map fst ev) (c\<lparr>cp_calls := ?drains\<rparr>)"
      using r loc by (simp add: same_cluster_def comp_def)
  next
    fix e es and c' :: "('a, 'b) ControlPlane"
    assume I: "?I (e # es) c'"
    then have "located c' e" using located_cong [of c c' e] by simp
    then obtain name n where name: "ep_Node e = Some name" and n: "Structure_Get (NIStorage c') name = Some n"
      by (force simp: located_def Structure_defs dest: weak_map_of_SomeI)
    let ?n = "n\<lparr>wn_endpointMap := Structure_Remove e (wn_endpointMap n)\<rparr>"
    let ?c1 = "c'\<lparr>cp_calls := cp_calls c' @ delete_call e\<rparr>"
    let ?c2 = "?c1\<lparr>NIStorage := Structure_Set name ?n (NIStorage c')\<rparr>"
    have nr: "node_ready (name, n)" using nodes_readyD [OF _ n] I by blast
    have remove: "runs (removeEndpointFromWNStruct e) ?c1 Q = Q () ?c2" for Q
      using removeEndpointFromWNStruct_node [of ?c1 name n e] n nr name by (simp add: node_ready_def runs_def)
    have delete: "runs (deleteSandbox w e) c' Q = Q () ?c1" for Q
      by (simp add: deleteSandbox_def delete_call_def name gthen_apply cp_call_def gret_def runs_def)
    have "nodes_ready (NIStorage ?c2)" using nr I by (auto intro!: nodes_ready_set simp: node_ready_def)
    moreover have "same_cluster c ?c2"
      using I schedulable_set [OF n, of ?n] GetKeys_set [OF n, of ?n] by (simp add: same_cluster_def)
    ultimately have "?I es ?c2" using I by auto
    then show "runs (?body e) c' (\<lambda>x s'. x = None \<and> ?I es s')"
      by (simp add: runs_gthen runs_gret delete remove)
  qed
  then show ?thesis
    unfolding evictGoroutine_def by (simp add: runs_gthen runs_gret drain) (erule runs_mono, simp)
qed

section \<open>A service over time\<close>

text \<open>
  The goroutines that work on a service, interleaved: the autoscaler asks for a scale, the scaling
  loop runs an iteration, and the eviction goroutines it has started run at any later time. \<open>pend\<close>
  holds the evictions that have not run yet, \<open>gone\<close> every endpoint whose sandbox has been deleted.
\<close>

record ('db, 'p) service_run =
  sr_state :: "('db, 'p) service_state"
  pend :: "(Endpoint, unit) gomap list"
  gone :: "Endpoint list"

inductive scaling_step :: "'p PlacementPolicy \<Rightarrow> ('db, 'p) service_run \<Rightarrow> ('db, 'p) service_run \<Rightarrow> bool" for Place where
  desire: "0 \<le> d \<Longrightarrow> on_controller (on_channel (chan_send d)) (sr_state r) = Ret () s' \<Longrightarrow>
     scaling_step Place r (r\<lparr>sr_state := s'\<rparr>)"
| iterate: "world_ok w \<Longrightarrow> w_Place w = Place \<Longrightarrow> \<not> isDownScalingDisabled (w_now w) (fst (sr_state r)) \<Longrightarrow>
     ScalingControllerIteration w (sr_state r) = Ret (ev, running) s' \<Longrightarrow>
     scaling_step Place r (r\<lparr>sr_state := s', pend := pend r @ [ev]\<rparr>)"
| evict: "i < length (pend r) \<Longrightarrow>
     evictGoroutine w (ss_ServiceInfo (fst (sr_state r))) (pend r ! i) (snd (sr_state r)) = Ret () c' \<Longrightarrow>
     scaling_step Place r (r\<lparr>sr_state := (fst (sr_state r), c'), pend := remove_nth i (pend r),
       gone := gone r @ map fst (pend r ! i)\<rparr>)"

definition objects :: "('db, 'p) service_run \<Rightarrow> Endpoint multiset" where
  \<comment> \<open>the endpoints in service, on the way out, and gone\<close>
  "objects r = mset (endpoints_of (sr_state r)) + (\<Sum>ev \<in># mset (pend r). mset (map fst ev)) + mset (gone r)"

definition run_ok :: "('p \<Rightarrow> NodeStorage \<Rightarrow> bool) \<Rightarrow> ('db, 'p) service_run \<Rightarrow> bool" where
  "run_ok ok r \<longleftrightarrow> service_ok ok (sr_state r) \<and>
     (\<forall>v \<in> set (ch_sent (DesiredStateChannel (ss_Controller (fst (sr_state r))))). 0 \<le> v) \<and>
     (\<forall>ev \<in> set (pend r). \<forall>e \<in> fst ` set ev. located (snd (sr_state r)) e) \<and>
     (\<forall>a. count (image_mset ep_addr (objects r)) a \<le> 1) \<and>
     (\<forall>e \<in># objects r. ep_addr e < cp_next (snd (sr_state r)))"

lemma mset_remove_nth: "i < length xs \<Longrightarrow> mset xs = add_mset (xs ! i) (mset (remove_nth i xs))"
  by (subst id_take_nth_drop [of i xs]) (simp_all add: remove_nth_def)

lemma mset_eq_mset_set: "distinct xs \<Longrightarrow> mset xs = mset_set (set xs)"
  by (metis mset_set_set)

lemma objects_iterate:
  assumes acc: "accounting 0 s" "accounting 0 s'"
    and ev: "fst ` set ev \<subseteq> set (endpoints_of s)" "set (endpoints_of s) \<subseteq> set (endpoints_of s') \<union> fst ` set ev"
      "set (endpoints_of s') \<inter> fst ` set ev = {}" "gm_wf ev"
    and nxt: "\<forall>e \<in> set (endpoints_of s'). e \<in> set (endpoints_of s) \<or> cp_next (snd s) \<le> ep_addr e"
    and s: "sr_state r = s"
  shows "objects (r\<lparr>sr_state := s', pend := pend r @ [ev]\<rparr>) =
     objects r + mset (filter (\<lambda>e. e \<notin> set (endpoints_of s)) (endpoints_of s'))"
proof -
  let ?new = "filter (\<lambda>e. e \<notin> set (endpoints_of s)) (endpoints_of s')"
  have d: "distinct (endpoints_of s)" "distinct (endpoints_of s')" "distinct (map fst ev)"
    using acc ev(4) by (auto simp: accounting_def Let_def distinct_map gm_wf_def)
  have "mset (endpoints_of s') + mset (map fst ev) = mset_set (set (endpoints_of s') \<union> fst ` set ev)"
    using mset_eq_mset_set [OF d(2)] mset_eq_mset_set [OF d(3)] ev(3)
    by (simp add: mset_set_Union del: mset_map)
  also have "set (endpoints_of s') \<union> fst ` set ev = set (endpoints_of s) \<union> set ?new" using ev(1,2) by auto
  also have "mset_set (set (endpoints_of s) \<union> set ?new) = mset (endpoints_of s) + mset ?new"
    unfolding mset_eq_mset_set [OF d(1)] mset_eq_mset_set [OF distinct_filter [OF d(2)]]
    by (rule mset_set_Union) auto
  finally show ?thesis using s by (simp add: objects_def add_ac)
qed

lemma unique_fresh:
  assumes "\<forall>a. count (image_mset ep_addr M) a \<le> 1" and "distinct (map ep_addr es)"
    and "\<forall>e \<in># M. ep_addr e < k" and "\<forall>e \<in> set es. P e \<longrightarrow> k \<le> ep_addr e"
  shows "count (image_mset ep_addr (M + mset (filter P es))) a \<le> 1"
proof -
  have "distinct (map ep_addr (filter P es))" using assms(2) by (rule distinct_map_filter)
  then have "count (mset (map ep_addr (filter P es))) a \<le> 1" by (simp add: distinct_count_atmost_1)
  moreover have "count (image_mset ep_addr M) a = 0 \<or> count (mset (map ep_addr (filter P es))) a = 0"
  proof (rule ccontr)
    assume "\<not> ?thesis"
    then have "a \<in># image_mset ep_addr M" "a \<in># mset (map ep_addr (filter P es))"
      by (auto simp: not_in_iff [symmetric])
    then show False using assms(3,4) by fastforce
  qed
  ultimately show ?thesis using assms(1) [rule_format, of a] by auto
qed

lemma objects_evict:
  assumes "i < length (pend r)"
  shows "objects (r\<lparr>sr_state := (fst (sr_state r), c'), pend := remove_nth i (pend r),
       gone := gone r @ map fst (pend r ! i)\<rparr>) = objects r"
  using mset_remove_nth [OF assms] by (simp add: objects_def add_ac)

context stable_policy
begin

lemma run_ok_evict:
  assumes "run_ok ok r" and "i < length (pend r)"
  shows "runs (evictGoroutine w info (pend r ! i)) (snd (sr_state r)) (\<lambda>_ c'.
     run_ok ok (r\<lparr>sr_state := (fst (sr_state r), c'), pend := remove_nth i (pend r),
       gone := gone r @ map fst (pend r ! i)\<rparr>))"
proof -
  let ?c = "snd (sr_state r)"
  have rd: "dps_ready (DataPlaneConnections ?c)" "nodes_ready (NIStorage ?c)"
    using assms(1) by (simp_all add: run_ok_def service_ok_def ready_def)
  have "\<forall>e \<in> fst ` set (pend r ! i). located ?c e"
    using assms nth_mem [OF assms(2)] unfolding run_ok_def by blast
  from evictGoroutine_runs [OF rd this] show ?thesis
  proof (rule runs_mono)
    fix x c'
    assume c': "nodes_ready (NIStorage c') \<and> same_cluster ?c c' \<and> cp_next c' = cp_next ?c \<and>
      cp_PlacementPolicy c' = cp_PlacementPolicy ?c \<and>
      cp_calls c' = cp_calls ?c @ drain_calls info (pend r ! i) (DataPlaneConnections ?c) @ concat (map (delete_call \<circ> fst) (pend r ! i))"
    have loc: "located c' e = located ?c e" for e using c' located_cong by blast
    have "service_ok ok (fst (sr_state r), c')"
      using assms(1) c' loc ok_cong [of "NIStorage c'" "NIStorage ?c"]
      by (auto simp: run_ok_def service_ok_def ready_def accounting_def Let_def same_cluster_def)
    then show "run_ok ok (r\<lparr>sr_state := (fst (sr_state r), c'), pend := remove_nth i (pend r),
       gone := gone r @ map fst (pend r ! i)\<rparr>)"
      using assms(1) c' loc set_remove_nth_subset [of i "pend r"]
      unfolding run_ok_def objects_evict [OF assms(2)] by auto
  qed
qed

lemma run_ok_iterate:
  assumes r: "run_ok ok r" and w: "world_ok w" "w_Place w = Place"
    and sent: "ch_sent (DesiredStateChannel (ss_Controller (fst (sr_state r)))) \<noteq> []"
    and enabled: "\<not> isDownScalingDisabled (w_now w) (fst (sr_state r))"
  shows "runs (ScalingControllerIteration w) (sr_state r) (\<lambda>(ev, running) s'.
     run_ok ok (r\<lparr>sr_state := s', pend := pend r @ [ev]\<rparr>))"
proof -
  let ?s = "sr_state r"
  let ?vs = "ch_sent (DesiredStateChannel (ss_Controller (fst ?s)))"
  have pos: "0 \<le> last ?vs" using r sent by (simp add: run_ok_def)
  have ok: "service_ok ok ?s" using r by (simp add: run_ok_def)
  show ?thesis
    using iteration_runs [OF w ok refl sent pos enabled]
  proof (rule runs_mono, clarify)
    fix ev :: "(Endpoint, unit) gomap" and s' :: "('a, 'p) service_state"
    assume ok': "service_ok ok s'" and sc: "same_cluster (snd ?s) (snd s')"
      and emp: "ch_sent (DesiredStateChannel (ss_Controller (fst s'))) = []"
      and ev: "fst ` set ev \<subseteq> set (endpoints_of ?s)" "set (endpoints_of ?s) \<subseteq> set (endpoints_of s') \<union> fst ` set ev"
        "set (endpoints_of s') \<inter> fst ` set ev = {}" "gm_wf ev"
      and nxt: "cp_next (snd ?s) \<le> cp_next (snd s')"
        "\<forall>e \<in> set (endpoints_of s'). e \<in> set (endpoints_of ?s) \<or> cp_next (snd ?s) \<le> ep_addr e"
    have acc: "accounting 0 ?s" "accounting 0 s'" using ok ok' by (simp_all add: service_ok_def)
    note obj = objects_iterate [OF acc ev nxt(2) refl]
    have "\<forall>ev' \<in> set (pend r @ [ev]). \<forall>e \<in> fst ` set ev'. located (snd s') e"
      using r ev(1) ok located_cong [OF sc] by (auto simp: run_ok_def service_ok_def)
    moreover have "\<forall>e \<in># objects (r\<lparr>sr_state := s', pend := pend r @ [ev]\<rparr>). ep_addr e < cp_next (snd s')"
      using r nxt(1) acc(2) unfolding obj by (fastforce simp: run_ok_def accounting_def Let_def)
    moreover have "count (image_mset ep_addr (objects (r\<lparr>sr_state := s', pend := pend r @ [ev]\<rparr>))) a \<le> 1" for a
      using r acc(2) nxt(2) unfolding obj by (intro unique_fresh) (auto simp: run_ok_def accounting_def Let_def)
    ultimately show "run_ok ok (r\<lparr>sr_state := s', pend := pend r @ [ev]\<rparr>)"
      using ok' emp unfolding run_ok_def by simp
  qed
qed

end

definition service_runs :: "'p PlacementPolicy \<Rightarrow> ('db, 'p) service_run \<Rightarrow> ('db, 'p) service_run \<Rightarrow> bool" where
  "service_runs Place = (scaling_step Place)\<^sup>*\<^sup>*"

context stable_policy
begin

lemma run_ok_step:
  assumes "scaling_step Place r r'" and "run_ok ok r"
  shows "run_ok ok r'"
  using assms
proof cases
  case (desire d s')
  have "\<not> ch_closed (DesiredStateChannel (ss_Controller (fst (sr_state r))))"
    using assms(2) by (simp add: run_ok_def service_ok_def)
  with desire(3) have s': "s' = ((fst (sr_state r))\<lparr>ss_Controller := (ss_Controller (fst (sr_state r)))
      \<lparr>DesiredStateChannel := (DesiredStateChannel (ss_Controller (fst (sr_state r))))
        \<lparr>ch_sent := ch_sent (DesiredStateChannel (ss_Controller (fst (sr_state r)))) @ [d]\<rparr>\<rparr>\<rparr>, snd (sr_state r))"
    by (simp add: gzoom_def chan_send_def)
  then have "objects r' = objects r" using desire(1) by (simp add: objects_def)
  then show ?thesis
    using assms(2) desire(1,2) s' by (simp add: run_ok_def service_ok_def accounting_def Let_def)
next
  case (iterate w ev running s')
  have sent: "ch_sent (DesiredStateChannel (ss_Controller (fst (sr_state r)))) \<noteq> []"
  proof
    assume "ch_sent (DesiredStateChannel (ss_Controller (fst (sr_state r)))) = []"
    moreover have "\<not> ch_closed (DesiredStateChannel (ss_Controller (fst (sr_state r))))"
      using assms(2) by (simp add: run_ok_def service_ok_def)
    ultimately show False
      using iterate(5) by (simp add: ScalingControllerIteration_def gbind_def gzoom_def chan_recv_def chan_try_def)
  qed
  from run_ok_iterate [OF assms(2) iterate(2,3) sent iterate(4)] iterate(1,5)
  show ?thesis by (simp add: runs_def)
next
  case (evict i w c')
  from run_ok_evict [OF assms(2) evict(2), of w "ss_ServiceInfo (fst (sr_state r))"] evict(1,3) show ?thesis by (simp add: runs_def)
qed

lemma run_ok_runs: "service_runs Place r r' \<Longrightarrow> run_ok ok r \<Longrightarrow> run_ok ok r'"
  unfolding service_runs_def by (induction rule: rtranclp_induct) (auto intro: run_ok_step)

end

section \<open>What the scaling loop guarantees\<close>

lemma runs_returned: "runs m s Q \<Longrightarrow> returned (m s)"
  by (simp add: runs_def returned_def split: outcome.splits)



text \<open>
  C9. Sandboxes are drained before they are killed: the calls an eviction makes are the drain
  requests to every data plane, followed by one deletion per evicted sandbox.
\<close>

theorem sandboxes_drained_before_deleted:
  assumes "dps_ready (DataPlaneConnections c)" and "nodes_ready (NIStorage c)"
    and "\<forall>e \<in> fst ` set ev. located c e"
  shows "runs (evictGoroutine w info ev) c (\<lambda>_ c'. cp_calls c' =
     cp_calls c @ drain_calls info ev (DataPlaneConnections c) @ concat (map (delete_call \<circ> fst) ev))"
  using evictGoroutine_runs [OF assms] by (rule runs_mono) simp

text \<open>
  C31. A deregistered service is never scaled down: once its channel is closed, the loop that drains
  the channel never ends, because a closed channel is always ready; the code that removes all
  endpoints is not reached.
\<close>

theorem closed_channel_spins:
  assumes "ch_closed (DesiredStateChannel (ss_Controller (fst s)))"
  shows "\<exists>s'. ScalingControllerIteration w s = Blocked ''the draining loop never ends'' s' \<and>
     endpoints_of s' = endpoints_of s \<and> snd s' = snd s"
proof -
  obtain r ch where "chan_recv (DesiredStateChannel (ss_Controller (fst s))) = Ret r ch" "ch_closed ch"
    using assms by (cases "ch_sent (DesiredStateChannel (ss_Controller (fst s)))") (auto simp: chan_recv_def chan_try_def)
  then show ?thesis
    by (simp add: ScalingControllerIteration_def gbind_def gzoom_def drainDesired_def drainChannel_closed)
qed


section \<open>Examples\<close>

definition demo_config :: ControlPlaneConfig where
  "demo_config = \<lparr>cpc_Port = ''9090'', cpc_Replicas = [], cpc_RegistrationServer = ''10.0.0.1:9091'',
     cpc_RegistrationServerReplicas = [], cpc_Verbosity = ''info'', cpc_TraceOutputFolder = ''data'',
     cpc_PlacementPolicy = ''random'', cpc_Persistence = False,
     cpc_Profiler = \<lparr>prof_Enable = False, prof_Mutex = False\<rparr>,
     cpc_RedisConf = \<lparr>redis_Address = [], redis_DockerAddress = [], redis_Password = [], redis_Replicas = [],
        redis_Db = 0, redis_FullPersistence = False\<rparr>,
     cpc_Reconstruct = False, cpc_LoadBalancerAddress = [], cpc_RemoveWorkerNode = False,
     cpc_RemoveDataplane = False, cpc_PrecreateSnapshots = False, cpc_EndpointPersistence = False\<rparr>"

definition demo_cp :: "'p \<Rightarrow> (unit, 'p) ControlPlane" where
  \<comment> \<open>one data plane and one worker node\<close>
  "demo_cp p = \<lparr>
     DataPlaneConnections = \<lparr>InternalMap = [(''10.0.0.9'', \<lparr>dc_Iface = True, dc_IP = ''10.0.0.9'',
        dc_APIPort = ''8081'', dc_ProxyPort = ''8080'', dc_LastHeartBeat = 0\<rparr>)], wlocked = False, rlocks = 0\<rparr>,
     NIStorage = \<lparr>InternalMap = [(''n1'', ConnectToWorker True (demo_node ''n1'' True))], wlocked = False, rlocks = 0\<rparr>,
     SIStorage = NewControlPlaneSyncStructure, cp_PlacementPolicy = p, cp_db = (), cp_Config = demo_config,
     cp_calls = [], cp_traces = [], cp_next = 0\<rparr>"

definition demo_world :: "'p PlacementPolicy \<Rightarrow> (unit, 'p) world" where
  "demo_world Place = \<lparr>w_pl = EmptyPersistence, w_Place = Place, w_now = 10 ^ 18, w_err = (\<lambda>_ _. False),
     w_create = (\<lambda>i name info. Some \<lparr>sc_Success = True, sc_ID = dec i,
        sc_PortMappings = Some \<lparr>pm_HostPort = int i, pm_GuestPort = 80, pm_Protocol = L4Protocol_TCP\<rparr>\<rparr>),
     w_list = (\<lambda>_ _. None), w_dial = (\<lambda>_. True), w_Intn = (\<lambda>i n. 0)\<rparr>"

definition demo_ss :: "int list \<Rightarrow> ServiceInfoStorage" where
  "demo_ss ds = \<lparr>ss_ServiceInfo = demo_service ''f'',
     ss_Controller = NewPerFunctionStateController \<lparr>ch_sent = ds, ch_closed = False\<rparr> (demo_service ''f'') 2000000000,
     ss_StartTime = 0\<rparr>"

lemmas demo_defs = demo_cp_def demo_world_def demo_ss_def NewPerFunctionStateController_def fresh_metadata_def
  demo_service_def demo_node_def WorkerNode_defs

lemma demo_world_ok [simp]: "world_ok (demo_world Place)" "creates_always (demo_world Place)" "w_Place (demo_world Place) = Place"
  by (auto simp: world_ok_def creates_always_def demo_world_def EmptyPersistence_def wp)

lemma demo_ready [simp]: "ready ok (demo_cp p) = ok p (NIStorage (demo_cp p))" "has_node (demo_cp p)"
  by (simp_all add: ready_def dps_ready_def nodes_ready_def node_ready_def unlocked_def demo_defs has_node_def
      Structure_defs)

lemma demo_service_ok: "ok p (NIStorage (demo_cp p)) \<Longrightarrow> service_ok ok (demo_ss ds, demo_cp p)"
  by (simp add: service_ok_def accounting_def Let_def) (simp add: demo_defs)

lemma demo_enabled [simp]: "\<not> isDownScalingDisabled (w_now (demo_world Place)) (demo_ss ds)"
  by (simp add: isDownScalingDisabled_def demo_defs)

lemma demo_sent [simp]: "DesiredStateChannel (ss_Controller (demo_ss ds)) = \<lparr>ch_sent = ds, ch_closed = False\<rparr>"
  "Endpoints (ss_Controller (demo_ss ds)) = []" "ss_ServiceInfo (demo_ss ds) = demo_service ''f''"
  by (simp_all add: demo_defs)



theorem sandboxes_drained_before_deleted_witness:
  "runs (evictGoroutine (demo_world RoundRobin_Place) (demo_service ''f'')
       [(newEndpoint 0 (demo_node ''n1'' True) ''s1'' 80, ())]) (demo_cp 0)
     (\<lambda>_ c'. cp_calls c' = [RpcDrainSandbox ''10.0.0.9''
          \<lparr>patch_Service = Some (demo_service ''f''), patch_Endpoints = Some [\<lparr>ei_ID = ''s1'', ei_URL = ''10.0.0.1:80''\<rparr>]\<rparr>,
        RpcDeleteSandbox ''n1'' \<lparr>sid_ID = ''s1'', sid_HostPort = 80\<rparr>])"
proof -
  have "dec 80 = ''80''" by code_simp
  then show ?thesis
    using sandboxes_drained_before_deleted [of "demo_cp (0 :: int)" "[(newEndpoint 0 (demo_node ''n1'' True) ''s1'' 80, ())]"
        "demo_world RoundRobin_Place" "demo_service ''f''"] demo_ready(1) [of "\<lambda>_ _. True" "0 :: int"]
    by (simp add: ready_def) (auto elim!: runs_mono simp: located_def drain_calls_def delete_call_def newEndpoint_def
        prepareEndpointInfo_def demo_cp_def demo_node_def WorkerNode_defs Structure_defs itoa_def)
qed

theorem closed_channel_spins_witness:
  "\<exists>s'. ScalingControllerIteration (demo_world RoundRobin_Place)
      ((demo_ss [])\<lparr>ss_Controller := (ss_Controller (demo_ss []))\<lparr>DesiredStateChannel := \<lparr>ch_sent = [], ch_closed = True\<rparr>\<rparr>\<rparr>,
       demo_cp 0) = Blocked ''the draining loop never ends'' s'"
  using closed_channel_spins [of "((demo_ss [])\<lparr>ss_Controller := (ss_Controller (demo_ss []))
     \<lparr>DesiredStateChannel := \<lparr>ch_sent = [], ch_closed = True\<rparr>\<rparr>\<rparr>, demo_cp 0)" "demo_world RoundRobin_Place"]
  by auto



section \<open>The life of the autoscaling loop\<close>

definition loop_alive :: "PFStateController \<Rightarrow> bool" where
  "loop_alive as \<longleftrightarrow> AutoscalingRunning as = 1 \<and> StopCh as \<noteq> None"

definition loop_ended :: "PFStateController \<Rightarrow> bool" where
  "loop_ended as \<longleftrightarrow> AutoscalingRunning as = 0 \<and> StopCh as = None"

abbreviation sent_of :: "PFStateController \<Rightarrow> int list" where
  "sent_of as \<equiv> ch_sent (DesiredStateChannel as)"

lemma scalingCycle_outcome:
  assumes "scalingCycle clamp now z as = Ret stopped as'" and "loop_alive as"
  shows "\<exists>d. sent_of as' = sent_of as @ [d] \<and> (stopped \<longleftrightarrow> d = 0) \<and> (z \<longrightarrow> d = 1) \<and>
     (if stopped then loop_ended as' else loop_alive as')"
proof -
  from assms(1) obtain d as1 where k: "on_metadata (KnativeScaling clamp now z) as = Ret d as1"
    and rest: "gthen (on_channel (chan_send d))
      (if d = 0 then gthen stopAutoscalingLoop (gret True) else gret False) as1 = Ret stopped as'"
    unfolding scalingCycle_def by (elim gbind_RetE)
  obtain m where "as1 = as\<lparr>ScalingMetadata := m\<rparr>"
    using k by (auto simp: gzoom_def split: outcome.splits)
  moreover have "z \<longrightarrow> d = 1"
    using k by (auto simp: gzoom_def KnativeScaling_def split: outcome.splits)
  ultimately show ?thesis
    using rest assms(2)
    by (auto simp: gthen_apply gzoom_def chan_send_def stopAutoscalingLoop_def gret_def loop_alive_def
        loop_ended_def split: if_splits option.splits)
qed

lemma scalingSelect_outcome:
  assumes "scalingSelect clamp evs as = Ret stopped as'" and "loop_alive as"
  shows "(if stopped then loop_ended as' else loop_alive as') \<and> prefix (sent_of as) (sent_of as') \<and>
     (stopped \<longrightarrow> StopReceived \<in> set evs \<or> last (sent_of as') = 0)"
  using assms
proof (induction evs arbitrary: as)
  case Nil
  then show ?case by (simp add: gret_def)
next
  case (Cons ev evs)
  show ?case
  proof (cases ev)
    case (Tick now)
    with Cons.prems(1) obtain t as1 where c: "scalingCycle clamp now False as = Ret t as1"
      and rest: "(if t then gret True else scalingSelect clamp evs) as1 = Ret stopped as'"
      by (auto elim: gbind_RetE)
    from scalingCycle_outcome [OF c Cons.prems(2)] obtain d where
      d: "sent_of as1 = sent_of as @ [d]" "t \<longleftrightarrow> d = 0" "if t then loop_ended as1 else loop_alive as1" by blast
    show ?thesis
    proof (cases t)
      case True
      with rest d show ?thesis by (auto simp: gret_def)
    next
      case False
      with rest d Cons.IH [of as1] show ?thesis by (auto intro: prefix_order.trans simp: append_prefixD)
    qed
  next
    case StopReceived
    with Cons.prems show ?thesis
      by (auto simp: go_monad stopAutoscalingLoop_def loop_ended_def split: option.splits nat.splits)
  qed
qed



end
