(* ===== verification/Control_Plane.thy ===== *)
theory Control_Plane
  imports Scaling
begin

text \<open>
  \<^verbatim>\<open>control_plane.go\<close>, \<^verbatim>\<open>helpers.go\<close> and \<^verbatim>\<open>failure.go\<close>: the handlers of the control plane. A handler is a
  goroutine on the whole state, with its locks, its calls to the persistence layer and its calls to
  the data planes and worker nodes. A \<^verbatim>\<open>go\<close> statement is a definition of its own, which may run at any later
  time; the two periodic checks are given as one round each.
\<close>

type_synonym 'a answer = "'a \<times> error option"

definition on_service :: "string \<Rightarrow> (('db, 'p) service_state, 'a) go \<Rightarrow> (('db, 'p) ControlPlane, 'a) go" where
  \<comment> \<open>a method of the service that \<^verbatim>\<open>SIStorage\<close> holds under a name; nil if there is none\<close>
  "on_service name m c = (case Structure_Get (SIStorage c) name of
       None \<Rightarrow> Panic ''nil pointer dereference'' c
     | Some ss \<Rightarrow> gzoom (\<lambda>c. (ss, c))
         (\<lambda>s c. (snd s)\<lparr>SIStorage := Structure_Set name (fst s) (SIStorage (snd s))\<rparr>) m c)"

definition with_si_lock :: "(('db, 'p) ControlPlane, 'a) go \<Rightarrow> (('db, 'p) ControlPlane, 'a) go" where
  \<comment> \<open>\<^verbatim>\<open>c.SIStorage.Lock(); defer c.SIStorage.Unlock()\<close>\<close>
  "with_si_lock m = gthen (on_si Structure_Lock) (gdefer (on_si Structure_Unlock) m)"

definition with_dp_lock :: "(('db, 'p) ControlPlane, 'a) go \<Rightarrow> (('db, 'p) ControlPlane, 'a) go" where
  "with_dp_lock m = gthen (on_dp Structure_Lock) (gdefer (on_dp Structure_Unlock) m)"

definition with_ni_lock :: "(('db, 'p) ControlPlane, 'a) go \<Rightarrow> (('db, 'p) ControlPlane, 'a) go" where
  "with_ni_lock m = gthen (on_ni Structure_Lock) (gdefer (on_ni Structure_Unlock) m)"

definition NewControlPlane :: "'db \<Rightarrow> 'p \<Rightarrow> ControlPlaneConfig \<Rightarrow> ('db, 'p) ControlPlane" where
  "NewControlPlane db placementPolicy cfg = \<lparr>
     DataPlaneConnections = NewControlPlaneSyncStructure, NIStorage = NewControlPlaneSyncStructure,
     SIStorage = NewControlPlaneSyncStructure, cp_PlacementPolicy = placementPolicy, cp_db = db,
     cp_Config = cfg, cp_calls = [], cp_traces = [], cp_next = 0\<rparr>"

section \<open>Data planes\<close>

definition dataplaneInformation :: "DataplaneInfo \<Rightarrow> DataplaneInformation" where
  "dataplaneInformation inp = \<lparr>di_Address = dpi_IP inp, di_ApiPort = itoa (dpi_APIPort inp),
     di_ProxyPort = itoa (dpi_ProxyPort inp)\<rparr>"

definition announceServices ::
  "('db, 'p) world \<Rightarrow> string \<Rightarrow> DataPlaneConnectionInfo \<Rightarrow>
   (('db, 'p) ControlPlane, (ActionStatus \<times> error option \<times> bool) option) go" where
  \<comment> \<open>the loop of \<^verbatim>\<open>RegisterDataplane\<close> over the services\<close>
  "announceServices w key conn =
     gbind (gget (\<lambda>c. Structure_GetMap (SIStorage c))) (\<lambda>services.
       grange services (\<lambda>(name, ss).
         gbind (dp_call w conn (RpcAddDeployment (dc_IP conn) (ss_ServiceInfo ss))) (\<lambda>err.
           if err then gthen (on_dp (gmodify (Structure_Remove key))) (gret (Some (Failed, Some ''rpc'', False)))
           else gthen (singlethreadUpdateEndpoints w (ss_ServiceInfo ss) (prepareCurrentEndpointInfoList ss))
                  (gret None))))"

definition RegisterDataplane ::
  "('db, 'p) world \<Rightarrow> DataplaneInfo \<Rightarrow> (('db, 'p) ControlPlane, ActionStatus \<times> error option \<times> bool) go" where
  "RegisterDataplane w inp =
     (let dataplaneInfo = dataplaneInformation inp; key = dpi_IP inp;
          conn = NewDataplaneConnection (w_now w) (di_Address dataplaneInfo) (di_ApiPort dataplaneInfo)
                   (di_ProxyPort dataplaneInfo)
      in with_si_lock (with_dp_lock
        (gbind (gget (\<lambda>c. Structure_Get (DataPlaneConnections c) key)) (\<lambda>old.
         case old of
           Some d \<Rightarrow> gthen (on_dp (gmodify (Structure_Set key (UpdateHeartBeat (w_now w) d))))
                       (gret (Success, None, True))
         | None \<Rightarrow>
             gbind (on_db (pl_StoreDataPlaneInformation (w_pl w) dataplaneInfo)) (\<lambda>err.
             if err \<noteq> None
             then gthen (on_dp (gmodify (Structure_Remove key))) (gret (Failed, err, False))
             else (case InitializeDataPlaneConnection (w_dial w key) conn of
                 Ret True _ \<Rightarrow> gthen (on_dp (gmodify (Structure_Remove key))) (gret (Failed, Some ''dial'', False))
               | Ret False conn' \<Rightarrow>
                   gthen (on_dp (gmodify (Structure_Set key conn')))
                     (gbind (announceServices w key conn') (\<lambda>r.
                        case r of Some out \<Rightarrow> gret out | None \<Rightarrow> gret (Success, None, False)))
               | _ \<Rightarrow> gpanic ''unreachable''))))))"

definition DeregisterDataplane ::
  "('db, 'p) world \<Rightarrow> DataplaneInfo \<Rightarrow> (('db, 'p) ControlPlane, ActionStatus answer) go" where
  "DeregisterDataplane w inp =
     (let dataplaneInfo = dataplaneInformation inp
      in with_si_lock (with_dp_lock
        (gbind (gget (\<lambda>c. Structure_Get (DataPlaneConnections c) (di_Address dataplaneInfo))) (\<lambda>old.
         case old of
           None \<Rightarrow> gret (Success, None)
         | Some d \<Rightarrow>
             gbind (on_db (pl_DeleteDataPlaneInformation (w_pl w) dataplaneInfo)) (\<lambda>err.
             if err \<noteq> None then gret (Failed, err)
             else gbind (gget (\<lambda>c. Structure_GetKeys (SIStorage c))) (\<lambda>names.
               gthen (grange names (\<lambda>name. gthen (on_service name (on_controller (on_metadata
                         (gmodify (RemoveDataplane (dpi_IP inp)))))) (gret (None :: unit option))))
                 (gthen (on_dp (gmodify (Structure_Remove (di_Address dataplaneInfo))))
                   (gret (Success, None)))))))))"

definition proxyAddress :: "DataPlaneConnectionInfo \<Rightarrow> string" where
  "proxyAddress conn = dc_IP conn @ '':'' @ dc_ProxyPort conn"

definition GetHAProxyConfig :: "(('db, 'p) ControlPlane, HAProxyConfig) go" where
  "GetHAProxyConfig =
     gbind (gget (\<lambda>c. cpc_RegistrationServer (cp_Config c) # cpc_RegistrationServerReplicas (cp_Config c))) (\<lambda>servers.
       gthen (on_dp Structure_Lock)
         (gbind (gget (\<lambda>c. map proxyAddress (Structure_GetValues (DataPlaneConnections c)))) (\<lambda>dataPlanes.
            gthen (on_dp Structure_Unlock)
              (gret \<lparr>hc_Dataplanes = dataPlanes, hc_RegistrationServers = servers\<rparr>))))"

definition ReviseDataplanesInLB :: "(string list \<Rightarrow> bool) \<Rightarrow> (('db, 'p) ControlPlane, bool) go" where
  "ReviseDataplanesInLB callback =
     gthen (on_dp Structure_RLock) (gdefer (on_dp Structure_RUnlock)
       (gget (\<lambda>c. callback (map proxyAddress (Structure_GetValues (DataPlaneConnections c))))))"

section \<open>Worker nodes\<close>

definition nodeConfiguration :: "NodeInfo \<Rightarrow> WorkerNodeConfiguration" where
  "nodeConfiguration inp = \<lparr>wc_Name = ni_NodeID inp, wc_IP = ni_IP inp, wc_Port = itoa (ni_Port inp),
     wc_CpuCores = ni_CpuCores inp, wc_Memory = ni_MemorySize inp\<rparr>"

definition nodeInformation :: "NodeInfo \<Rightarrow> WorkerNodeInformation" where
  "nodeInformation inp = \<lparr>wi_Name = ni_NodeID inp, wi_Ip = ni_IP inp, wi_Port = itoa (ni_Port inp),
     wi_CpuCores = ni_CpuCores inp, wi_Memory = ni_MemorySize inp\<rparr>"

definition RegisterNode :: "('db, 'p) world \<Rightarrow> NodeInfo \<Rightarrow> (('db, 'p) ControlPlane, ActionStatus answer) go" where
  "RegisterNode w inp =
     (let wn = NewWorkerNode (w_now w) (nodeConfiguration inp)
      in with_ni_lock
        (gbind (gget (\<lambda>c. Structure_Present (NIStorage c) (ni_NodeID inp))) (\<lambda>present.
         if present
         then gret (\<lparr>as_Success = False,
                as_Message = ''Node registration failed. Node with the same name already exists.''\<rparr>, None)
         else gbind (on_db (pl_StoreWorkerNodeInformation (w_pl w) (nodeInformation inp))) (\<lambda>err.
           if err \<noteq> None
           then gthen (on_ni (Structure_AtomicRemove (ni_NodeID inp))) (gret (Failed, err))
           else gthen (on_ni (gmodify (Structure_Set (ni_NodeID inp) (SetSchedulability True wn))))
                  (gret (Success, None))))))"

definition connectNode :: "('db, 'p) world \<Rightarrow> string \<Rightarrow> (('db, 'p) ControlPlane, unit) go" where
  \<comment> \<open>the goroutine \<^verbatim>\<open>go wn.ConnectToWorker()\<close>; a node that has been deregistered meanwhile is out of reach\<close>
  "connectNode w name =
     gbind (gget (\<lambda>c. Structure_Present (NIStorage c) name)) (\<lambda>present.
       gwhen present (on_node name (gmodify (ConnectToWorker (w_dial w name)))))"

definition excludeNode :: "string \<Rightarrow> (('db, 'p) service_state, unit) go" where
  \<comment> \<open>the body of the loop of \<^verbatim>\<open>removeEndointsAssociatedWithNode\<close>; the endpoints all have a node\<close>
  "excludeNode nodeID =
     gthen (on_controller EndpointLock_Lock)
       (gbind (gget (\<lambda>s. Endpoints (ss_Controller (fst s)))) (\<lambda>es.
          if \<exists>e \<in> set es. ep_Node e = None then gpanic ''nil pointer dereference''
          else let toExclude = foldl (\<lambda>m e. if ep_Node e = Some nodeID then gm_set e () m else m) [] es
            in gthen (on_controller (gmodify (excludeEndpoints toExclude)))
              (gthen (on_controller EndpointLock_Unlock)
                 (on_controller (gmodify (addActualScale (- int (length toExclude))))))))"

definition removeEndointsAssociatedWithNode :: "string \<Rightarrow> (('db, 'p) ControlPlane, unit) go" where
  "removeEndointsAssociatedWithNode nodeID =
     gthen (on_si Structure_Lock)
       (gbind (gget (\<lambda>c. Structure_GetKeys (SIStorage c))) (\<lambda>names.
          gthen (grange names (\<lambda>name. gthen (on_service name (excludeNode nodeID)) (gret (None :: unit option))))
            (on_si Structure_Unlock)))"

definition DeregisterNode :: "('db, 'p) world \<Rightarrow> NodeInfo \<Rightarrow> (('db, 'p) ControlPlane, ActionStatus answer) go" where
  "DeregisterNode w inp =
     with_ni_lock
       (gbind (gget (\<lambda>c. Structure_Present (NIStorage c) (ni_NodeID inp))) (\<lambda>present.
        if present
        then gbind (on_db (pl_DeleteWorkerNodeInformation (w_pl w) (ni_NodeID inp))) (\<lambda>err.
          if err \<noteq> None then gret (Failed, err)
          else gthen (removeEndointsAssociatedWithNode (ni_NodeID inp))
            (gthen (on_ni (gmodify (Structure_Remove (ni_NodeID inp)))) (gret (Success, None))))
        else gret (\<lparr>as_Success = False, as_Message = ''Node registration failed. Node doesn't exists.''\<rparr>, None)))"

definition NodeHeartbeat :: "('db, 'p) world \<Rightarrow> NodeHeartbeatMessage \<Rightarrow> (('db, 'p) ControlPlane, ActionStatus answer) go" where
  \<comment> \<open>takes no lock\<close>
  "NodeHeartbeat w inp =
     gbind (gget (\<lambda>c. Structure_Present (NIStorage c) (hb_NodeID inp))) (\<lambda>present.
       if \<not> present then gret (Failed, None)
       else gthen (on_node (hb_NodeID inp) (gmodify (\<lambda>n. SetSchedulability True (SetMemoryUsage (hb_MemoryUsage inp)
                (SetCpuUsage (hb_CpuUsage inp) (UpdateLastHearBeat (w_now w) n))))))
              (gret (Success, None)))"


section \<open>Services\<close>

definition notifyDataplanesAndStartScalingLoop ::
  "('db, 'p) world \<Rightarrow> ServiceInfo \<Rightarrow> bool \<Rightarrow> (('db, 'p) ControlPlane, error option) go" where
  \<comment> \<open>ends with the start of the scaling loop of the new service\<close>
  "notifyDataplanesAndStartScalingLoop w serviceInfo reconstructFromPersistence =
     gthen (on_dp Structure_Lock)
       (gbind (gget (\<lambda>c. Structure_GetMap (DataPlaneConnections c))) (\<lambda>dps.
          gthen (grange dps (\<lambda>(key, conn).
              gthen (dp_call w conn (RpcAddDeployment (dc_IP conn) serviceInfo)) (gret (None :: unit option))))
            (gthen (on_dp Structure_Unlock)
              (gthen (on_si (gmodify (Structure_Set (si_Name serviceInfo)
                  \<lparr>ss_ServiceInfo = serviceInfo,
                   ss_Controller = NewPerFunctionStateController chan_make serviceInfo 2000000000,
                   ss_StartTime = (if reconstructFromPersistence then w_now w else 0)\<rparr>)))
                (gret None)))))"

definition removeServiceFromDataplane ::
  "('db, 'p) world \<Rightarrow> ServiceInfo \<Rightarrow> (('db, 'p) ControlPlane, error option) go" where
  \<comment> \<open>an error leaves the function with the lock held\<close>
  "removeServiceFromDataplane w serviceInfo =
     gthen (on_dp Structure_Lock)
       (gbind (gget (\<lambda>c. Structure_GetMap (DataPlaneConnections c))) (\<lambda>dps.
          gbind (grange dps (\<lambda>(key, conn).
              gbind (dp_call w conn (RpcDeleteDeployment (dc_IP conn) serviceInfo)) (\<lambda>err.
                gret (if err then Some ''rpc'' else None))))
            (\<lambda>r. case r of
               Some err \<Rightarrow> gret (Some err)
             | None \<Rightarrow> gthen (on_dp Structure_Unlock) (gret None))))"

definition precreateOn ::
  "('db, 'p) world \<Rightarrow> ServiceInfo \<Rightarrow> WorkerNode \<Rightarrow> (('db, 'p) ControlPlane, unit) go" where
  \<comment> \<open>the goroutine of \<^verbatim>\<open>precreateSnapshots\<close> for one node\<close>
  "precreateOn w info n =
     gbind (createSandbox w n info) (\<lambda>resp. case resp of
         None \<Rightarrow> gret ()
       | Some r \<Rightarrow> (case sc_PortMappings r of
             None \<Rightarrow> gpanic ''nil pointer dereference''
           | Some pm \<Rightarrow> gthen (cp_call w (RpcDeleteSandbox (wn_Name n)
                            \<lparr>sid_ID = sc_ID r, sid_HostPort = pm_HostPort pm\<rparr>)) (gret ())))"

definition precreateSnapshots :: "('db, 'p) world \<Rightarrow> ServiceInfo \<Rightarrow> (('db, 'p) ControlPlane, unit) go" where
  "precreateSnapshots w info =
     with_si_lock
       (gbind (gget (\<lambda>c. Structure_Get (SIStorage c) (si_Name info))) (\<lambda>found.
        gbind (gget (\<lambda>c. Structure_GetValues (NIStorage c))) (\<lambda>nodes.
          gthen (grange nodes (\<lambda>n.
              gthen (case found of None \<Rightarrow> gpanic ''nil pointer dereference''
                     | Some ss \<Rightarrow> precreateOn w (ss_ServiceInfo ss) n) (gret (None :: unit option))))
            (gret ()))))"

definition RegisterService :: "('db, 'p) world \<Rightarrow> ServiceInfo \<Rightarrow> (('db, 'p) ControlPlane, ActionStatus answer) go" where
  "RegisterService w serviceInfo =
     with_si_lock
       (gbind (gget (\<lambda>c. Structure_Present (SIStorage c) (si_Name serviceInfo))) (\<lambda>present.
        if present then gret (Failed, Some ''service is already registered'')
        else gbind (on_db (pl_StoreServiceInformation (w_pl w) serviceInfo)) (\<lambda>err.
          if err \<noteq> None
          then gthen (on_si (Structure_AtomicRemove (si_Name serviceInfo))) (gret (Failed, err))
          else gbind (notifyDataplanesAndStartScalingLoop w serviceInfo False) (\<lambda>err.
            if err \<noteq> None
            then gthen (on_si (Structure_AtomicRemove (si_Name serviceInfo))) (gret (Failed, err))
            else gbind (gget (\<lambda>c. cpc_PrecreateSnapshots (cp_Config c))) (\<lambda>precreate.
              gthen (gwhen precreate (precreateSnapshots w serviceInfo)) (gret (Success, None)))))))"

definition DeregisterService :: "('db, 'p) world \<Rightarrow> ServiceInfo \<Rightarrow> (('db, 'p) ControlPlane, ActionStatus answer) go" where
  "DeregisterService w serviceInfo =
     with_si_lock
       (gbind (gget (\<lambda>c. Structure_Present (SIStorage c) (si_Name serviceInfo))) (\<lambda>present.
        if present
        then gbind (on_db (pl_DeleteServiceInformation (w_pl w) serviceInfo)) (\<lambda>err.
          if err \<noteq> None then gret (Failed, err)
          else gbind (removeServiceFromDataplane w serviceInfo) (\<lambda>err.
            if err \<noteq> None then gret (Failed, err)
            else gthen (on_service (si_Name serviceInfo) (on_controller (on_channel chan_close)))
              (gthen (on_si (gmodify (Structure_Remove (si_Name serviceInfo)))) (gret (Success, None)))))
        else gret (Failed, Some ''service is not registered'')))"

definition ListServices :: "(('db, 'p) ControlPlane, string list) go" where
  "ListServices = gthen (on_si Structure_RLock) (gdefer (on_si Structure_RUnlock)
     (gget (\<lambda>c. map_Keys (Structure_GetMap (SIStorage c)))))"

definition OnMetricsReceive ::
  "AutoscalingMetric \<Rightarrow> (('db, 'p) ControlPlane, ActionStatus \<times> bool) go" where
  \<comment> \<open>also tells whether the goroutine of the autoscaling loop has been started\<close>
  "OnMetricsReceive metric =
     gbind (on_si (Structure_AtomicGet (am_ServiceName metric))) (\<lambda>storage. case storage of
         None \<Rightarrow> gret (Failed, False)
       | Some _ \<Rightarrow> gthen (on_service (am_ServiceName metric) (on_controller (on_metadata
                       (gmodify (SetCachedScalingMetric metric)))))
           (gbind (on_service (am_ServiceName metric) (on_controller Controller_Start)) (\<lambda>started.
              gret (Success, started))))"

definition StopAllScalingLoops :: "(('db, 'p) ControlPlane, unit) go" where
  "StopAllScalingLoops =
     with_si_lock
       (gbind (gget (\<lambda>c. Structure_GetKeys (SIStorage c))) (\<lambda>names.
          gthen (grange names (\<lambda>name. gthen (on_service name (on_controller Controller_Stop)) (gret (None :: unit option))))
            (gret ())))"

section \<open>Failures\<close>

fun searchEndpointByContainerName :: "Endpoint list \<Rightarrow> string \<Rightarrow> Endpoint option" where
  "searchEndpointByContainerName [] cid = None"
| "searchEndpointByContainerName (e # es) cid =
     (if ep_SandboxID e = cid then Some e else searchEndpointByContainerName es cid)"

fun collectRemoved :: "string list \<Rightarrow> (Endpoint, unit) gomap \<Rightarrow> (('db, 'p) service_state, (Endpoint, unit) gomap) go" where
  \<comment> \<open>the loop of \<^verbatim>\<open>removeEndpoints\<close>\<close>
  "collectRemoved [] toRemove = gret toRemove"
| "collectRemoved (cid # cids) toRemove =
     gbind (gget (\<lambda>s. searchEndpointByContainerName (Endpoints (ss_Controller (fst s))) cid)) (\<lambda>endpoint.
       case endpoint of
         None \<Rightarrow> collectRemoved cids toRemove
       | Some e \<Rightarrow> gthen (on_cp (removeEndpointFromWNStruct e)) (collectRemoved cids (gm_set e () toRemove)))"

definition removeEndpoints :: "('db, 'p) world \<Rightarrow> string list \<Rightarrow> (('db, 'p) service_state, unit) go" where
  "removeEndpoints w endpoints =
     gthen (on_controller EndpointLock_Lock) (gdefer (on_controller EndpointLock_Unlock)
       (gbind (collectRemoved endpoints []) (\<lambda>toRemove.
          gthen (on_controller (gmodify (addActualScale (- int (length toRemove)))))
            (gthen (on_controller (gmodify (excludeEndpoints toRemove)))
               (gbind (gget (\<lambda>s. (ss_ServiceInfo (fst s), prepareEndpointInfo (Endpoints (ss_Controller (fst s))))))
                  (\<lambda>(info, urls). on_cp (updateEndpoints w info urls)))))))"

definition HandleFailure :: "('db, 'p) world \<Rightarrow> Failure list \<Rightarrow> (('db, 'p) ControlPlane, bool) go" where
  "HandleFailure w failures =
     gthen (grange failures (\<lambda>f.
         gthen (case f_Type f of
             SANDBOX_DAEMON_FAILURE \<Rightarrow> gret ()
           | _ \<Rightarrow> gbind (gget (\<lambda>c. Structure_Present (SIStorage c) (f_ServiceName f))) (\<lambda>present.
                    gwhen present (on_service (f_ServiceName f) (removeEndpoints w (f_SandboxIDs f)))))
           (gret (None :: unit option))))
       (gret True)"

definition getServicesOnWorkerNode :: "WorkerNode \<Rightarrow> (('db, 'p) ControlPlane, string list) go" where
  "getServicesOnWorkerNode wn =
     gbind (on_ni (Structure_AtomicGet (wn_Name wn))) (\<lambda>toRemove. case toRemove of
         None \<Rightarrow> gret []
       | Some n \<Rightarrow>
           gthen (on_node (wn_Name wn) (on_endpoint_map Structure_RLock))
             (gthen (on_node (wn_Name wn) (on_endpoint_map Structure_RUnlock))
                (gret (map ep_SandboxID (Structure_GetKeys (wn_endpointMap n))))))"

fun failureEvents :: "WorkerNode \<Rightarrow> string list \<Rightarrow> Failure list \<Rightarrow> (('db, 'p) ControlPlane, Failure list) go" where
  "failureEvents wn [] failures = gret failures"
| "failureEvents wn (name # names) failures =
     gbind (getServicesOnWorkerNode wn) (\<lambda>ids.
       failureEvents wn names (if ids \<noteq> []
          then failures @ [\<lparr>f_Type = WORKER_NODE_FAILURE, f_ServiceName = name, f_SandboxIDs = ids\<rparr>]
          else failures))"

definition createWorkerNodeFailureEvents :: "WorkerNode \<Rightarrow> (('db, 'p) ControlPlane, Failure list) go" where
  "createWorkerNodeFailureEvents wn =
     with_si_lock
       (gbind (gget (\<lambda>c. map (\<lambda>ss. si_Name (ss_ServiceInfo ss)) (Structure_GetValues (SIStorage c)))) (\<lambda>names.
          failureEvents wn names []))"

section \<open>Monitoring\<close>

fun checkNodes :: "('db, 'p) world \<Rightarrow> string list \<Rightarrow> Failure list \<Rightarrow> (('db, 'p) ControlPlane, Failure list) go" where
  \<comment> \<open>the loop of a round of \<^verbatim>\<open>CheckPeriodicallyWorkerNodes\<close>\<close>
  "checkNodes w [] events = gret events"
| "checkNodes w (name # names) events =
     gthen (on_node name (gmodify (SetSchedulability True)))
       (gbind (on_node name (gget id)) (\<lambda>wn.
          if w_now w - wn_LastHeartbeat wn > TolerateHeartbeatMisses * HeartbeatInterval
          then gbind (createWorkerNodeFailureEvents wn) (\<lambda>new.
                 gthen (on_node name (gmodify (SetSchedulability False))) (checkNodes w names (events @ new)))
          else checkNodes w names events))"

definition CheckWorkerNodes :: "('db, 'p) world \<Rightarrow> (('db, 'p) ControlPlane, unit) go" where
  \<comment> \<open>one round of \<^verbatim>\<open>CheckPeriodicallyWorkerNodes\<close>\<close>
  "CheckWorkerNodes w =
     gthen (on_ni Structure_Lock)
       (gbind (gget (\<lambda>c. Structure_GetKeys (NIStorage c))) (\<lambda>names.
          gbind (checkNodes w names []) (\<lambda>events.
            gthen (on_ni Structure_Unlock) (gthen (HandleFailure w events) (gret ())))))"

definition ParseInt :: "string \<Rightarrow> int" where
  \<comment> \<open>\<^verbatim>\<open>strconv.ParseInt(s, 10, 64)\<close> with the error ignored\<close>
  "ParseInt s = (case s of
       [] \<Rightarrow> 0
     | c # cs \<Rightarrow>
         let digits = (if c = CHR ''-'' \<or> c = CHR ''+'' then cs else s);
             v = int (dec_val 0 digits)
         in if digits \<noteq> [] \<and> (\<forall>d \<in> set digits. of_char d \<in> {48..57 :: nat})
            then (if c = CHR ''-'' then - v else v) else 0)"

definition CheckDataplanes :: "('db, 'p) world \<Rightarrow> (('db, 'p) ControlPlane, unit) go" where
  \<comment> \<open>one round of \<^verbatim>\<open>CheckPeriodicallyDataplanes\<close>, which does not fill in the address\<close>
  "CheckDataplanes w =
     gthen (on_dp Structure_Lock)
       (gbind (gget (\<lambda>c. Structure_GetValues (DataPlaneConnections c))) (\<lambda>conns.
          gthen (grange conns (\<lambda>conn.
              if w_now w - dc_LastHeartBeat conn > TolerateHeartbeatMisses * HeartbeatInterval
              then gthen (DeregisterDataplane w \<lparr>dpi_IP = [], dpi_APIPort = ParseInt (dc_APIPort conn),
                            dpi_ProxyPort = ParseInt (dc_ProxyPort conn)\<rparr>) (gret (None :: unit option))
              else gret None))
            (on_dp Structure_Unlock)))"

section \<open>Helpers\<close>

definition GetNumberConnectedWorkers :: "(('db, 'p) ControlPlane, nat) go" where
  "GetNumberConnectedWorkers = on_ni Structure_AtomicLen"

definition GetNumberDataplanes :: "(('db, 'p) ControlPlane, nat) go" where
  "GetNumberDataplanes = on_dp Structure_AtomicLen"

definition GetNumberServices :: "(('db, 'p) ControlPlane, nat) go" where
  "GetNumberServices = on_si Structure_AtomicLen"

datatype policy_choice = RandomPlacement | RoundRobinPlacement | KubernetesPlacement

definition ParsePlacementPolicy :: "ControlPlaneConfig \<Rightarrow> policy_choice" where
  "ParsePlacementPolicy cfg =
     (if cpc_PlacementPolicy cfg = ''random'' then RandomPlacement
      else if cpc_PlacementPolicy cfg = ''round-robin'' then RoundRobinPlacement
      else if cpc_PlacementPolicy cfg = ''kubernetes'' then KubernetesPlacement
      else RandomPlacement)"

end
