(* ===== verification/Registry.thy ===== *)
theory Registry
  imports Control_Plane
begin

text \<open>
  What the handlers of the control plane guarantee together. The invariant \<open>cp_inv\<close> covers the three
  registries and the book-keeping of every service; the abstraction \<open>registry\<close> is what a client sees:
  which data planes, worker nodes and services are registered.
\<close>

section \<open>The invariant\<close>

definition lk :: "('k, 'v) Structure \<Rightarrow> bool \<times> nat" where
  \<comment> \<open>the state of the lock\<close>
  "lk st = (wlocked st, rlocks st)"

definition ks :: "('k, 'v) Structure \<Rightarrow> 'k set" where
  "ks st = fst ` set (InternalMap st)"

lemma lk_simps [simp]:
  "lk (Structure_Set k v st) = lk st" "lk (Structure_Remove k st) = lk st"
  "lk (st\<lparr>wlocked := b\<rparr>) = (b, snd (lk st))" "lk (st\<lparr>rlocks := n\<rparr>) = (fst (lk st), n)"
  by (simp_all add: lk_def Structure_Set_def Structure_Remove_def)

lemma lk_wlocked [simp]: "wlocked (Structure_Set k v st) = wlocked st" "wlocked (Structure_Remove k st) = wlocked st"
  "rlocks (Structure_Set k v st) = rlocks st" "rlocks (Structure_Remove k st) = rlocks st"
  by (simp_all add: Structure_Set_def Structure_Remove_def)

lemma unlocked_lk: "unlocked st \<longleftrightarrow> lk st = (False, 0)"
  by (simp add: unlocked_def lk_def)

lemma ks_simps [simp]:
  "ks (Structure_Set k v st) = insert k (ks st)" "ks (Structure_Remove k st) = ks st - {k}"
  "ks (st\<lparr>wlocked := b\<rparr>) = ks st" "ks (st\<lparr>rlocks := n\<rparr>) = ks st"
  by (auto simp: ks_def Structure_Set_def Structure_Remove_def dom_update set_gm_del image_iff)

lemma ks_Get: "Structure_Get st k = Some v \<Longrightarrow> k \<in> ks st"
  by (force simp: ks_def Structure_Get_def dest: map_of_SomeD)

lemma ks_Present: "Structure_Present st k \<longleftrightarrow> k \<in> ks st"
  by (simp add: ks_def Structure_Present_def map_of_eq_None_iff)

lemma ks_GetKeys: "set (Structure_GetKeys st) = ks st"
  by (simp add: ks_def Structure_GetKeys_def Structure_GetMap_def)

definition dps_inv :: "(string, DataPlaneConnectionInfo) Structure \<Rightarrow> bool" where
  "dps_inv st \<longleftrightarrow> gm_wf (InternalMap st) \<and> (\<forall>p \<in> set (InternalMap st). dc_Iface (snd p) \<and> dc_IP (snd p) = fst p)"

definition nodes_inv :: "NodeStorage \<Rightarrow> bool" where
  "nodes_inv st \<longleftrightarrow> gm_wf (InternalMap st) \<and>
     (\<forall>p \<in> set (InternalMap st). wn_Name (snd p) = fst p \<and> unlocked (wn_endpointMap (snd p)))"

definition endpoints_inv :: "string set \<Rightarrow> nat \<Rightarrow> PFStateController \<Rightarrow> bool" where
  \<comment> \<open>the books of a service, whose endpoints are on registered nodes\<close>
  "endpoints_inv nodes nxt as \<longleftrightarrow>
     ActualScale (ScalingMetadata as) = int (length (Endpoints as)) \<and> distinct (map ep_addr (Endpoints as)) \<and>
     (\<forall>e \<in> set (Endpoints as). ep_addr e < nxt \<and> (\<exists>name \<in> nodes. ep_Node e = Some name))"

definition service_inv :: "string set \<Rightarrow> nat \<Rightarrow> string \<times> ServiceInfoStorage \<Rightarrow> bool" where
  \<comment> \<open>a service between two scaling cycles\<close>
  "service_inv nodes nxt p \<longleftrightarrow> si_Name (ss_ServiceInfo (snd p)) = fst p \<and>
     endpoints_inv nodes nxt (ss_Controller (snd p)) \<and>
     \<not> EndpointLock (ss_Controller (snd p)) \<and> DesiredStateChannel (ss_Controller (snd p)) = chan_make"

definition services_inv :: "string set \<Rightarrow> nat \<Rightarrow> (string, ServiceInfoStorage) Structure \<Rightarrow> bool" where
  "services_inv nodes nxt st \<longleftrightarrow> gm_wf (InternalMap st) \<and> (\<forall>p \<in> set (InternalMap st). service_inv nodes nxt p)"

definition cp_inv :: "('db, 'p) ControlPlane \<Rightarrow> bool" where
  "cp_inv c \<longleftrightarrow> dps_inv (DataPlaneConnections c) \<and> nodes_inv (NIStorage c) \<and>
     services_inv (ks (NIStorage c)) (cp_next c) (SIStorage c) \<and> \<not> cpc_PrecreateSnapshots (cp_Config c)"

type_synonym lock_state = "(bool \<times> nat) \<times> (bool \<times> nat) \<times> (bool \<times> nat)"

definition locks :: "('db, 'p) ControlPlane \<Rightarrow> lock_state" where
  "locks c = (lk (DataPlaneConnections c), lk (NIStorage c), lk (SIStorage c))"

abbreviation no_locks :: lock_state where
  "no_locks \<equiv> ((False, 0), (False, 0), (False, 0))"

record registry =
  reg_dataplanes :: "string set"
  reg_nodes :: "string set"
  reg_services :: "string set"

definition registry_of :: "('db, 'p) ControlPlane \<Rightarrow> registry" where
  "registry_of c = \<lparr>reg_dataplanes = ks (DataPlaneConnections c), reg_nodes = ks (NIStorage c),
     reg_services = ks (SIStorage c)\<rparr>"

lemmas cp_views = cp_inv_def locks_def registry_of_def

subsection \<open>Updates\<close>

lemma dps_inv_simps [simp]: "dps_inv (st\<lparr>wlocked := b\<rparr>) = dps_inv st" "dps_inv (st\<lparr>rlocks := n\<rparr>) = dps_inv st"
  by (simp_all add: dps_inv_def)

lemma nodes_inv_simps [simp]: "nodes_inv (st\<lparr>wlocked := b\<rparr>) = nodes_inv st" "nodes_inv (st\<lparr>rlocks := n\<rparr>) = nodes_inv st"
  by (simp_all add: nodes_inv_def)

lemma services_inv_simps [simp]:
  "services_inv nodes nxt (st\<lparr>wlocked := b\<rparr>) = services_inv nodes nxt st"
  "services_inv nodes nxt (st\<lparr>rlocks := n\<rparr>) = services_inv nodes nxt st"
  by (simp_all add: services_inv_def)

lemma dps_inv_set [intro]: "dps_inv st \<Longrightarrow> dc_Iface d \<Longrightarrow> dc_IP d = k \<Longrightarrow> dps_inv (Structure_Set k d st)"
  by (auto simp: dps_inv_def Structure_Set_def set_gm_set)

lemma dps_inv_remove [intro]: "dps_inv st \<Longrightarrow> dps_inv (Structure_Remove k st)"
  by (auto simp: dps_inv_def Structure_Remove_def set_gm_del)

lemma nodes_inv_set [intro]:
  "nodes_inv st \<Longrightarrow> wn_Name n = k \<Longrightarrow> unlocked (wn_endpointMap n) \<Longrightarrow> nodes_inv (Structure_Set k n st)"
  by (auto simp: nodes_inv_def Structure_Set_def set_gm_set)

lemma nodes_inv_remove [intro]: "nodes_inv st \<Longrightarrow> nodes_inv (Structure_Remove k st)"
  by (auto simp: nodes_inv_def Structure_Remove_def set_gm_del)

lemma services_inv_set [intro]:
  "services_inv nodes nxt st \<Longrightarrow> service_inv nodes nxt (k, ss) \<Longrightarrow> services_inv nodes nxt (Structure_Set k ss st)"
  by (auto simp: services_inv_def Structure_Set_def set_gm_set)

lemma services_inv_remove [intro]: "services_inv nodes nxt st \<Longrightarrow> services_inv nodes nxt (Structure_Remove k st)"
  by (auto simp: services_inv_def Structure_Remove_def set_gm_del)

lemma services_inv_mono: "services_inv nodes nxt st \<Longrightarrow> nodes \<subseteq> nodes' \<Longrightarrow> services_inv nodes' nxt st"
  unfolding services_inv_def service_inv_def endpoints_inv_def by (meson subsetD)

lemma Get_in_map: "Structure_Get st k = Some v \<Longrightarrow> (k, v) \<in> set (InternalMap st)"
  by (auto simp: Structure_Get_def dest: map_of_SomeD)

lemma dps_inv_Get: "dps_inv st \<Longrightarrow> Structure_Get st k = Some d \<Longrightarrow> dc_Iface d \<and> dc_IP d = k"
  by (auto simp: dps_inv_def dest!: Get_in_map)

lemma nodes_inv_Get: "nodes_inv st \<Longrightarrow> Structure_Get st k = Some n \<Longrightarrow> wn_Name n = k \<and> unlocked (wn_endpointMap n)"
  by (auto simp: nodes_inv_def dest!: Get_in_map)

lemma services_inv_Get: "services_inv nodes nxt st \<Longrightarrow> Structure_Get st k = Some ss \<Longrightarrow> service_inv nodes nxt (k, ss)"
  by (auto simp: services_inv_def dest!: Get_in_map)

lemma ks_Some: "k \<in> ks st \<Longrightarrow> \<exists>v. Structure_Get st k = Some v"
  by (auto simp: ks_def Structure_Get_def dest: weak_map_of_SomeI)

section \<open>Locked sections\<close>

text \<open>
  A locked section keeps the invariant if its body does; \<open>P\<close> relates the answer and the registries
  after the section.
\<close>

definition keeps :: "(('db, 'p) ControlPlane, 'a) go \<Rightarrow> ('db, 'p) ControlPlane \<Rightarrow> ('a \<Rightarrow> registry \<Rightarrow> bool) \<Rightarrow> bool" where
  "keeps m c P \<longleftrightarrow> runs m c (\<lambda>x c'. cp_inv c' \<and> locks c' = locks c \<and> P x (registry_of c'))"

lemma keeps_si_lock:
  assumes "unlocked (SIStorage c)" and "keeps m (c\<lparr>SIStorage := (SIStorage c)\<lparr>wlocked := True\<rparr>\<rparr>) P"
  shows "keeps (with_si_lock m) c P"
  using assms by (auto simp: keeps_def with_si_lock_def wp cp_views unlocked_lk lk_def elim!: runs_mono)

lemma keeps_dp_lock:
  assumes "unlocked (DataPlaneConnections c)"
    and "keeps m (c\<lparr>DataPlaneConnections := (DataPlaneConnections c)\<lparr>wlocked := True\<rparr>\<rparr>) P"
  shows "keeps (with_dp_lock m) c P"
  using assms by (auto simp: keeps_def with_dp_lock_def wp cp_views unlocked_lk lk_def elim!: runs_mono)

lemma keeps_ni_lock:
  assumes "unlocked (NIStorage c)" and "keeps m (c\<lparr>NIStorage := (NIStorage c)\<lparr>wlocked := True\<rparr>\<rparr>) P"
  shows "keeps (with_ni_lock m) c P"
  using assms by (auto simp: keeps_def with_ni_lock_def wp cp_views unlocked_lk lk_def elim!: runs_mono)

section \<open>Data planes\<close>

definition env_ok :: "('db, 'p) world \<Rightarrow> bool" where
  \<comment> \<open>the persistence layer does its work and the data planes accept the removal of a service\<close>
  "env_ok w \<longleftrightarrow>
     (\<forall>i db. runs (pl_StoreDataPlaneInformation (w_pl w) i) db (\<lambda>e _. e = None)) \<and>
     (\<forall>i db. runs (pl_DeleteDataPlaneInformation (w_pl w) i) db (\<lambda>e _. e = None)) \<and>
     (\<forall>i db. runs (pl_StoreWorkerNodeInformation (w_pl w) i) db (\<lambda>e _. e = None)) \<and>
     (\<forall>i db. runs (pl_DeleteWorkerNodeInformation (w_pl w) i) db (\<lambda>e _. e = None)) \<and>
     (\<forall>i db. runs (pl_StoreServiceInformation (w_pl w) i) db (\<lambda>e _. e = None)) \<and>
     (\<forall>i db. runs (pl_DeleteServiceInformation (w_pl w) i) db (\<lambda>e _. e = None)) \<and>
     (\<forall>n ip info. \<not> w_err w n (RpcDeleteDeployment ip info))"

lemma runs_cp_call [wp]:
  "runs (cp_call w r) c Q = Q (w_err w (length (cp_calls c)) r) (c\<lparr>cp_calls := cp_calls c @ [r]\<rparr>)"
  by (simp add: cp_call_def runs_def)

lemma runs_dp_call [wp]:
  "runs (dp_call w dp r) c Q =
     (dc_Iface dp \<and> Q (w_err w (length (cp_calls c)) r) (c\<lparr>cp_calls := cp_calls c @ [r]\<rparr>))"
  by (simp add: dp_call_def runs_cp_call runs_gpanic)

lemma runs_db:
  assumes "\<And>db. runs m db (\<lambda>e _. e = None)" and "\<And>db. Q None (c\<lparr>cp_db := db\<rparr>)"
  shows "runs (on_db m) c Q"
  using assms(1) [of "cp_db c"] assms(2) by (auto simp: wp elim!: runs_mono)

lemma runs_singlethread:
  assumes "dps_inv (DataPlaneConnections c)"
  shows "runs (singlethreadUpdateEndpoints w info eps) c Q =
     Q () (c\<lparr>cp_calls := cp_calls c @ endpoint_updates info eps (DataPlaneConnections c)\<rparr>)"
  using singlethreadUpdateEndpoints_connected [of c w info eps] assms by (simp add: runs_def dps_inv_def)

lemma announceServices_runs:
  assumes "cp_inv c" and "dc_Iface conn"
  shows "runs (announceServices w key conn) c (\<lambda>r c'. cp_inv c' \<and> locks c' = locks c \<and>
     (case r of None \<Rightarrow> registry_of c' = registry_of c
      | Some out \<Rightarrow> fst out = Failed \<and> registry_of c' = (registry_of c)\<lparr>reg_dataplanes := reg_dataplanes (registry_of c) - {key}\<rparr>))"
proof -
  let ?I = "\<lambda>_ c'. cp_inv c' \<and> locks c' = locks c \<and> registry_of c' = registry_of c"
  let ?E = "\<lambda>out c'. cp_inv c' \<and> locks c' = locks c \<and> fst out = Failed \<and>
     registry_of c' = (registry_of c)\<lparr>reg_dataplanes := reg_dataplanes (registry_of c) - {key}\<rparr>"
  have "runs (grange services (\<lambda>(name :: string, ss).
         gbind (dp_call w conn (RpcAddDeployment (dc_IP conn) (ss_ServiceInfo ss))) (\<lambda>err.
           if err then gthen (on_dp (gmodify (Structure_Remove key))) (gret (Some (Failed, Some ''rpc'', False)))
           else gthen (singlethreadUpdateEndpoints w (ss_ServiceInfo ss) (prepareCurrentEndpointInfoList ss))
                  (gret None)))) c (\<lambda>r c'. case r of None \<Rightarrow> ?I [] c' | Some out \<Rightarrow> ?E out c')" for services
    by (rule runs_grange_exit [of ?I])
      (use assms in \<open>auto simp: wp runs_singlethread cp_views split: if_splits\<close>)
  then show ?thesis
    unfolding announceServices_def runs_gbind runs_gget
    by (rule runs_mono) (auto split: option.splits)
qed

lemma unlocked_locks:
  "locks c = no_locks \<Longrightarrow> unlocked (DataPlaneConnections c) \<and> unlocked (NIStorage c) \<and> unlocked (SIStorage c)"
  by (simp add: locks_def unlocked_lk)

definition effect :: "bool \<Rightarrow> (registry \<Rightarrow> registry) \<Rightarrow> registry \<Rightarrow> registry" where
  \<comment> \<open>a handler takes effect if it answers success\<close>
  "effect success f reg = (if success then f reg else reg)"

lemma RegisterDataplane_keeps:
  assumes inv: "cp_inv c" and free: "locks c = no_locks" and w: "env_ok w"
  shows "keeps (RegisterDataplane w inp) c (\<lambda>(st, err, _) reg.
     reg = effect (as_Success st) (reg_dataplanes_update (insert (dpi_IP inp))) (registry_of c))"
proof -
  let ?k = "dpi_IP inp"
  let ?c = "c\<lparr>SIStorage := (SIStorage c)\<lparr>wlocked := True\<rparr>, DataPlaneConnections := (DataPlaneConnections c)\<lparr>wlocked := True\<rparr>\<rparr>"
  note ul = unlocked_locks [OF free]
  show ?thesis
  proof (cases "Structure_Get (DataPlaneConnections c) ?k")
    case (Some d)
    show ?thesis
      unfolding RegisterDataplane_def Let_def
      using inv Some dps_inv_Get [OF _ Some] ks_Get [OF Some] ul
      by (intro keeps_si_lock keeps_dp_lock)
        (auto simp: keeps_def wp cp_views Structure_Get_def UpdateHeartBeat_def effect_def insert_absorb)
  next
    case None
    then have new: "?k \<notin> ks (DataPlaneConnections c)" using ks_Some by fastforce
    let ?info = "dataplaneInformation inp"
    obtain db where db: "pl_StoreDataPlaneInformation (w_pl w) ?info (cp_db c) = Ret None db"
      using w unfolding env_ok_def by (metis (mono_tags, lifting) runsE)
    then have store: "runs (pl_StoreDataPlaneInformation (w_pl w) ?info) (cp_db c) Q = Q None db" for Q
      by (simp add: runs_def)
    let ?conn = "(NewDataplaneConnection (w_now w) (di_Address ?info) (di_ApiPort ?info) (di_ProxyPort ?info))\<lparr>dc_Iface := True\<rparr>"
    let ?c2 = "?c\<lparr>cp_db := db, DataPlaneConnections := Structure_Set ?k ?conn (DataPlaneConnections ?c)\<rparr>"
    have "cp_inv ?c2"
      using inv by (auto simp: cp_views NewDataplaneConnection_def dataplaneInformation_def)
    from announceServices_runs [OF this, of ?conn w ?k]
    have announce: "runs (announceServices w ?k ?conn) ?c2 (\<lambda>r c'. cp_inv c' \<and> locks c' = locks ?c \<and>
       registry_of c' = effect (r = None) (reg_dataplanes_update (insert ?k)) (registry_of c) \<and>
       (\<forall>out. r = Some out \<longrightarrow> fst out = Failed))"
      by (rule runs_mono) (auto simp: cp_views effect_def new split: option.splits)
    have get: "Structure_Get ((DataPlaneConnections c)\<lparr>wlocked := True\<rparr>) ?k = None"
      using None by (simp add: Structure_Get_def)
    show ?thesis
    proof (cases "w_dial w ?k")
      case True
      show ?thesis
        unfolding RegisterDataplane_def Let_def using ul announce
        by (intro keeps_si_lock keeps_dp_lock; simp add: keeps_def wp get store InitializeDataPlaneConnection_def True)
          (erule runs_mono, auto simp: wp effect_def split: option.splits)
    next
      case False
      show ?thesis
        unfolding RegisterDataplane_def Let_def using ul inv new
        by (intro keeps_si_lock keeps_dp_lock)
          (auto simp: keeps_def wp get store InitializeDataPlaneConnection_def False cp_views effect_def)
    qed
  qed
qed

lemma runs_on_service:
  assumes "Structure_Get (SIStorage c) name = Some ss"
  shows "runs (on_service name m) c Q =
     runs m (ss, c) (\<lambda>x s. Q x ((snd s)\<lparr>SIStorage := Structure_Set name (fst s) (SIStorage (snd s))\<rparr>))"
  using assms by (simp add: on_service_def runs_def gzoom_def split: outcome.splits)

text \<open>A loop over the services that only changes their controllers.\<close>

lemma services_loop:
  assumes inv: "cp_inv c" and names: "set names \<subseteq> ks (SIStorage c)"
    and body: "\<And>ss c'. service_inv (ks (NIStorage c)) (cp_next c) (si_Name (ss_ServiceInfo ss), ss) \<Longrightarrow>
      runs m (ss, c') (\<lambda>_ s. snd s = c' \<and> service_inv (ks (NIStorage c)) (cp_next c) (si_Name (ss_ServiceInfo ss), fst s) \<and> R (fst s))"
  shows "runs (grange names (\<lambda>name. gthen (on_service name m) (gret (None :: unit option)))) c (\<lambda>_ c'.
     cp_inv c' \<and> (\<exists>si. c' = c\<lparr>SIStorage := si\<rparr> \<and> lk si = lk (SIStorage c) \<and> ks si = ks (SIStorage c) \<and>
       (\<forall>p \<in> set (InternalMap si). fst p \<in> set names \<longrightarrow> R (snd p))))"
proof -
  let ?I = "\<lambda>rest c'. cp_inv c' \<and> (\<exists>si. c' = c\<lparr>SIStorage := si\<rparr> \<and> lk si = lk (SIStorage c) \<and> ks si = ks (SIStorage c) \<and>
       set rest \<subseteq> ks si \<and> (\<forall>p \<in> set (InternalMap si). fst p \<in> set names \<longrightarrow> fst p \<notin> set rest \<longrightarrow> R (snd p)))"
  have "runs (grange names (\<lambda>name. gthen (on_service name m) (gret (None :: unit option)))) c (\<lambda>r c'. r = None \<and> ?I [] c')"
  proof (rule runs_grange [of ?I])
    show "?I names c" using inv names by (auto intro!: exI [of _ "SIStorage c"])
  next
    fix name rest c'
    assume "?I (name # rest) c'"
    then obtain si where c': "cp_inv c'" "c' = c\<lparr>SIStorage := si\<rparr>" "lk si = lk (SIStorage c)" "ks si = ks (SIStorage c)"
      "set (name # rest) \<subseteq> ks si" "\<forall>p \<in> set (InternalMap si). fst p \<in> set names \<longrightarrow> fst p \<notin> set (name # rest) \<longrightarrow> R (snd p)"
      by blast
    then obtain ss where ss: "Structure_Get (SIStorage c') name = Some ss" using ks_Some [of name si] by auto
    then have si: "service_inv (ks (NIStorage c)) (cp_next c) (name, ss)"
      using c'(1,2) by (auto simp: cp_inv_def dest: services_inv_Get)
    then have name: "si_Name (ss_ServiceInfo ss) = name" by (simp add: service_inv_def)
    have wf: "gm_wf (InternalMap si)" using c'(1,2) by (simp add: cp_inv_def services_inv_def)
    from body [of ss c'] si name
    have "runs m (ss, c') (\<lambda>_ s. snd s = c' \<and> service_inv (ks (NIStorage c)) (cp_next c) (name, fst s) \<and> R (fst s))"
      by simp
    then show "runs (gthen (on_service name m) (gret (None :: unit option))) c' (\<lambda>r c'. r = None \<and> ?I rest c')"
      unfolding runs_gthen runs_gret runs_on_service [OF ss]
    proof (rule runs_mono)
      fix x s
      assume s: "snd s = c' \<and> service_inv (ks (NIStorage c)) (cp_next c) (name, fst s) \<and> R (fst s)"
      let ?si = "Structure_Set name (fst s) si"
      have "cp_inv (c\<lparr>SIStorage := ?si\<rparr>)" using c'(1,2) s by (auto simp: cp_inv_def)
      moreover have "\<forall>p \<in> set (InternalMap ?si). fst p \<in> set names \<longrightarrow> fst p \<notin> set rest \<longrightarrow> R (snd p)"
        using c'(6) s wf by (auto simp: Structure_Set_def set_gm_set)
      moreover have "ks ?si = ks (SIStorage c)" using c'(4,5) by auto
      ultimately show "None = None \<and> ?I rest ((snd s)\<lparr>SIStorage := Structure_Set name (fst s) (SIStorage (snd s))\<rparr>)"
        using s c'(2-5) by (intro conjI exI [of _ ?si]) auto
    qed
  qed
  then show ?thesis by (rule runs_mono) auto
qed

lemma env_runs:
  assumes "env_ok w"
  shows "\<exists>db'. pl_StoreDataPlaneInformation (w_pl w) i1 db = Ret None db'"
    and "\<exists>db'. pl_DeleteDataPlaneInformation (w_pl w) i2 db = Ret None db'"
    and "\<exists>db'. pl_StoreWorkerNodeInformation (w_pl w) i3 db = Ret None db'"
    and "\<exists>db'. pl_DeleteWorkerNodeInformation (w_pl w) i4 db = Ret None db'"
    and "\<exists>db'. pl_StoreServiceInformation (w_pl w) i5 db = Ret None db'"
    and "\<exists>db'. pl_DeleteServiceInformation (w_pl w) i6 db = Ret None db'"
  using assms unfolding env_ok_def by (metis (mono_tags, lifting) runsE)+

lemma DeregisterDataplane_keeps:
  assumes inv: "cp_inv c" and free: "locks c = no_locks" and w: "env_ok w"
  shows "keeps (DeregisterDataplane w inp) c (\<lambda>(st, err) reg.
     reg = effect (as_Success st) (reg_dataplanes_update (\<lambda>s. s - {dpi_IP inp})) (registry_of c))"
proof -
  let ?k = "dpi_IP inp"
  let ?c = "c\<lparr>SIStorage := (SIStorage c)\<lparr>wlocked := True\<rparr>, DataPlaneConnections := (DataPlaneConnections c)\<lparr>wlocked := True\<rparr>\<rparr>"
  have addr: "di_Address (dataplaneInformation inp) = ?k" by (simp add: dataplaneInformation_def)
  note ul = unlocked_locks [OF free]
  have get: "Structure_Get ((DataPlaneConnections c)\<lparr>wlocked := True\<rparr>) ?k = Structure_Get (DataPlaneConnections c) ?k"
    by (simp add: Structure_Get_def)
  show ?thesis
  proof (cases "Structure_Get (DataPlaneConnections c) ?k")
    case None
    then have "?k \<notin> ks (DataPlaneConnections c)" using ks_Some by fastforce
    then show ?thesis
      unfolding DeregisterDataplane_def Let_def addr using ul inv None
      by (intro keeps_si_lock keeps_dp_lock) (auto simp: keeps_def wp get cp_views effect_def)
  next
    case (Some d)
    obtain db where db: "pl_DeleteDataPlaneInformation (w_pl w) (dataplaneInformation inp) (cp_db c) = Ret None db"
      using env_runs(2) [OF w] by blast
    then have del: "runs (pl_DeleteDataPlaneInformation (w_pl w) (dataplaneInformation inp)) (cp_db c) Q = Q None db" for Q
      by (simp add: runs_def)
    let ?c2 = "?c\<lparr>cp_db := db\<rparr>"
    have inv2: "cp_inv ?c2" using inv by (simp add: cp_views)
    have body: "runs (on_controller (on_metadata (gmodify (RemoveDataplane ?k)))) (ss, c')
        (\<lambda>_ s. snd s = c' \<and> service_inv nodes nxt (si_Name (ss_ServiceInfo ss), fst s) \<and> True)"
      if "service_inv nodes nxt (si_Name (ss_ServiceInfo ss), ss)" for ss nodes nxt and c' :: "('a, 'b) ControlPlane"
      using that by (simp add: wp service_inv_def endpoints_inv_def RemoveDataplane_def)
    have loop: "runs (grange (Structure_GetKeys (SIStorage ?c)) (\<lambda>name. gthen (on_service name (on_controller (on_metadata
        (gmodify (RemoveDataplane ?k))))) (gret (None :: unit option)))) ?c2
        (\<lambda>_ c'. cp_inv c' \<and> (\<exists>si. c' = ?c2\<lparr>SIStorage := si\<rparr> \<and> lk si = lk (SIStorage ?c2) \<and> ks si = ks (SIStorage ?c2)))"
      by (rule runs_mono [OF services_loop [OF inv2 _ body]]) (simp add: ks_GetKeys, assumption, blast)
    show ?thesis
      unfolding DeregisterDataplane_def Let_def addr using ul loop
      by (intro keeps_si_lock keeps_dp_lock; simp add: keeps_def wp get Some del)
        (erule runs_mono, clarsimp simp: wp cp_views effect_def dps_inv_remove)
  qed
qed

section \<open>Worker nodes\<close>

lemma RegisterNode_keeps:
  assumes inv: "cp_inv c" and free: "locks c = no_locks" and w: "env_ok w"
  shows "keeps (RegisterNode w inp) c (\<lambda>(st, err) reg. (as_Success st \<longleftrightarrow> ni_NodeID inp \<notin> reg_nodes (registry_of c)) \<and>
     reg = effect (as_Success st) (reg_nodes_update (insert (ni_NodeID inp))) (registry_of c))"
proof -
  obtain db where db: "pl_StoreWorkerNodeInformation (w_pl w) (nodeInformation inp) (cp_db c) = Ret None db"
    using env_runs(3) [OF w] by blast
  then have store: "runs (pl_StoreWorkerNodeInformation (w_pl w) (nodeInformation inp)) (cp_db c) Q = Q None db" for Q
    by (simp add: runs_def)
  have "services_inv (insert (ni_NodeID inp) (ks (NIStorage c))) (cp_next c) (SIStorage c)"
    using inv by (auto simp: cp_views intro: services_inv_mono)
  moreover have "nodes_inv (Structure_Set (ni_NodeID inp) (SetSchedulability True (NewWorkerNode (w_now w) (nodeConfiguration inp)))
      ((NIStorage c)\<lparr>wlocked := True\<rparr>))"
    using inv by (intro nodes_inv_set)
      (auto simp: cp_views WorkerNode_defs nodeConfiguration_def unlocked_def NewControlPlaneSyncStructure_def)
  ultimately show ?thesis
    unfolding RegisterNode_def Let_def using unlocked_locks [OF free] inv
    by (intro keeps_ni_lock) (auto simp: keeps_def wp store ks_Present cp_views effect_def)
qed

lemma runs_on_node:
  assumes "Structure_Get (NIStorage c) name = Some n"
  shows "runs (on_node name m) c Q = runs m n (\<lambda>x n'. Q x (c\<lparr>NIStorage := Structure_Set name n' (NIStorage c)\<rparr>))"
  using assms by (simp add: on_node_def runs_def gzoom_def split: outcome.splits)

lemma on_node_keeps:
  assumes inv: "cp_inv c" and "name \<in> ks (NIStorage c)"
    and f: "\<And>n. wn_Name (f n) = wn_Name n \<and> wn_endpointMap (f n) = wn_endpointMap n"
  shows "runs (on_node name (gmodify f)) c (\<lambda>_ c'. cp_inv c' \<and> locks c' = locks c \<and> registry_of c' = registry_of c)"
proof -
  obtain n where n: "Structure_Get (NIStorage c) name = Some n" using ks_Some [OF assms(2)] by blast
  with inv have "wn_Name n = name \<and> unlocked (wn_endpointMap n)" by (auto simp: cp_inv_def dest: nodes_inv_Get)
  with inv f [of n] assms(2) show ?thesis
    by (auto simp: runs_on_node [OF n] wp cp_views insert_absorb)
qed

lemma connectNode_keeps:
  assumes inv: "cp_inv c"
  shows "keeps (connectNode w name) c (\<lambda>_ reg. reg = registry_of c)"
  using on_node_keeps [OF inv, of name "ConnectToWorker (w_dial w name)"] inv
  by (auto simp: keeps_def connectNode_def wp ks_Present ConnectToWorker_def)

lemma NodeHeartbeat_keeps:
  assumes inv: "cp_inv c"
  shows "keeps (NodeHeartbeat w inp) c (\<lambda>(st, err) reg. (as_Success st \<longleftrightarrow> hb_NodeID inp \<in> reg_nodes (registry_of c)) \<and>
     reg = registry_of c)"
  using on_node_keeps [OF inv, of "hb_NodeID inp" "\<lambda>n. SetSchedulability True (SetMemoryUsage (hb_MemoryUsage inp)
                (SetCpuUsage (hb_CpuUsage inp) (UpdateLastHearBeat (w_now w) n)))"] inv
  by (auto simp: keeps_def NodeHeartbeat_def wp ks_Present WorkerNode_defs registry_of_def elim!: runs_mono)

text \<open>A node leaves together with the endpoints on it.\<close>

lemma foldl_gm_set_keys:
  "fst ` set (foldl (\<lambda>m e. if P e then gm_set e () m else m) m es) = fst ` set m \<union> {e \<in> set es. P e}"
  "gm_wf m \<Longrightarrow> gm_wf (foldl (\<lambda>m e. if P e then gm_set e () m else m) m es)"
  by (induction es arbitrary: m) (auto simp: dom_update)

lemma endpoints_inv_exclude:
  assumes inv: "endpoints_inv nodes nxt as" and ev: "gm_wf ev" "fst ` set ev \<subseteq> set (Endpoints as)"
  shows "endpoints_inv nodes nxt (addActualScale (- int (length ev)) (excludeEndpoints ev as))"
    and "set (Endpoints (excludeEndpoints ev as)) = set (Endpoints as) - fst ` set ev"
proof -
  have d: "distinct (Endpoints as)" using inv by (auto simp: endpoints_inv_def distinct_map)
  have len: "length ev = card (fst ` set ev)" using ev(1) by (metis distinct_card gm_wf_def length_map set_map)
  have le: "length ev \<le> length (Endpoints as)"
    using ev(2) d len by (metis List.finite_set card_mono distinct_card)
  have dev: "distinct (map fst ev)" "set (map fst ev) \<subseteq> set (Endpoints as)" "fst ` set ev = set (map fst ev)"
    using ev by (simp_all add: gm_wf_def)
  note picked = excludeEndpoints_picked [OF d dev]
  show "set (Endpoints (excludeEndpoints ev as)) = set (Endpoints as) - fst ` set ev"
    using picked(2) by (simp add: excludeEndpoints_def)
  show "endpoints_inv nodes nxt (addActualScale (- int (length ev)) (excludeEndpoints ev as))"
    using inv le picked(1)
    by (simp add: endpoints_inv_def addActualScale_def excludeEndpoints_def distinct_map_filter)
qed

lemma runs_EndpointLock [wp]:
  "runs EndpointLock_Lock as Q = (\<not> EndpointLock as \<and> Q () (as\<lparr>EndpointLock := True\<rparr>))"
  "runs EndpointLock_Unlock as Q = (EndpointLock as \<and> Q () (as\<lparr>EndpointLock := False\<rparr>))"
  by (auto simp: runs_def EndpointLock_Lock_def EndpointLock_Unlock_def)

lemma excludeNode_runs:
  assumes inv: "service_inv nodes nxt (si_Name (ss_ServiceInfo ss), ss)"
  shows "runs (excludeNode nodeID) (ss, c) (\<lambda>_ s. snd s = c \<and> service_inv nodes nxt (si_Name (ss_ServiceInfo ss), fst s) \<and>
     (\<forall>e \<in> set (Endpoints (ss_Controller (fst s))). ep_Node e \<noteq> Some nodeID))"
proof -
  let ?as = "ss_Controller ss"
  let ?ev = "foldl (\<lambda>m e. if ep_Node e = Some nodeID then gm_set e () m else m) [] (Endpoints ?as)"
  have ep: "endpoints_inv nodes nxt ?as" using inv by (simp add: service_inv_def)
  have ev: "gm_wf ?ev" "fst ` set ?ev = {e \<in> set (Endpoints ?as). ep_Node e = Some nodeID}"
    by (simp_all add: foldl_gm_set_keys)
  have node: "\<not> (\<exists>e \<in> set (Endpoints ?as). ep_Node e = None)" using ep by (fastforce simp: endpoints_inv_def)
  have sub: "fst ` set ?ev \<subseteq> set (Endpoints ?as)" using ev(2) by auto
  note ex = endpoints_inv_exclude [OF ep ev(1) sub]
  have out: "\<forall>e \<in> set (Endpoints (excludeEndpoints ?ev ?as)). ep_Node e \<noteq> Some nodeID"
    unfolding ex(2) using ev(2) by auto
  let ?as' = "addActualScale (- int (length ?ev)) (excludeEndpoints ?ev ?as)"
  have unlocked: "\<not> EndpointLock ?as" using inv by (simp add: service_inv_def)
  then have as': "addActualScale (- int (length ?ev)) ((excludeEndpoints ?ev (?as\<lparr>EndpointLock := True\<rparr>))\<lparr>EndpointLock := False\<rparr>) = ?as'"
    by (simp add: addActualScale_def excludeEndpoints_def)
  have "service_inv nodes nxt (si_Name (ss_ServiceInfo ss), ss\<lparr>ss_Controller := ?as'\<rparr>)"
    using inv ex(1) by (simp add: service_inv_def) (simp add: addActualScale_def excludeEndpoints_def)
  moreover have "Endpoints ?as' = Endpoints (excludeEndpoints ?ev ?as)" by (simp add: addActualScale_def)
  moreover have "EndpointLock (excludeEndpoints ?ev (?as\<lparr>EndpointLock := True\<rparr>))" by (simp add: excludeEndpoints_def)
  ultimately show ?thesis
    unfolding excludeNode_def Let_def using unlocked out node by (simp add: wp as')
qed


lemma services_inv_without:
  assumes "services_inv nodes nxt st"
    and "\<forall>p \<in> set (InternalMap st). \<forall>e \<in> set (Endpoints (ss_Controller (snd p))). ep_Node e \<noteq> Some name"
  shows "services_inv (nodes - {name}) nxt st"
proof -
  have "service_inv (nodes - {name}) nxt p" if "p \<in> set (InternalMap st)" for p
  proof -
    have s: "service_inv nodes nxt p" using assms(1) that by (simp add: services_inv_def)
    have "\<exists>m \<in> nodes - {name}. ep_Node e = Some m" if "e \<in> set (Endpoints (ss_Controller (snd p)))" for e
      using s assms(2) \<open>p \<in> set (InternalMap st)\<close> that unfolding service_inv_def endpoints_inv_def by force
    then show ?thesis using s by (simp add: service_inv_def endpoints_inv_def)
  qed
  then show ?thesis using assms(1) by (simp add: services_inv_def)
qed

lemma removeEndointsAssociatedWithNode_runs:
  assumes inv: "cp_inv c" and ul: "unlocked (SIStorage c)"
  shows "runs (removeEndointsAssociatedWithNode nodeID) c (\<lambda>_ c'. cp_inv c' \<and>
     (\<exists>si. c' = c\<lparr>SIStorage := si\<rparr> \<and> lk si = lk (SIStorage c) \<and> ks si = ks (SIStorage c) \<and>
       (\<forall>p \<in> set (InternalMap si). \<forall>e \<in> set (Endpoints (ss_Controller (snd p))). ep_Node e \<noteq> Some nodeID)))"
proof -
  let ?R = "\<lambda>ss. \<forall>e \<in> set (Endpoints (ss_Controller ss)). ep_Node e \<noteq> Some nodeID"
  let ?c = "c\<lparr>SIStorage := (SIStorage c)\<lparr>wlocked := True\<rparr>\<rparr>"
  let ?names = "Structure_GetKeys ((SIStorage c)\<lparr>wlocked := True\<rparr>)"
  have inv': "cp_inv ?c" using inv by (simp add: cp_views)
  have names: "set ?names = ks (SIStorage c)" by (simp add: ks_GetKeys)
  have "runs (grange ?names (\<lambda>name. gthen (on_service name (excludeNode nodeID)) (gret (None :: unit option)))) ?c
     (\<lambda>_ c'. cp_inv c' \<and> (\<exists>si. c' = ?c\<lparr>SIStorage := si\<rparr> \<and> lk si = lk (SIStorage ?c) \<and> ks si = ks (SIStorage ?c) \<and>
       (\<forall>p \<in> set (InternalMap si). fst p \<in> set ?names \<longrightarrow> ?R (snd p))))"
    by (rule services_loop [OF inv' _ excludeNode_runs]) (simp_all add: ks_GetKeys)
  then have loop: "runs (grange ?names (\<lambda>name. gthen (on_service name (excludeNode nodeID)) (gret (None :: unit option)))) ?c
     (\<lambda>_ c'. wlocked (SIStorage c') \<and> cp_inv (c'\<lparr>SIStorage := (SIStorage c')\<lparr>wlocked := False\<rparr>\<rparr>) \<and>
       (\<exists>si. c'\<lparr>SIStorage := (SIStorage c')\<lparr>wlocked := False\<rparr>\<rparr> = c\<lparr>SIStorage := si\<rparr> \<and> lk si = lk (SIStorage c) \<and>
         ks si = ks (SIStorage c) \<and> (\<forall>p \<in> set (InternalMap si). ?R (snd p))))"
  proof (rule runs_mono)
    fix x c'
    assume "cp_inv c' \<and> (\<exists>si. c' = ?c\<lparr>SIStorage := si\<rparr> \<and> lk si = lk (SIStorage ?c) \<and> ks si = ks (SIStorage ?c) \<and>
       (\<forall>p \<in> set (InternalMap si). fst p \<in> set ?names \<longrightarrow> ?R (snd p)))"
    then obtain si where c': "cp_inv c'" "c' = c\<lparr>SIStorage := si\<rparr>" "lk si = (True, snd (lk (SIStorage c)))"
      "ks si = ks (SIStorage c)" "\<forall>p \<in> set (InternalMap si). fst p \<in> ks (SIStorage c) \<longrightarrow> ?R (snd p)"
      unfolding names by auto
    have "\<forall>p \<in> set (InternalMap si). ?R (snd p)" using c'(4,5) unfolding ks_def by blast
    moreover have "lk (si\<lparr>wlocked := False\<rparr>) = lk (SIStorage c)" using c'(3) ul by (simp add: unlocked_lk)
    moreover have "wlocked si" using c'(3) by (simp add: lk_def)
    moreover have "cp_inv (c\<lparr>SIStorage := si\<lparr>wlocked := False\<rparr>\<rparr>)" using c'(1,2) by (simp add: cp_views)
    ultimately show "wlocked (SIStorage c') \<and> cp_inv (c'\<lparr>SIStorage := (SIStorage c')\<lparr>wlocked := False\<rparr>\<rparr>) \<and>
       (\<exists>si. c'\<lparr>SIStorage := (SIStorage c')\<lparr>wlocked := False\<rparr>\<rparr> = c\<lparr>SIStorage := si\<rparr> \<and> lk si = lk (SIStorage c) \<and>
         ks si = ks (SIStorage c) \<and> (\<forall>p \<in> set (InternalMap si). ?R (snd p)))"
      using c'(2,4) by (intro conjI exI [of _ "si\<lparr>wlocked := False\<rparr>"]) simp_all
  qed
  show ?thesis
    unfolding removeEndointsAssociatedWithNode_def using ul
    by (simp add: wp) (rule runs_mono [OF loop], simp)
qed

lemma DeregisterNode_keeps:
  assumes inv: "cp_inv c" and free: "locks c = no_locks" and w: "env_ok w"
  shows "keeps (DeregisterNode w inp) c (\<lambda>(st, err) reg. (as_Success st \<longleftrightarrow> ni_NodeID inp \<in> reg_nodes (registry_of c)) \<and>
     reg = effect (as_Success st) (reg_nodes_update (\<lambda>s. s - {ni_NodeID inp})) (registry_of c))"
proof -
  let ?c = "c\<lparr>NIStorage := (NIStorage c)\<lparr>wlocked := True\<rparr>\<rparr>" and ?id = "ni_NodeID inp"
  obtain db where db: "pl_DeleteWorkerNodeInformation (w_pl w) ?id (cp_db c) = Ret None db"
    using env_runs(4) [OF w] by blast
  then have del: "runs (pl_DeleteWorkerNodeInformation (w_pl w) ?id) (cp_db c) Q = Q None db" for Q
    by (simp add: runs_def)
  note ul = unlocked_locks [OF free]
  have inv2: "cp_inv (?c\<lparr>cp_db := db\<rparr>)" using inv by (simp add: cp_views)
  have "unlocked (SIStorage (?c\<lparr>cp_db := db\<rparr>))" using ul by simp
  from removeEndointsAssociatedWithNode_runs [OF inv2 this, of ?id]
  have "runs (removeEndointsAssociatedWithNode ?id) (?c\<lparr>cp_db := db\<rparr>) (\<lambda>_ c'.
     cp_inv (c'\<lparr>NIStorage := Structure_Remove ?id (NIStorage c')\<rparr>) \<and> locks c' = locks ?c \<and>
     registry_of c' = registry_of c)"
    by (rule runs_mono) (clarsimp simp: cp_views nodes_inv_remove services_inv_without)
  then have remove: "runs (removeEndointsAssociatedWithNode ?id) (?c\<lparr>cp_db := db\<rparr>) (\<lambda>_ c'.
     let c'' = c'\<lparr>NIStorage := Structure_Remove ?id (NIStorage c')\<rparr> in
     cp_inv c'' \<and> locks c'' = locks ?c \<and> registry_of c'' = reg_nodes_update (\<lambda>s. s - {?id}) (registry_of c))"
    by (rule runs_mono) (simp add: Let_def locks_def registry_of_def)
  show ?thesis
  proof (cases "?id \<in> ks (NIStorage c)")
    case True
    then show ?thesis
      unfolding DeregisterNode_def using ul remove
      by (intro keeps_ni_lock; simp add: keeps_def wp ks_Present del)
        (erule runs_mono, simp add: Let_def effect_def registry_of_def)
  next
    case False
    then show ?thesis
      unfolding DeregisterNode_def using ul inv
      by (intro keeps_ni_lock; simp add: keeps_def wp ks_Present cp_views effect_def)
  qed
qed


end
