(* ===== verification/Registry_Services.thy ===== *)
theory Registry_Services
  imports Registry
begin

text \<open>
  The handlers for services, metrics and failures: each keeps the invariant of \<open>Registry\<close>, releases the
  locks it takes, and changes the registries the way its answer says.
\<close>

section \<open>Services\<close>

lemma new_service_inv:
  "service_inv nodes nxt (si_Name info, \<lparr>ss_ServiceInfo = info,
     ss_Controller = NewPerFunctionStateController chan_make info period, ss_StartTime = t\<rparr>)"
  by (simp add: service_inv_def endpoints_inv_def NewPerFunctionStateController_def fresh_metadata_def)

lemma notify_runs:
  fixes c :: "('db, 'p) ControlPlane"
  assumes inv: "cp_inv c" and ul: "unlocked (DataPlaneConnections c)"
  shows "runs (notifyDataplanesAndStartScalingLoop w info reconstruct) c (\<lambda>err c'. err = None \<and> cp_inv c' \<and>
     locks c' = locks c \<and> cp_Config c' = cp_Config c \<and>
     registry_of c' = reg_services_update (insert (si_Name info)) (registry_of c))"
proof -
  let ?dps = "InternalMap (DataPlaneConnections c)"
  have con: "\<forall>p \<in> set ?dps. dc_Iface (snd p)" using inv by (simp add: cp_inv_def dps_inv_def)
  have loop: "runs (grange ?dps (\<lambda>(key, conn). gthen (dp_call w conn (RpcAddDeployment (dc_IP conn) info)) (gret (None :: unit option)))) c' Q =
      Q None (c'\<lparr>cp_calls := cp_calls c' @ map ((\<lambda>conn. RpcAddDeployment (dc_IP conn) info) \<circ> snd) ?dps\<rparr>)"
    for c' :: "('db, 'p) ControlPlane" and Q
    by (simp add: runs_def grange_dp_calls [OF con])
  have dp: "(DataPlaneConnections c)\<lparr>wlocked := False\<rparr> = DataPlaneConnections c"
    using ul by (simp add: unlocked_def)
  show ?thesis
    unfolding notifyDataplanesAndStartScalingLoop_def Structure_GetMap_def
    using inv ul by (simp add: runs_gthen runs_gbind runs_gget runs_gzoom runs_Lock runs_Unlock runs_gmodify runs_gret
        loop dp cp_views unlocked_lk services_inv_set new_service_inv)
qed

lemma RegisterService_keeps:
  assumes inv: "cp_inv c" and free: "locks c = no_locks" and w: "env_ok w"
  shows "keeps (RegisterService w info) c (\<lambda>(st, err) reg.
     (as_Success st \<longleftrightarrow> si_Name info \<notin> reg_services (registry_of c)) \<and>
     reg = effect (as_Success st) (reg_services_update (insert (si_Name info))) (registry_of c))"
proof -
  let ?c = "c\<lparr>SIStorage := (SIStorage c)\<lparr>wlocked := True\<rparr>\<rparr>"
  obtain db where db: "pl_StoreServiceInformation (w_pl w) info (cp_db c) = Ret None db"
    using env_runs(5) [OF w] by blast
  then have store: "runs (pl_StoreServiceInformation (w_pl w) info) (cp_db c) Q = Q None db" for Q
    by (simp add: runs_def)
  note ul = unlocked_locks [OF free]
  have "cp_inv (?c\<lparr>cp_db := db\<rparr>)" using inv by (simp add: cp_views)
  from notify_runs [OF this, of w info False] ul
  have notify: "runs (notifyDataplanesAndStartScalingLoop w info False) (?c\<lparr>cp_db := db\<rparr>) (\<lambda>err c'. err = None \<and>
     cp_inv c' \<and> locks c' = locks ?c \<and> \<not> cpc_PrecreateSnapshots (cp_Config c') \<and>
     registry_of c' = reg_services_update (insert (si_Name info)) (registry_of c))"
    using inv by (auto elim!: runs_mono simp: cp_views)
  show ?thesis
  proof (cases "si_Name info \<in> ks (SIStorage c)")
    case False
    then show ?thesis
      unfolding RegisterService_def using ul notify
      by (intro keeps_si_lock; simp add: keeps_def wp ks_Present store)
        (erule runs_mono, simp add: wp effect_def registry_of_def)
  next
    case True
    then show ?thesis
      unfolding RegisterService_def using ul inv
      by (intro keeps_si_lock; simp add: keeps_def wp ks_Present cp_views effect_def)
  qed
qed

lemma grange_dp_checked:
  assumes "\<forall>p \<in> set dps. dc_Iface (snd p)" and "\<And>n conn. \<not> w_err w n (f conn)"
  shows "grange dps (\<lambda>(key, conn). gbind (dp_call w conn (f conn)) (\<lambda>err. gret (if err then Some e else None))) c =
     Ret None (c\<lparr>cp_calls := cp_calls c @ map (f \<circ> snd) dps\<rparr>)"
  using assms(1)
proof (induction dps arbitrary: c)
  case (Cons p dps)
  then show ?case
    using assms(2) by (cases p) (simp add: dp_call_connected cp_call_def gbind_def gret_def)
qed (simp add: gret_def)

lemma removeServiceFromDataplane_runs:
  fixes c :: "('db, 'p) ControlPlane"
  assumes inv: "cp_inv c" and ul: "unlocked (DataPlaneConnections c)" and w: "env_ok w"
  shows "runs (removeServiceFromDataplane w info) c Q = Q None (c\<lparr>cp_calls := cp_calls c @
     map ((\<lambda>conn. RpcDeleteDeployment (dc_IP conn) info) \<circ> snd) (InternalMap (DataPlaneConnections c))\<rparr>)"
proof -
  let ?dps = "InternalMap (DataPlaneConnections c)"
  have con: "\<forall>p \<in> set ?dps. dc_Iface (snd p)" using inv by (simp add: cp_inv_def dps_inv_def)
  have acc: "\<not> w_err w n (RpcDeleteDeployment (dc_IP conn) info)" for n conn using w by (simp add: env_ok_def)
  have loop: "runs (grange ?dps (\<lambda>(key, conn). gbind (dp_call w conn (RpcDeleteDeployment (dc_IP conn) info))
        (\<lambda>err. gret (if err then Some ''rpc'' else None)))) c' Q =
      Q None (c'\<lparr>cp_calls := cp_calls c' @ map ((\<lambda>conn. RpcDeleteDeployment (dc_IP conn) info) \<circ> snd) ?dps\<rparr>)"
    for c' :: "('db, 'p) ControlPlane" and Q
    by (simp add: runs_def grange_dp_checked [where f = "\<lambda>conn. RpcDeleteDeployment (dc_IP conn) info", OF con acc])
  have dp: "(DataPlaneConnections c)\<lparr>wlocked := False\<rparr> = DataPlaneConnections c"
    using ul by (simp add: unlocked_def)
  show ?thesis
    unfolding removeServiceFromDataplane_def Structure_GetMap_def using ul
    by (simp add: runs_gthen runs_gbind runs_gget runs_gzoom runs_Lock runs_Unlock runs_gret loop dp)
qed

lemma cp_inv_service:
  "cp_inv c \<Longrightarrow> Structure_Get (SIStorage c) k = Some ss \<Longrightarrow> service_inv (ks (NIStorage c)) (cp_next c) (k, ss)"
  unfolding cp_inv_def by (blast intro: services_inv_Get)

lemma runs_close_channel:
  assumes "DesiredStateChannel (ss_Controller ss) = chan_make"
  shows "runs (on_controller (on_channel chan_close)) (ss, c) Q =
     Q () (ss\<lparr>ss_Controller := (ss_Controller ss)\<lparr>DesiredStateChannel := \<lparr>ch_sent = [], ch_closed = True\<rparr>\<rparr>\<rparr>, c)"
  using assms by (simp add: runs_def gzoom_def chan_close_def chan_make_def)

lemma Structure_Remove_Set [simp]: "Structure_Remove k (Structure_Set k v st) = Structure_Remove k st"
  by (simp add: Structure_Set_def Structure_Remove_def delete_update_same)

lemma DeregisterService_keeps:
  fixes c :: "('db, 'p) ControlPlane"
  assumes inv: "cp_inv c" and free: "locks c = no_locks" and w: "env_ok w"
  shows "keeps (DeregisterService w info) c (\<lambda>(st, err) reg.
     (as_Success st \<longleftrightarrow> si_Name info \<in> reg_services (registry_of c)) \<and>
     reg = effect (as_Success st) (reg_services_update (\<lambda>s. s - {si_Name info})) (registry_of c))"
proof -
  let ?c = "c\<lparr>SIStorage := (SIStorage c)\<lparr>wlocked := True\<rparr>\<rparr>" and ?n = "si_Name info"
  obtain db where db: "pl_DeleteServiceInformation (w_pl w) info (cp_db c) = Ret None db"
    using env_runs(6) [OF w] by blast
  then have del: "runs (pl_DeleteServiceInformation (w_pl w) info) (cp_db c) Q = Q None db" for Q
    by (simp add: runs_def)
  note ul = unlocked_locks [OF free]
  show ?thesis
  proof (cases "?n \<in> ks (SIStorage c)")
    case True
    from ks_Some [OF True] obtain ss where ss: "Structure_Get (SIStorage c) ?n = Some ss" by blast
    then have ss': "Structure_Get ((SIStorage c)\<lparr>wlocked := True\<rparr>) ?n = Some ss" by (simp add: Structure_Get_def)
    have chan: "DesiredStateChannel (ss_Controller ss) = chan_make"
      using cp_inv_service [OF inv ss] by (simp add: service_inv_def)
    let ?ss = "ss\<lparr>ss_Controller := (ss_Controller ss)\<lparr>DesiredStateChannel := \<lparr>ch_sent = [], ch_closed = True\<rparr>\<rparr>\<rparr>"
    have close: "runs (on_service ?n (on_controller (on_channel chan_close))) c' Q =
        Q () (c'\<lparr>SIStorage := Structure_Set ?n ?ss (SIStorage c')\<rparr>)"
      if "SIStorage c' = (SIStorage c)\<lparr>wlocked := True\<rparr>" for c' :: "('db, 'p) ControlPlane" and Q
      using that ss' by (simp add: runs_on_service runs_close_channel [OF chan])
    have "cp_inv (?c\<lparr>cp_db := db\<rparr>)" "unlocked (DataPlaneConnections (?c\<lparr>cp_db := db\<rparr>))"
      using inv ul by (simp_all add: cp_views)
    note remove = removeServiceFromDataplane_runs [OF this w, of info]
    show ?thesis
      unfolding DeregisterService_def using ul True inv
      by (intro keeps_si_lock; simp add: keeps_def wp ks_Present del remove)
        (simp add: close cp_views effect_def services_inv_remove)
  next
    case False
    then show ?thesis
      unfolding DeregisterService_def using ul inv
      by (intro keeps_si_lock; simp add: keeps_def wp ks_Present cp_views effect_def)
  qed
qed

lemma reads_keep:
  assumes inv: "cp_inv c" and free: "locks c = no_locks"
  shows "keeps ListServices c (\<lambda>names reg. set names = reg_services (registry_of c) \<and> reg = registry_of c)"
    and "keeps GetHAProxyConfig c (\<lambda>_ reg. reg = registry_of c)"
  using unlocked_locks [OF free] inv
  by (simp_all add: keeps_def ListServices_def GetHAProxyConfig_def wp unlocked_def cp_views lk_def map_Keys_def
      Structure_GetMap_def) (simp add: ks_def)


definition steady :: "('db, 'p) ControlPlane \<Rightarrow> ('db, 'p) ControlPlane \<Rightarrow> bool" where
  \<comment> \<open>the invariant holds and no registration has changed\<close>
  "steady c c' \<longleftrightarrow> cp_inv c' \<and> locks c' = locks c \<and> registry_of c' = registry_of c \<and> cp_next c' = cp_next c"

lemma steady_refl: "cp_inv c \<Longrightarrow> steady c c"
  by (simp add: steady_def)

lemma steady_trans: "steady a b \<Longrightarrow> steady b c \<Longrightarrow> steady a c"
  by (simp add: steady_def)

lemma on_service_steady:
  assumes ss: "Structure_Get (SIStorage c) name = Some ss"
    and body: "runs m (ss, c) (\<lambda>x s. steady c (snd s) \<and> service_inv (ks (NIStorage c)) (cp_next c) (name, fst s) \<and> P x)"
  shows "runs (on_service name m) c (\<lambda>x c'. steady c c' \<and> P x)"
  unfolding runs_on_service [OF ss]
proof (rule runs_mono [OF body], elim conjE, intro conjI)
  fix x and s :: "ServiceInfoStorage \<times> ('a, 'b) ControlPlane"
  assume s: "steady c (snd s)" "service_inv (ks (NIStorage c)) (cp_next c) (name, fst s)"
  have "ks (NIStorage (snd s)) = ks (NIStorage c)" "ks (SIStorage (snd s)) = ks (SIStorage c)" "cp_next (snd s) = cp_next c"
    using s(1) by (simp_all add: steady_def registry_of_def)
  then show "steady c ((snd s)\<lparr>SIStorage := Structure_Set name (fst s) (SIStorage (snd s))\<rparr>)"
    using s ks_Get [OF ss] by (simp add: steady_def cp_views services_inv_set insert_absorb)
qed

lemma OnMetricsReceive_keeps:
  fixes c :: "('db, 'p) ControlPlane"
  assumes inv: "cp_inv c" and free: "locks c = no_locks"
  shows "runs (OnMetricsReceive metric) c (\<lambda>(st, _) c'. steady c c' \<and>
     (as_Success st \<longleftrightarrow> am_ServiceName metric \<in> reg_services (registry_of c)))"
proof -
  let ?n = "am_ServiceName metric"
  have ul: "\<not> wlocked (SIStorage c)" using unlocked_locks [OF free] by (simp add: unlocked_def)
  have get: "runs (on_si (Structure_AtomicGet ?n)) c Q = Q (Structure_Get (SIStorage c) ?n) c" for Q
    using Structure_AtomicGet_not_wlocked [OF ul, of ?n] by (simp add: runs_def gzoom_def)
  show ?thesis
  proof (cases "Structure_Get (SIStorage c) ?n")
    case None
    then have "?n \<notin> ks (SIStorage c)" using ks_Some by fastforce
    with None inv show ?thesis
      by (simp add: OnMetricsReceive_def runs_gbind get runs_gret steady_refl registry_of_def)
  next
    case (Some ss)
    let ?set = "on_service ?n (on_controller (on_metadata (gmodify (SetCachedScalingMetric metric)))) :: (('db, 'p) ControlPlane, unit) go"
    have one: "runs ?set c (\<lambda>_ c'. steady c c' \<and> True)"
      using cp_inv_service [OF inv Some] inv
      by (intro on_service_steady [OF Some])
        (simp add: wp steady_refl service_inv_def endpoints_inv_def SetCachedScalingMetric_def)
    have two: "runs (on_service ?n (on_controller Controller_Start)) c' (\<lambda>_ c''. steady c c'')"
      if c': "steady c c'" for c' :: "('db, 'p) ControlPlane"
    proof -
      have "?n \<in> ks (SIStorage c')" using c' ks_Get [OF Some] by (simp add: steady_def registry_of_def)
      from ks_Some [OF this] obtain ss' where ss': "Structure_Get (SIStorage c') ?n = Some ss'" by blast
      have inv': "cp_inv c'" using c' by (simp add: steady_def)
      have "runs (on_service ?n (on_controller Controller_Start)) c' (\<lambda>x c''. steady c' c'' \<and> True)"
        using cp_inv_service [OF inv' ss'] inv'
        by (intro on_service_steady [OF ss'])
          (simp add: wp runs_def [of Controller_Start] Controller_Start_def steady_refl service_inv_def endpoints_inv_def)
      then show ?thesis by (rule runs_mono) (simp add: steady_trans [OF c'])
    qed
    show ?thesis
      unfolding OnMetricsReceive_def runs_gbind runs_gthen get Some option.case
      by (rule runs_mono [OF one], rule runs_mono [OF two])
        (use ks_Get [OF Some] in \<open>simp_all add: runs_gret registry_of_def\<close>)
  qed
qed

section \<open>Failures of sandboxes\<close>

lemma removeEndpointFromWNStruct_steady:
  assumes inv: "cp_inv c" and "\<exists>name \<in> ks (NIStorage c). ep_Node e = Some name"
  shows "runs (removeEndpointFromWNStruct e) c (\<lambda>_ c'. steady c c')"
proof -
  obtain name where name: "name \<in> ks (NIStorage c)" "ep_Node e = Some name" using assms(2) by blast
  obtain n where n: "Structure_Get (NIStorage c) name = Some n" using ks_Some [OF name(1)] by blast
  have "nodes_inv (NIStorage c)" using inv by (simp add: cp_inv_def)
  note wn = nodes_inv_Get [OF this n]
  then have "nodes_inv (Structure_Set name (n\<lparr>wn_endpointMap := (Structure_Remove e ((wn_endpointMap n)\<lparr>wlocked := True\<rparr>))\<lparr>wlocked := False\<rparr>\<rparr>) (NIStorage c))"
    using inv by (intro nodes_inv_set) (simp_all add: cp_inv_def unlocked_lk)
  then show ?thesis
    unfolding removeEndpointFromWNStruct_def name(2) option.case runs_on_node [OF n]
    using inv wn name(1) by (simp add: wp steady_def cp_views insert_absorb)
qed

lemma searchEndpoint_in: "searchEndpointByContainerName es cid = Some e \<Longrightarrow> e \<in> set es \<and> ep_SandboxID e = cid"
  by (induction es cid rule: searchEndpointByContainerName.induct) (auto split: if_splits)

lemma collectRemoved_runs:
  assumes "cp_inv c" and "endpoints_inv (ks (NIStorage c)) nxt (ss_Controller ss)"
    and "gm_wf ev" "fst ` set ev \<subseteq> set (Endpoints (ss_Controller ss))"
  shows "runs (collectRemoved cids ev) (ss, c) (\<lambda>ev' s. fst s = ss \<and> steady c (snd s) \<and>
     gm_wf ev' \<and> fst ` set ev' \<subseteq> set (Endpoints (ss_Controller ss)))"
  using assms
proof (induction cids arbitrary: ev c)
  case Nil
  then show ?case by (simp add: wp steady_refl)
next
  case (Cons cid cids)
  show ?case
  proof (cases "searchEndpointByContainerName (Endpoints (ss_Controller ss)) cid")
    case None
    then show ?thesis using Cons by (simp add: wp)
  next
    case (Some e)
    then have e: "e \<in> set (Endpoints (ss_Controller ss))" using searchEndpoint_in by blast
    then have "\<exists>name \<in> ks (NIStorage c). ep_Node e = Some name" using Cons.prems(2) by (simp add: endpoints_inv_def)
    from removeEndpointFromWNStruct_steady [OF Cons.prems(1) this]
    have "runs (removeEndpointFromWNStruct e) c (\<lambda>_ c'. runs (collectRemoved cids (gm_set e () ev)) (ss, c') (\<lambda>ev' s.
        fst s = ss \<and> steady c (snd s) \<and> gm_wf ev' \<and> fst ` set ev' \<subseteq> set (Endpoints (ss_Controller ss))))"
    proof (rule runs_mono)
      fix x c'
      assume st: "steady c c'"
      have "runs (collectRemoved cids (gm_set e () ev)) (ss, c') (\<lambda>ev' s. fst s = ss \<and> steady c' (snd s) \<and>
         gm_wf ev' \<and> fst ` set ev' \<subseteq> set (Endpoints (ss_Controller ss)))"
        using st Cons.prems e by (intro Cons.IH) (auto simp: steady_def registry_of_def dom_update)
      then show "runs (collectRemoved cids (gm_set e () ev)) (ss, c') (\<lambda>ev' s.
        fst s = ss \<and> steady c (snd s) \<and> gm_wf ev' \<and> fst ` set ev' \<subseteq> set (Endpoints (ss_Controller ss)))"
        by (rule runs_mono) (simp add: steady_trans [OF st])
    qed
    then show ?thesis using Some by (simp add: wp)
  qed
qed


lemma runs_updateEndpoints:
  assumes "cp_inv c" "unlocked (DataPlaneConnections c)"
  shows "runs (updateEndpoints w info eps) c Q =
     Q () (c\<lparr>cp_calls := cp_calls c @ endpoint_updates info eps (DataPlaneConnections c)\<rparr>)"
  using updateEndpoints_ready [of c w info eps] assms by (simp add: runs_def dps_ready_def cp_inv_def dps_inv_def)

lemma removeEndpoints_runs:
  fixes c :: "('db, 'p) ControlPlane"
  assumes inv: "cp_inv c" and ul: "unlocked (DataPlaneConnections c)"
    and si: "service_inv (ks (NIStorage c)) (cp_next c) (name, ss)"
  shows "runs (removeEndpoints w cids) (ss, c) (\<lambda>_ s. steady c (snd s) \<and> service_inv (ks (NIStorage c)) (cp_next c) (name, fst s) \<and> True)"
proof -
  let ?as = "ss_Controller ss" and ?ss = "ss\<lparr>ss_Controller := (ss_Controller ss)\<lparr>EndpointLock := True\<rparr>\<rparr>"
  have as: "endpoints_inv (ks (NIStorage c)) (cp_next c) ?as" "\<not> EndpointLock ?as" using si by (simp_all add: service_inv_def)
  then have "endpoints_inv (ks (NIStorage c)) (cp_next c) (ss_Controller ?ss)" by (simp add: endpoints_inv_def)
  from collectRemoved_runs [OF inv this, of "[]" cids]
  have collect: "runs (collectRemoved cids []) (?ss, c) (\<lambda>ev s. fst s = ?ss \<and> steady c (snd s) \<and>
     gm_wf ev \<and> fst ` set ev \<subseteq> set (Endpoints ?as))" by simp
  show ?thesis
    unfolding removeEndpoints_def
  proof (simp add: wp as(2), rule runs_mono [OF collect], elim conjE)
    fix ev :: "(Endpoint, unit) gomap" and s :: "('db, 'p) service_state"
    assume s: "fst s = ?ss" "steady c (snd s)" "gm_wf ev" "fst ` set ev \<subseteq> set (Endpoints ?as)"
    have inv': "cp_inv (snd s)" "unlocked (DataPlaneConnections (snd s))"
      using s(2) ul by (simp_all add: steady_def locks_def unlocked_lk)
    let ?as' = "addActualScale (- int (length ev)) (excludeEndpoints ev ?as)"
    have as': "(excludeEndpoints ev (addActualScale (- int (length ev)) (?as\<lparr>EndpointLock := True\<rparr>)))\<lparr>EndpointLock := False\<rparr> = ?as'"
      using as(2) by (simp add: excludeEndpoints_def addActualScale_def)
    have lock: "EndpointLock (excludeEndpoints ev (addActualScale (- int (length ev)) (?as\<lparr>EndpointLock := True\<rparr>)))"
      by (simp add: excludeEndpoints_def addActualScale_def)
    have "service_inv (ks (NIStorage c)) (cp_next c) (name, ss\<lparr>ss_Controller := ?as'\<rparr>)"
      using si endpoints_inv_exclude(1) [OF as(1) s(3,4)]
      by (simp add: service_inv_def) (simp add: addActualScale_def excludeEndpoints_def)
    moreover have "steady c ((snd s)\<lparr>cp_calls := l\<rparr>)" for l using s(2) by (auto simp: steady_def cp_views)
    ultimately show "runs (updateEndpoints w (ss_ServiceInfo (fst s)) (prepareEndpointInfo
          (Endpoints (excludeEndpoints ev (addActualScale (- int (length ev)) (ss_Controller (fst s))))))) (snd s)
       (\<lambda>_ t. EndpointLock (excludeEndpoints ev (addActualScale (- int (length ev)) (ss_Controller (fst s)))) \<and>
          steady c t \<and> service_inv (ks (NIStorage c)) (cp_next c) (name, (fst s)\<lparr>ss_Controller :=
            (excludeEndpoints ev (addActualScale (- int (length ev)) (ss_Controller (fst s))))\<lparr>EndpointLock := False\<rparr>\<rparr>))"
      by (simp add: s(1) runs_updateEndpoints [OF inv'] as' lock)
  qed
qed

lemma HandleFailure_keeps:
  fixes c :: "('db, 'p) ControlPlane"
  assumes inv: "cp_inv c" and ul: "unlocked (DataPlaneConnections c)"
  shows "runs (HandleFailure w failures) c (\<lambda>r c'. r \<and> steady c c')"
proof -
  let ?body = "\<lambda>f. gthen (case f_Type f of
             SANDBOX_DAEMON_FAILURE \<Rightarrow> gret ()
           | _ \<Rightarrow> gbind (gget (\<lambda>c. Structure_Present (SIStorage c) (f_ServiceName f))) (\<lambda>present.
                    gwhen present (on_service (f_ServiceName f) (removeEndpoints w (f_SandboxIDs f)))))
           (gret (None :: unit option))"
  have step: "runs (on_service (f_ServiceName f) (removeEndpoints w (f_SandboxIDs f))) c' (\<lambda>_ c''. steady c c'')"
    if c': "steady c c'" and present: "f_ServiceName f \<in> ks (SIStorage c')" for f c'
  proof -
    from ks_Some [OF present] obtain ss where ss: "Structure_Get (SIStorage c') (f_ServiceName f) = Some ss" by blast
    have inv': "cp_inv c'" "unlocked (DataPlaneConnections c')"
      using c' ul by (simp_all add: steady_def locks_def unlocked_lk)
    from on_service_steady [OF ss removeEndpoints_runs [OF inv' cp_inv_service [OF inv'(1) ss], of w "f_SandboxIDs f"]]
    show ?thesis by (rule runs_mono) (simp add: steady_trans [OF c'])
  qed
  have "runs (grange failures ?body) c (\<lambda>r c'. r = None \<and> steady c c')"
    by (rule runs_grange [of "\<lambda>_. steady c"])
      (use inv step in \<open>auto simp: wp steady_refl ks_Present split: FailureType.split\<close>)
  then show ?thesis
    unfolding HandleFailure_def runs_gthen by (rule runs_mono) (simp add: wp)
qed

end
