(* ===== verification/Deadlocks.thy ===== *)
theory Deadlocks
  imports Sync_Maps
begin

text \<open>
  The counterpart of \<^term>\<open>runs\<close>: \<open>blocks m s Q\<close> holds if \<open>m\<close>, started in \<open>s\<close>, waits for ever or returns
  with \<open>Q\<close>; \<open>deadlocks m s\<close> if it waits for ever. The collection \<open>bp\<close> computes it for straight-line code.
\<close>

named_theorems bp

definition blocks :: "('s, 'a) go \<Rightarrow> 's \<Rightarrow> ('a \<Rightarrow> 's \<Rightarrow> bool) \<Rightarrow> bool" where
  "blocks m s Q \<longleftrightarrow> (case m s of Ret x s' \<Rightarrow> Q x s' | Panic _ _ \<Rightarrow> False | Blocked _ _ \<Rightarrow> True)"

definition deadlocks :: "('s, 'a) go \<Rightarrow> 's \<Rightarrow> bool" where
  "deadlocks m s \<longleftrightarrow> (\<exists>why s'. m s = Blocked why s')"

lemma deadlocks_blocks: "deadlocks m s \<longleftrightarrow> blocks m s (\<lambda>_ _. False)"
  by (cases "m s") (simp_all add: deadlocks_def blocks_def)

lemma deadlocks_imp: "deadlocks m s \<Longrightarrow> blocks m s Q"
  by (auto simp: deadlocks_def blocks_def)

lemma blocks_simps [bp]:
  "blocks (gret x) s Q = Q x s"
  "blocks (gbind m f) s Q = blocks m s (\<lambda>x s'. blocks (f x) s' Q)"
  "blocks (gthen m n) s Q = blocks m s (\<lambda>_ s'. blocks n s' Q)"
  "blocks (gget g) s Q = Q (g s) s"
  "blocks (gmodify h) s R = R () (h s)"
  "blocks (gwhen b k) s R = (if b then blocks k s R else R () s)"
  "blocks (gzoom get put l) s Q = blocks l (get s) (\<lambda>x t. Q x (put t s))"
  by (simp_all add: blocks_def go_monad split: outcome.splits)

lemma blocks_gdefer: "blocks m s (\<lambda>x s'. blocks c s' (\<lambda>_ s''. Q x s'')) \<Longrightarrow> blocks (gdefer c m) s Q"
  by (cases "m s") (auto simp: blocks_def go_monad split: outcome.splits)

lemma blocks_runs: "runs m s P \<Longrightarrow> (\<And>x s'. P x s' \<Longrightarrow> Q x s') \<Longrightarrow> blocks m s Q"
  by (simp add: runs_def blocks_def split: outcome.splits)

lemma blocks_mono: "blocks m s P \<Longrightarrow> (\<And>x s'. P x s' \<Longrightarrow> Q x s') \<Longrightarrow> blocks m s Q"
  by (simp add: blocks_def split: outcome.splits)

lemma blocks_Lock [bp]: "blocks Structure_Lock st Q = (unlocked st \<longrightarrow> Q () (st\<lparr>wlocked := True\<rparr>))"
  by (auto simp: blocks_def Structure_Lock_def unlocked_def)

lemma blocks_RLock [bp]: "blocks Structure_RLock st Q = (\<not> wlocked st \<longrightarrow> Q () (st\<lparr>rlocks := Suc (rlocks st)\<rparr>))"
  by (auto simp: blocks_def Structure_RLock_def)

lemma AtomicRemove_deadlocks: "\<not> unlocked st \<Longrightarrow> blocks (Structure_AtomicRemove k) st Q"
  by (simp add: Structure_AtomicRemove_def bp)

lemma AtomicGet_deadlocks: "wlocked st \<Longrightarrow> blocks (Structure_AtomicGet k) st Q"
  by (simp add: Structure_AtomicGet_def bp)

end
