(* ===== verification/Cluster_State.thy ===== *)
theory Cluster_State
  imports Registry_Services Deadlocks
begin

text \<open>
  The control plane as a server: any sequence of calls of its handlers, each in a world of its own (the
  time, the answers of data planes and workers, the persistence layer). The sequences refine an abstract
  cluster state with three sets of names, and the handlers neither panic nor wait for a lock for ever.
  The second part collects the paths on which they do.
\<close>

section \<open>Calls\<close>

datatype cp_op =
    OpRegisterDataplane DataplaneInfo
  | OpDeregisterDataplane DataplaneInfo
  | OpRegisterNode NodeInfo
  | OpConnectNode string
  | OpNodeHeartbeat NodeHeartbeatMessage
  | OpDeregisterNode NodeInfo
  | OpRegisterService ServiceInfo
  | OpDeregisterService ServiceInfo
  | OpMetrics AutoscalingMetric
  | OpFailure "Failure list"

fun cp_exec :: "('db, 'p) world \<Rightarrow> cp_op \<Rightarrow> (('db, 'p) ControlPlane, bool) go" where
  \<comment> \<open>a call and whether it answers success\<close>
  "cp_exec w (OpRegisterDataplane i) = gbind (RegisterDataplane w i) (\<lambda>(st, err, _). gret (as_Success st))"
| "cp_exec w (OpDeregisterDataplane i) = gbind (DeregisterDataplane w i) (\<lambda>(st, err). gret (as_Success st))"
| "cp_exec w (OpRegisterNode i) = gbind (RegisterNode w i) (\<lambda>(st, err). gret (as_Success st))"
| "cp_exec w (OpConnectNode name) = gthen (connectNode w name) (gret True)"
| "cp_exec w (OpNodeHeartbeat i) = gbind (NodeHeartbeat w i) (\<lambda>(st, err). gret (as_Success st))"
| "cp_exec w (OpDeregisterNode i) = gbind (DeregisterNode w i) (\<lambda>(st, err). gret (as_Success st))"
| "cp_exec w (OpRegisterService i) = gbind (RegisterService w i) (\<lambda>(st, err). gret (as_Success st))"
| "cp_exec w (OpDeregisterService i) = gbind (DeregisterService w i) (\<lambda>(st, err). gret (as_Success st))"
| "cp_exec w (OpMetrics m) = gbind (OnMetricsReceive m) (\<lambda>(st, _). gret (as_Success st))"
| "cp_exec w (OpFailure fs) = HandleFailure w fs"

fun cp_session :: "(('db, 'p) world \<times> cp_op) list \<Rightarrow> (('db, 'p) ControlPlane, bool list) go" where
  "cp_session [] = gret []"
| "cp_session ((w, op) # ops) = gbind (cp_exec w op) (\<lambda>a. gbind (cp_session ops) (\<lambda>as. gret (a # as)))"

section \<open>The abstract cluster\<close>

fun cluster_update :: "cp_op \<Rightarrow> registry \<Rightarrow> registry" where
  \<comment> \<open>the effect of a call that succeeds\<close>
  "cluster_update (OpRegisterDataplane i) = reg_dataplanes_update (insert (dpi_IP i))"
| "cluster_update (OpDeregisterDataplane i) = reg_dataplanes_update (\<lambda>s. s - {dpi_IP i})"
| "cluster_update (OpRegisterNode i) = reg_nodes_update (insert (ni_NodeID i))"
| "cluster_update (OpDeregisterNode i) = reg_nodes_update (\<lambda>s. s - {ni_NodeID i})"
| "cluster_update (OpRegisterService i) = reg_services_update (insert (si_Name i))"
| "cluster_update (OpDeregisterService i) = reg_services_update (\<lambda>s. s - {si_Name i})"
| "cluster_update _ = id"

fun cluster_answer :: "cp_op \<Rightarrow> registry \<Rightarrow> bool set" where
  \<comment> \<open>the answers a call may give; a data plane may be out of reach\<close>
  "cluster_answer (OpRegisterNode i) reg = {ni_NodeID i \<notin> reg_nodes reg}"
| "cluster_answer (OpDeregisterNode i) reg = {ni_NodeID i \<in> reg_nodes reg}"
| "cluster_answer (OpNodeHeartbeat i) reg = {hb_NodeID i \<in> reg_nodes reg}"
| "cluster_answer (OpRegisterService i) reg = {si_Name i \<notin> reg_services reg}"
| "cluster_answer (OpDeregisterService i) reg = {si_Name i \<in> reg_services reg}"
| "cluster_answer (OpMetrics m) reg = {am_ServiceName m \<in> reg_services reg}"
| "cluster_answer (OpRegisterDataplane i) reg = UNIV"
| "cluster_answer (OpDeregisterDataplane i) reg = UNIV"
| "cluster_answer _ reg = {True}"

fun cluster_runs :: "cp_op list \<Rightarrow> bool list \<Rightarrow> registry \<Rightarrow> registry \<Rightarrow> bool" where
  "cluster_runs [] [] reg reg' = (reg' = reg)"
| "cluster_runs (op # ops) (a # as) reg reg' =
     (a \<in> cluster_answer op reg \<and> cluster_runs ops as (effect a (cluster_update op) reg) reg')"
| "cluster_runs _ _ _ _ = False"

section \<open>Refinement\<close>

lemma keeps_gbind:
  assumes "keeps m c P" and "\<And>x reg. P x reg \<Longrightarrow> Q (f x) reg"
  shows "keeps (gbind m (\<lambda>x. gret (f x))) c Q"
  using assms(1) unfolding keeps_def runs_gbind
  by (rule runs_mono) (use assms(2) in \<open>simp add: wp\<close>)

lemma steady_keeps: "runs m c (\<lambda>x c'. steady c c' \<and> P x) \<Longrightarrow> keeps m c (\<lambda>x reg. P x \<and> reg = registry_of c)"
  unfolding keeps_def by (erule runs_mono) (simp add: steady_def)

lemma OnMetrics_keeps:
  assumes "cp_inv c" "locks c = no_locks"
  shows "keeps (OnMetricsReceive m) c (\<lambda>r reg. (as_Success (fst r) \<longleftrightarrow> am_ServiceName m \<in> reg_services (registry_of c)) \<and>
     reg = registry_of c)"
  by (rule steady_keeps, rule runs_mono [OF OnMetricsReceive_keeps [OF assms]]) auto

lemma Failure_keeps:
  assumes "cp_inv c" "locks c = no_locks"
  shows "keeps (HandleFailure w fs) c (\<lambda>r reg. r \<and> reg = registry_of c)"
  by (rule steady_keeps, rule runs_mono [OF HandleFailure_keeps [OF assms(1)]])
    (use unlocked_locks [OF assms(2)] in auto)

lemma cp_exec_refines:
  assumes inv: "cp_inv c" and free: "locks c = no_locks" and w: "env_ok w"
  shows "keeps (cp_exec w op) c (\<lambda>a reg. a \<in> cluster_answer op (registry_of c) \<and>
     reg = effect a (cluster_update op) (registry_of c))"
proof (cases op)
  case (OpRegisterDataplane i)
  show ?thesis unfolding OpRegisterDataplane cp_exec.simps case_prod_unfold
    by (rule keeps_gbind [OF RegisterDataplane_keeps [OF inv free w]]) auto
next
  case (OpDeregisterDataplane i)
  show ?thesis unfolding OpDeregisterDataplane cp_exec.simps case_prod_unfold
    by (rule keeps_gbind [OF DeregisterDataplane_keeps [OF inv free w]]) auto
next
  case (OpRegisterNode i)
  show ?thesis unfolding OpRegisterNode cp_exec.simps case_prod_unfold
    by (rule keeps_gbind [OF RegisterNode_keeps [OF inv free w]]) auto
next
  case (OpConnectNode name)
  show ?thesis unfolding OpConnectNode cp_exec.simps
    using connectNode_keeps [OF inv, of w name] by (auto simp: keeps_def wp effect_def elim!: runs_mono)
next
  case (OpNodeHeartbeat i)
  show ?thesis unfolding OpNodeHeartbeat cp_exec.simps case_prod_unfold
    by (rule keeps_gbind [OF NodeHeartbeat_keeps [OF inv]]) (auto simp: effect_def)
next
  case (OpDeregisterNode i)
  show ?thesis unfolding OpDeregisterNode cp_exec.simps case_prod_unfold
    by (rule keeps_gbind [OF DeregisterNode_keeps [OF inv free w]]) auto
next
  case (OpRegisterService i)
  show ?thesis unfolding OpRegisterService cp_exec.simps case_prod_unfold
    by (rule keeps_gbind [OF RegisterService_keeps [OF inv free w]]) auto
next
  case (OpDeregisterService i)
  show ?thesis unfolding OpDeregisterService cp_exec.simps case_prod_unfold
    by (rule keeps_gbind [OF DeregisterService_keeps [OF inv free w]]) auto
next
  case (OpMetrics m)
  show ?thesis unfolding OpMetrics cp_exec.simps case_prod_unfold
    by (rule keeps_gbind [OF OnMetrics_keeps [OF inv free]]) (auto simp: effect_def)
next
  case (OpFailure fs)
  show ?thesis unfolding OpFailure cp_exec.simps
    using Failure_keeps [OF inv free, of w fs] by (auto simp: keeps_def effect_def elim!: runs_mono)
qed

lemma cp_session_refines:
  assumes "cp_inv c" "locks c = no_locks" "\<forall>p \<in> set ops. env_ok (fst p)"
  shows "runs (cp_session ops) c (\<lambda>as c'. cp_inv c' \<and> locks c' = no_locks \<and>
     cluster_runs (map snd ops) as (registry_of c) (registry_of c'))"
  using assms
proof (induction ops arbitrary: c)
  case Nil
  then show ?case by (simp add: wp)
next
  case (Cons p ops)
  obtain w op where p: "p = (w, op)" by (cases p)
  have "runs (cp_exec w op) c (\<lambda>a c'. cp_inv c' \<and> locks c' = no_locks \<and> a \<in> cluster_answer op (registry_of c) \<and>
     registry_of c' = effect a (cluster_update op) (registry_of c))"
    using cp_exec_refines [OF Cons.prems(1,2), of w op] Cons.prems(2,3) p by (simp add: keeps_def)
  then show ?case
    unfolding p cp_session.simps runs_gbind
    by (rule runs_mono) (use Cons.prems(3) in \<open>auto simp: wp intro!: runs_mono [OF Cons.IH]\<close>)
qed


section \<open>Waits without end\<close>

lemma blocks_si_lock: "unlocked (SIStorage c) \<Longrightarrow>
    blocks m (c\<lparr>SIStorage := (SIStorage c)\<lparr>wlocked := True\<rparr>\<rparr>) (\<lambda>x c'. blocks (on_si Structure_Unlock) c' (\<lambda>_. Q x)) \<Longrightarrow>
    blocks (with_si_lock m) c Q"
  unfolding with_si_lock_def by (simp add: bp blocks_gdefer)

lemma blocks_ni_lock: "unlocked (NIStorage c) \<Longrightarrow>
    blocks m (c\<lparr>NIStorage := (NIStorage c)\<lparr>wlocked := True\<rparr>\<rparr>) (\<lambda>x c'. blocks (on_ni Structure_Unlock) c' (\<lambda>_. Q x)) \<Longrightarrow>
    blocks (with_ni_lock m) c Q"
  unfolding with_ni_lock_def by (simp add: bp blocks_gdefer)

lemma RegisterDataplane_locked: "wlocked (DataPlaneConnections c) \<Longrightarrow> deadlocks (RegisterDataplane w inp) c"
  unfolding RegisterDataplane_def with_si_lock_def with_dp_lock_def deadlocks_blocks Let_def
  by (simp add: bp, intro impI blocks_gdefer) (simp add: bp unlocked_def)

lemma DeregisterDataplane_locked: "wlocked (DataPlaneConnections c) \<Longrightarrow> deadlocks (DeregisterDataplane w inp) c"
  unfolding DeregisterDataplane_def with_si_lock_def with_dp_lock_def deadlocks_blocks Let_def
  by (simp add: bp, intro impI blocks_gdefer) (simp add: bp unlocked_def)

lemma RegisterNode_store_error:
  assumes free: "locks c = no_locks" and new: "ni_NodeID inp \<notin> reg_nodes (registry_of c)"
    and store: "pl_StoreWorkerNodeInformation (w_pl w) (nodeInformation inp) (cp_db c) = Ret (Some e) db"
  shows "deadlocks (RegisterNode w inp) c"
proof -
  have "blocks (pl_StoreWorkerNodeInformation (w_pl w) (nodeInformation inp)) (cp_db c) Q = Q (Some e) db" for Q
    using store by (simp add: blocks_def)
  then show ?thesis
    unfolding RegisterNode_def Let_def deadlocks_blocks using unlocked_locks [OF free] new
    by (intro blocks_ni_lock) (simp_all add: bp ks_Present registry_of_def AtomicRemove_deadlocks unlocked_def)
qed

lemma RegisterService_store_error:
  assumes free: "locks c = no_locks" and new: "si_Name info \<notin> reg_services (registry_of c)"
    and store: "pl_StoreServiceInformation (w_pl w) info (cp_db c) = Ret (Some e) db"
  shows "deadlocks (RegisterService w info) c"
proof -
  have "blocks (pl_StoreServiceInformation (w_pl w) info) (cp_db c) Q = Q (Some e) db" for Q
    using store by (simp add: blocks_def)
  then show ?thesis
    unfolding RegisterService_def deadlocks_blocks using unlocked_locks [OF free] new
    by (intro blocks_si_lock) (simp_all add: bp ks_Present registry_of_def AtomicRemove_deadlocks unlocked_def)
qed

lemma removeServiceFromDataplane_error:
  assumes dps: "dps_inv (DataPlaneConnections c)" "InternalMap (DataPlaneConnections c) \<noteq> []" "unlocked (DataPlaneConnections c)"
    and err: "\<And>n ip. w_err w n (RpcDeleteDeployment ip info)"
  shows "runs (removeServiceFromDataplane w info) c (\<lambda>err c'. err \<noteq> None \<and> wlocked (DataPlaneConnections c') \<and>
     SIStorage c' = SIStorage c)"
proof -
  obtain key conn rest where m: "InternalMap (DataPlaneConnections c) = (key, conn) # rest" using dps(2) by (cases "InternalMap (DataPlaneConnections c)") auto
  then have "dc_Iface conn" using dps(1) by (simp add: dps_inv_def)
  then show ?thesis
    using dps(3) err unfolding removeServiceFromDataplane_def Structure_GetMap_def by (simp add: wp m)
qed

lemma DeregisterService_error:
  assumes inv: "cp_inv c" and free: "locks c = no_locks" and reg: "si_Name info \<in> reg_services (registry_of c)"
    and dp: "reg_dataplanes (registry_of c) \<noteq> {}" and err: "\<And>n ip. w_err w n (RpcDeleteDeployment ip info)"
    and del: "pl_DeleteServiceInformation (w_pl w) info (cp_db c) = Ret None db"
  shows "runs (DeregisterService w info) c (\<lambda>(st, _) c'. \<not> as_Success st \<and> wlocked (DataPlaneConnections c'))"
proof -
  let ?c = "c\<lparr>SIStorage := (SIStorage c)\<lparr>wlocked := True\<rparr>, cp_db := db\<rparr>"
  have d: "runs (pl_DeleteServiceInformation (w_pl w) info) (cp_db c) Q = Q None db" for Q
    using del by (simp add: runs_def)
  note ul = unlocked_locks [OF free]
  have "runs (removeServiceFromDataplane w info) ?c (\<lambda>err c'. err \<noteq> None \<and> wlocked (DataPlaneConnections c') \<and>
     SIStorage c' = SIStorage ?c)"
    using inv ul dp err by (intro removeServiceFromDataplane_error) (auto simp: cp_inv_def registry_of_def ks_def)
  then show ?thesis
    unfolding DeregisterService_def with_si_lock_def using ul reg
    by (simp add: wp d ks_Present registry_of_def) (erule runs_mono, auto simp: wp)
qed


text \<open>The monitors hold a lock that the handling of a failure takes again.\<close>

definition late :: "('db, 'p) world \<Rightarrow> int \<Rightarrow> bool" where
  "late w t \<longleftrightarrow> w_now w - t > TolerateHeartbeatMisses * HeartbeatInterval"

lemma failureEvents_locked:
  assumes "wlocked (NIStorage c)" "names \<noteq> []"
  shows "blocks (failureEvents wn names evs) c Q"
proof -
  obtain name rest where names: "names = name # rest" using assms(2) by (cases names) auto
  show ?thesis
    using assms(1) unfolding names failureEvents.simps getServicesOnWorkerNode_def
    by (simp add: bp AtomicGet_deadlocks)
qed

lemma createWorkerNodeFailureEvents_locked:
  assumes "wlocked (NIStorage c)" "unlocked (SIStorage c)" "InternalMap (SIStorage c) \<noteq> []"
  shows "blocks (createWorkerNodeFailureEvents wn) c Q"
  unfolding createWorkerNodeFailureEvents_def using assms
  by (intro blocks_si_lock) (simp_all add: bp failureEvents_locked Structure_GetValues_def Structure_GetMap_def)

lemma blocks_on_node:
  assumes "Structure_Get (NIStorage c) name = Some n"
  shows "blocks (on_node name m) c Q = blocks m n (\<lambda>x n'. Q x (c\<lparr>NIStorage := Structure_Set name n' (NIStorage c)\<rparr>))"
  using assms by (simp add: on_node_def blocks_def gzoom_def split: outcome.splits)

lemma Structure_Get_Set [simp]: "Structure_Get (Structure_Set k v st) k' = (if k' = k then Some v else Structure_Get st k')"
  by (simp add: Structure_Get_def Structure_Set_def)

lemma checkNodes_late:
  assumes "wlocked (NIStorage c)" "unlocked (SIStorage c)" "InternalMap (SIStorage c) \<noteq> []"
    and "\<forall>name \<in> set names. \<exists>n. Structure_Get (NIStorage c) name = Some n"
    and "\<exists>name \<in> set names. \<exists>n. Structure_Get (NIStorage c) name = Some n \<and> late w (wn_LastHeartbeat n)"
  shows "blocks (checkNodes w names evs) c Q"
  using assms
proof (induction names arbitrary: c evs)
  case (Cons name names)
  then obtain n where n: "Structure_Get (NIStorage c) name = Some n" by auto
  let ?n = "SetSchedulability True n"
  let ?c = "c\<lparr>NIStorage := Structure_Set name ?n (NIStorage c)\<rparr>"
  let ?c2 = "?c\<lparr>NIStorage := Structure_Set name ?n (NIStorage ?c)\<rparr>"
  have n': "Structure_Get (NIStorage ?c) name = Some ?n" by simp
  have hb: "wn_LastHeartbeat ?n = wn_LastHeartbeat n" by (simp add: SetSchedulability_def)
  show ?case
  proof (cases "late w (wn_LastHeartbeat n)")
    case True
    then show ?thesis
      using Cons.prems(1-3) createWorkerNodeFailureEvents_locked [of ?c2]
      by (simp add: bp blocks_on_node [OF n] blocks_on_node [OF n'] hb late_def)
  next
    case False
    from Cons.prems(5) n False obtain k m where "k \<in> set names" "k \<noteq> name" "Structure_Get (NIStorage c) k = Some m"
      "late w (wn_LastHeartbeat m)" by (metis option.inject set_ConsD)
    then have "\<exists>k \<in> set names. \<exists>m. Structure_Get (NIStorage ?c2) k = Some m \<and> late w (wn_LastHeartbeat m)"
      by (intro bexI [of _ k]) simp_all
    then have "blocks (checkNodes w names evs) ?c2 Q"
      using Cons.prems(1-4) by (intro Cons.IH) auto
    then show ?thesis
      using False by (simp add: bp blocks_on_node [OF n] blocks_on_node [OF n'] hb late_def)
  qed
qed simp

lemma CheckWorkerNodes_late:
  assumes inv: "nodes_inv (NIStorage c)" and free: "locks c = no_locks" and "reg_services (registry_of c) \<noteq> {}"
    and late: "Structure_Get (NIStorage c) name = Some n" "late w (wn_LastHeartbeat n)"
  shows "deadlocks (CheckWorkerNodes w) c"
proof -
  let ?c = "c\<lparr>NIStorage := (NIStorage c)\<lparr>wlocked := True\<rparr>\<rparr>"
  have get: "Structure_Get ((NIStorage c)\<lparr>wlocked := True\<rparr>) k = Structure_Get (NIStorage c) k" for k
    by (simp add: Structure_Get_def)
  have "blocks (checkNodes w (Structure_GetKeys (NIStorage ?c)) []) ?c Q" for Q
    using assms unlocked_locks [OF free] ks_Get [OF late(1)]
    by (intro checkNodes_late) (auto simp: get ks_GetKeys registry_of_def ks_def [of "SIStorage c"] dest: ks_Some)
  then show ?thesis
    unfolding CheckWorkerNodes_def deadlocks_blocks using unlocked_locks [OF free] by (simp add: bp)
qed

lemma CheckDataplanes_late:
  assumes free: "locks c = no_locks" and late: "Structure_Get (DataPlaneConnections c) ip = Some conn" "late w (dc_LastHeartBeat conn)"
  shows "deadlocks (CheckDataplanes w) c"
proof -
  let ?c = "c\<lparr>DataPlaneConnections := (DataPlaneConnections c)\<lparr>wlocked := True\<rparr>\<rparr>"
  let ?info = "\<lambda>conn. \<lparr>dpi_IP = [], dpi_APIPort = ParseInt (dc_APIPort conn), dpi_ProxyPort = ParseInt (dc_ProxyPort conn)\<rparr>"
  let ?body = "\<lambda>conn. if w_now w - dc_LastHeartBeat conn > TolerateHeartbeatMisses * HeartbeatInterval
              then gthen (DeregisterDataplane w (?info conn)) (gret (None :: unit option)) else gret None"
  have loop: "blocks (grange conns ?body) ?c Q" if "\<exists>conn \<in> set conns. late w (dc_LastHeartBeat conn)" for conns Q
    using that
  proof (induction conns)
    case (Cons x conns)
    have "blocks (DeregisterDataplane w (?info x)) ?c Q" for Q
      by (rule deadlocks_imp, rule DeregisterDataplane_locked) simp
    with Cons show ?case by (auto simp: bp late_def)
  qed simp
  have "conn \<in> set (Structure_GetValues (DataPlaneConnections c))"
    using Get_in_map [OF late(1)] by (force simp: Structure_GetValues_def Structure_GetMap_def)
  then have "blocks (grange (Structure_GetValues (DataPlaneConnections ?c)) ?body) ?c Q" for Q
    using late(2) by (intro loop) (auto simp: Structure_GetValues_def Structure_GetMap_def)
  then show ?thesis
    unfolding CheckDataplanes_def deadlocks_blocks using unlocked_locks [OF free] by (simp add: bp)
qed


section \<open>Properties\<close>

text \<open>
  C1. Any sequence of calls of the control plane's handlers (registration and removal of data planes,
  worker nodes and services, heartbeats, metrics, failures), made on a state that satisfies the invariant
  while no lock is held, runs to its end: no handler panics or waits for ever. The invariant holds again
  and every lock is free; what is registered afterwards is what the abstract cluster has after the same
  calls with the same answers, and the answers are those the abstract cluster allows. The persistence
  layer is assumed to store and delete without errors, and the data planes to accept the removal of a
  service; snapshots are not created in advance.
\<close>

theorem control_plane_refines_cluster:
  assumes "cp_inv c" "locks c = no_locks" "\<forall>p \<in> set ops. env_ok (fst p)"
  shows "runs (cp_session ops) c (\<lambda>answers c'. cp_inv c' \<and> locks c' = no_locks \<and>
     cluster_runs (map snd ops) answers (registry_of c) (registry_of c'))"
  using assms by (rule cp_session_refines)

definition demo_ops :: "cp_op list" where
  "demo_ops = [OpRegisterDataplane \<lparr>dpi_IP = ''10.0.1.1'', dpi_APIPort = 8081, dpi_ProxyPort = 8080\<rparr>,
     OpRegisterNode \<lparr>ni_NodeID = ''node-1'', ni_IP = ''10.0.2.1'', ni_Port = 10010, ni_CpuCores = 4, ni_MemorySize = 8192\<rparr>,
     OpRegisterService (demo_service ''f''), OpDeregisterNode \<lparr>ni_NodeID = ''node-2'', ni_IP = [], ni_Port = 0, ni_CpuCores = 0, ni_MemorySize = 0\<rparr>,
     OpDeregisterService (demo_service ''f'')]"

lemma NewControlPlane_ok:
  assumes "\<not> cpc_PrecreateSnapshots cfg"
  shows "cp_inv (NewControlPlane db p cfg) \<and> locks (NewControlPlane db p cfg) = no_locks \<and>
     registry_of (NewControlPlane db p cfg) = \<lparr>reg_dataplanes = {}, reg_nodes = {}, reg_services = {}\<rparr>"
  using assms by (simp add: NewControlPlane_def cp_views NewControlPlaneSyncStructure_def dps_inv_def nodes_inv_def
      services_inv_def lk_def ks_def gm_wf_def)

lemma demo_env: "env_ok (demo_world Place)"
  by (simp add: env_ok_def demo_world_def EmptyPersistence_def wp)

theorem control_plane_refines_cluster_witness:
  "runs (cp_session (map (Pair (demo_world (Random_Place id :: unit PlacementPolicy))) demo_ops)) (NewControlPlane () () demo_config)
     (\<lambda>answers c'. cp_inv c' \<and> locks c' = no_locks \<and> cluster_runs demo_ops answers
        \<lparr>reg_dataplanes = {}, reg_nodes = {}, reg_services = {}\<rparr> (registry_of c'))"
proof -
  have "\<not> cpc_PrecreateSnapshots demo_config" by (simp add: demo_config_def)
  note new = NewControlPlane_ok [OF this, of "()" "()"]
  from new control_plane_refines_cluster [of "NewControlPlane () () demo_config" "map (Pair (demo_world (Random_Place id))) demo_ops"]
  show ?thesis by (simp add: comp_def demo_env)
qed



definition demo_full :: "(unit, unit) ControlPlane" where
  \<comment> \<open>a data plane, a worker node and a service\<close>
  "demo_full = (demo_cp ())\<lparr>SIStorage := \<lparr>InternalMap = [(''f'', demo_ss [])], wlocked = False, rlocks = 0\<rparr>\<rparr>"

definition demo_broken :: "(unit, unit) world" where
  \<comment> \<open>every call fails and nothing can be stored\<close>
  "demo_broken = (demo_world (Random_Place id))\<lparr>w_err := (\<lambda>_ _. True),
     w_pl := EmptyPersistence\<lparr>pl_StoreWorkerNodeInformation := (\<lambda>_. gret (Some ''timeout'')),
       pl_StoreServiceInformation := (\<lambda>_. gret (Some ''timeout''))\<rparr>\<rparr>"

lemma demo_full_ok: "cp_inv demo_full" "locks demo_full = no_locks"
  "registry_of demo_full = \<lparr>reg_dataplanes = {''10.0.0.9''}, reg_nodes = {''n1''}, reg_services = {''f''}\<rparr>"
  by (simp_all add: demo_full_def demo_defs demo_config_def cp_views dps_inv_def nodes_inv_def services_inv_def service_inv_def
      endpoints_inv_def lk_def ks_def gm_wf_def unlocked_def NewControlPlaneSyncStructure_def chan_make_def)


text \<open>
  C30. A round of either monitor never ends once it has to act: the monitor of the worker nodes, when a node
  has missed its heartbeats while a service is registered, and the monitor of the data planes, when a data
  plane has missed its heartbeats, wait for a lock that they hold themselves.
\<close>

theorem monitors_deadlock:
  assumes inv: "cp_inv c" and free: "locks c = no_locks"
  shows "(Structure_Get (NIStorage c) name = Some n \<and> reg_services (registry_of c) \<noteq> {} \<and>
        w_now w - wn_LastHeartbeat n > TolerateHeartbeatMisses * HeartbeatInterval \<longrightarrow> deadlocks (CheckWorkerNodes w) c) \<and>
     (Structure_Get (DataPlaneConnections c) ip = Some conn \<and>
        w_now w - dc_LastHeartBeat conn > TolerateHeartbeatMisses * HeartbeatInterval \<longrightarrow> deadlocks (CheckDataplanes w) c)"
proof (intro conjI impI; elim conjE)
  show "deadlocks (CheckWorkerNodes w) c" if "Structure_Get (NIStorage c) name = Some n" "reg_services (registry_of c) \<noteq> {}"
      "w_now w - wn_LastHeartbeat n > TolerateHeartbeatMisses * HeartbeatInterval"
    using inv that by (intro CheckWorkerNodes_late [OF _ free]) (auto simp: late_def cp_inv_def)
  show "deadlocks (CheckDataplanes w) c" if "Structure_Get (DataPlaneConnections c) ip = Some conn"
      "w_now w - dc_LastHeartBeat conn > TolerateHeartbeatMisses * HeartbeatInterval"
    using that by (intro CheckDataplanes_late [OF free]) (auto simp: late_def)
qed

theorem monitors_deadlock_witness:
  "deadlocks (CheckWorkerNodes (demo_world (Random_Place id))) demo_full \<and> deadlocks (CheckDataplanes (demo_world (Random_Place id))) demo_full"
proof -
  have "Structure_Get (NIStorage demo_full) ''n1'' = Some (ConnectToWorker True (demo_node ''n1'' True))"
    "Structure_Get (DataPlaneConnections demo_full) ''10.0.0.9'' = Some \<lparr>dc_Iface = True, dc_IP = ''10.0.0.9'',
        dc_APIPort = ''8081'', dc_ProxyPort = ''8080'', dc_LastHeartBeat = 0\<rparr>"
    by (simp_all add: demo_full_def demo_cp_def Structure_Get_def)
  with monitors_deadlock [OF demo_full_ok(1,2), of "''n1''" "ConnectToWorker True (demo_node ''n1'' True)" "demo_world (Random_Place id)"
      "''10.0.0.9''" "\<lparr>dc_Iface = True, dc_IP = ''10.0.0.9'', dc_APIPort = ''8081'', dc_ProxyPort = ''8080'', dc_LastHeartBeat = 0\<rparr>"]
  show ?thesis by (simp add: demo_full_ok(3) demo_world_def demo_node_def WorkerNode_defs
      TolerateHeartbeatMisses_def HeartbeatInterval_def)
qed

end
