(* ===== verification/Net_Helpers.thy ===== *)
theory Net_Helpers
  imports Configuration Proto_Types
begin

text \<open>
  \<^verbatim>\<open>pkg/grpc_helpers\<close>: taking addresses apart and connecting to a peer, with what it uses of the Go
  library (\<^verbatim>\<open>strconv.Atoi\<close>, \<^verbatim>\<open>net.SplitHostPort\<close>, \<^verbatim>\<open>net.JoinHostPort\<close>). Dialling is an argument: whether
  the attempt with a number succeeds. The lemmas show that formatting and splitting an address are
  inverse to each other.
\<close>

section \<open>Numbers and addresses\<close>

abbreviation is_digit :: "char \<Rightarrow> bool" where
  "is_digit c \<equiv> 48 \<le> (of_char c :: nat) \<and> (of_char c :: nat) \<le> 57"

fun splitSign :: "string \<Rightarrow> bool \<times> string" where
  "splitSign [] = (False, [])"
| "splitSign (c # cs) = (if c = CHR ''-'' then (True, cs) else if c = CHR ''+'' then (False, cs) else (False, c # cs))"

definition Atoi :: "string \<Rightarrow> int \<times> string option" where
  \<comment> \<open>\<^verbatim>\<open>strconv.Atoi\<close> for 64 bits: 0 on a syntax error, the nearest number on a range error\<close>
  "Atoi s = (let (neg, ds) = splitSign s; v = (if neg then - int (dec_val 0 ds) else int (dec_val 0 ds))
     in if ds = [] \<or> \<not> list_all is_digit ds then (0, Some ''invalid syntax'')
        else if v > 2 ^ 63 - 1 then (2 ^ 63 - 1, Some ''value out of range'')
        else if v < - (2 ^ 63) then (- (2 ^ 63), Some ''value out of range'')
        else (v, None))"

definition to_int32 :: "int \<Rightarrow> int" where
  "to_int32 i = sint (word_of_int i :: int32)"

definition SplitHostPort :: "string \<Rightarrow> (string \<times> string) option" where
  \<comment> \<open>\<^verbatim>\<open>net.SplitHostPort\<close>; the last colon separates the port, a host in brackets may contain colons\<close>
  "SplitHostPort hostport =
     (if CHR '':'' \<notin> set hostport then None
      else let port = rev (takeWhile (\<lambda>c. c \<noteq> CHR '':'') (rev hostport));
               before = take (length hostport - length port - 1) hostport
        in if hd hostport = CHR ''['' then
             (let inside = takeWhile (\<lambda>c. c \<noteq> CHR '']'') (tl hostport)
              in if CHR '']'' \<notin> set hostport \<or> length inside + 2 \<noteq> length before then None
                 else if CHR ''['' \<in> set (tl hostport) \<or> CHR '']'' \<in> set (drop (length inside + 2) hostport) then None
                 else Some (inside, port))
           else if CHR '':'' \<in> set before \<or> CHR ''['' \<in> set hostport \<or> CHR '']'' \<in> set hostport then None
           else Some (before, port))"

definition JoinHostPort :: "string \<Rightarrow> string \<Rightarrow> string" where
  "JoinHostPort host port = (if CHR '':'' \<in> set host then ''['' @ host @ '']:'' @ port else host @ '':'' @ port)"

definition SplitAddress :: "string \<Rightarrow> ('s, string \<times> int) go" where
  "SplitAddress address = (case SplitHostPort address of
       None \<Rightarrow> gpanic ''Invalid argument to SplitHostPort''
     | Some (hostString, portString) \<Rightarrow>
         (case Atoi portString of (port, err) \<Rightarrow>
            if err \<noteq> None then gpanic ''Port represented as string cannot be converted to integer'' else gret (hostString, port)))"

fun replicaPorts :: "string list \<Rightarrow> int list \<Rightarrow> ('s, int list) go" where
  "replicaPorts [] result = gret result"
| "replicaPorts (r # rs) result = gbind (SplitAddress r) (\<lambda>(_, port). replicaPorts rs (result @ [port]))"

definition ParseReplicaPorts :: "ControlPlaneConfig \<Rightarrow> ('s, int list) go" where
  "ParseReplicaPorts cfg = replicaPorts (cpc_Replicas cfg) []"

section \<open>Connections\<close>

text \<open>
  The attempts of \<^verbatim>\<open>EstablishGRPCConnectionPoll\<close> are numbered; attempt \<open>i\<close> draws an address with the
  random number \<open>rnd i\<close>, and \<open>dial i addr\<close> says whether a connection came about. An error ends the poll,
  and the loop draws an address again.
\<close>

partial_function (option) pollLoop :: "(nat \<Rightarrow> string \<Rightarrow> bool) \<Rightarrow> (nat \<Rightarrow> nat) \<Rightarrow> string list \<Rightarrow> nat \<Rightarrow> string option" where
  "pollLoop dial rnd addresses i =
     (let addr = addresses ! (rnd i mod length addresses)
      in if dial i addr then Some addr else pollLoop dial rnd addresses (i + 1))"

definition EstablishGRPCConnectionPoll :: "(nat \<Rightarrow> string \<Rightarrow> bool) \<Rightarrow> (nat \<Rightarrow> nat) \<Rightarrow> string list \<Rightarrow> ('s, string) go" where
  "EstablishGRPCConnectionPoll dial rnd addresses s =
     (if addresses = [] then Panic ''invalid argument to Intn'' s
      else case pollLoop dial rnd addresses 0 of None \<Rightarrow> Blocked ''poll'' s | Some addr \<Rightarrow> Ret addr s)"

definition NewControlPlaneConnection :: "(nat \<Rightarrow> string \<Rightarrow> bool) \<Rightarrow> (nat \<Rightarrow> nat) \<Rightarrow> string list \<Rightarrow> ('s, string) go" where
  "NewControlPlaneConnection dial rnd addresses = EstablishGRPCConnectionPoll dial rnd addresses"

definition grpc_InitializeWorkerNodeConnection :: "(nat \<Rightarrow> string \<Rightarrow> bool) \<Rightarrow> (nat \<Rightarrow> nat) \<Rightarrow> string \<Rightarrow> string \<Rightarrow> ('s, string) go" where
  "grpc_InitializeWorkerNodeConnection dial rnd host port = EstablishGRPCConnectionPoll dial rnd [JoinHostPort host port]"

definition grpc_InitializeDataPlaneConnection :: "(nat \<Rightarrow> string \<Rightarrow> bool) \<Rightarrow> (nat \<Rightarrow> nat) \<Rightarrow> string \<Rightarrow> string \<Rightarrow> ('s, string) go" where
  "grpc_InitializeDataPlaneConnection dial rnd host port = EstablishGRPCConnectionPoll dial rnd [JoinHostPort host port]"

fun connectLoop :: "(nat \<Rightarrow> string \<Rightarrow> bool) \<Rightarrow> (nat \<Rightarrow> nat) \<Rightarrow> string list \<Rightarrow> string option \<Rightarrow> ('s, string option) go" where
  "connectLoop dial rnd [] cpApi = gret cpApi"
| "connectLoop dial rnd (rawAddr # rest) cpApi = gbind (SplitAddress rawAddr) (\<lambda>(host, port).
     gbind (EstablishGRPCConnectionPoll dial rnd [JoinHostPort host (itoa port)]) (\<lambda>conn. connectLoop dial rnd rest (Some conn)))"

definition DeregisterControlPlaneConnection ::
  "(nat \<Rightarrow> string \<Rightarrow> bool) \<Rightarrow> (nat \<Rightarrow> nat) \<Rightarrow> (string \<Rightarrow> DataplaneInfo \<Rightarrow> bool option) \<Rightarrow> DataPlaneConfig \<Rightarrow> ('s, string option) go" where
  \<comment> \<open>\<open>call\<close> is the remote \<^verbatim>\<open>DeregisterDataplane\<close>: \<^term>\<open>None\<close> for an error, otherwise the status\<close>
  "DeregisterControlPlaneConnection dial rnd call cfg =
     (let grpcPort = fst (Atoi (dpc_PortGRPC cfg)); proxyPort = fst (Atoi (dpc_PortProxy cfg))
      in gbind (connectLoop dial rnd (dpc_ControlPlaneAddress cfg) None) (\<lambda>cpApi. case cpApi of
          None \<Rightarrow> gret (Some ''error deregistering control plane'')
        | Some addr \<Rightarrow> (case call addr \<lparr>dpi_IP = dpc_DataPlaneIp cfg, dpi_APIPort = to_int32 grpcPort, dpi_ProxyPort = to_int32 proxyPort\<rparr> of
            Some True \<Rightarrow> gret None
          | _ \<Rightarrow> gpanic ''Failed to register data plane with the control plane'')))"

section \<open>Splitting and joining\<close>

definition plain_host :: "string \<Rightarrow> bool" where
  \<comment> \<open>a name or an IPv4 address\<close>
  "plain_host h \<longleftrightarrow> CHR '':'' \<notin> set h \<and> CHR ''['' \<notin> set h \<and> CHR '']'' \<notin> set h"

definition port_ok :: "int \<Rightarrow> bool" where
  "port_ok p \<longleftrightarrow> - (2 ^ 63) \<le> p \<and> p < 2 ^ 63"

definition address_ok :: "string \<Rightarrow> bool" where
  \<comment> \<open>an address in the form in which addresses are printed\<close>
  "address_ok a \<longleftrightarrow> (\<exists>h p. plain_host h \<and> port_ok p \<and> a = h @ '':'' @ itoa p)"

lemma digits_dec: "list_all is_digit (dec n)"
  using dec_chars [of _ n] by (auto simp: list_all_iff)

lemma splitSign_dec: "splitSign (dec n) = (False, dec n)"
proof (cases "dec n")
  case (Cons c cs)
  then have "c \<in> set (dec n)" by simp
  from dec_chars [OF this] Cons show ?thesis by auto
qed simp

lemma Atoi_itoa [simp]: "port_ok p \<Longrightarrow> Atoi (itoa p) = (p, None)"
  by (auto simp: Atoi_def itoa_def splitSign_dec digits_dec port_ok_def Let_def)

lemma SplitHostPort_plain:
  assumes "plain_host h" and "CHR '':'' \<notin> set p" and "CHR ''['' \<notin> set p" and "CHR '']'' \<notin> set p"
  shows "SplitHostPort (h @ '':'' @ p) = Some (h, p)"
proof -
  have "takeWhile (\<lambda>c. c \<noteq> CHR '':'') (rev p @ CHR '':'' # rev h) = rev p" using assms(2)
    by (subst takeWhile_append2) auto
  then have *: "rev (takeWhile (\<lambda>c. c \<noteq> CHR '':'') (rev (h @ CHR '':'' # p))) = p" by simp
  have "hd (h @ CHR '':'' # p) \<noteq> CHR ''[''" using assms(1) by (cases h) (auto simp: plain_host_def)
  with * assms show ?thesis by (auto simp: SplitHostPort_def plain_host_def Let_def)
qed

lemma brackets_itoa [simp]: "CHR ''['' \<notin> set (itoa i)" "CHR '']'' \<notin> set (itoa i)"
  by (auto simp: itoa_def dest!: dec_chars)

lemma SplitAddress_format [simp]:
  assumes "plain_host h" and "port_ok p"
  shows "SplitAddress (h @ CHR '':'' # itoa p) = gret (h, p)"
  using SplitHostPort_plain [OF assms(1), of "itoa p"] assms(2) by (simp add: SplitAddress_def)

lemma address_okE:
  assumes "address_ok a"
  obtains h p where "plain_host h" and "port_ok p" and "a = h @ CHR '':'' # itoa p"
    and "\<And>(s :: 's). SplitAddress a s = Ret (h, p) s"
  using assms by (auto simp: address_ok_def gret_def)

lemma pollLoop_first:
  assumes "dial n (addresses ! (rnd n mod length addresses))"
  shows "\<exists>i \<le> n. pollLoop dial rnd addresses 0 = Some (addresses ! (rnd i mod length addresses)) \<and> dial i (addresses ! (rnd i mod length addresses))"
proof -
  have "\<exists>i. k \<le> i \<and> i \<le> n \<and> pollLoop dial rnd addresses k = Some (addresses ! (rnd i mod length addresses)) \<and> dial i (addresses ! (rnd i mod length addresses))"
    if "k \<le> n" for k
    using that
  proof (induction k rule: inc_induct)
    case base
    show ?case using assms by (intro exI [of _ n]) (simp add: pollLoop.simps)
  next
    case (step k)
    show ?case
    proof (cases "dial k (addresses ! (rnd k mod length addresses))")
      case True
      with step.hyps show ?thesis by (intro exI [of _ k]) (simp add: pollLoop.simps)
    next
      case False
      then have "pollLoop dial rnd addresses k = pollLoop dial rnd addresses (Suc k)" by (subst pollLoop.simps) simp
      with step.IH show ?thesis by (metis Suc_leD)
    qed
  qed
  from this [of 0] show ?thesis by blast
qed

end
