(* ===== verification/HAProxy.thy ===== *)
theory HAProxy
  imports Sync_Maps Net_Helpers
begin

text \<open>
  \<^verbatim>\<open>internal/data_plane/haproxy\<close>: the servers of the load balancer in front of the data planes and the
  registration servers. The client library of HAProxy is an argument, the record \<open>haproxy\<close>; its documented
  behaviour is \<open>haproxy_laws\<close>: transactions work on a copy of the configuration that a commit puts in
  place. The lemmas show that a revision brings the configuration to what the control plane asks for, and
  what happens when a commit fails.
\<close>

type_synonym error = string

section \<open>The client library\<close>

record server =
  srv_Name :: string
  srv_Address :: string
  srv_Port :: int
  srv_Check :: bool
  srv_Inter :: int

record 'h haproxy =
  hp_GetVersion :: "string \<Rightarrow> 'h \<Rightarrow> error + int"
  hp_StartTransaction :: "int \<Rightarrow> 'h \<Rightarrow> (error + string) \<times> 'h"
  hp_GetServers :: "string \<Rightarrow> string \<Rightarrow> 'h \<Rightarrow> error + (int \<times> server list)"
  hp_CreateServer :: "string \<Rightarrow> server \<Rightarrow> string \<Rightarrow> int \<Rightarrow> 'h \<Rightarrow> error option \<times> 'h"
  hp_DeleteServer :: "string \<Rightarrow> string \<Rightarrow> string \<Rightarrow> int \<Rightarrow> 'h \<Rightarrow> error option \<times> 'h"
  hp_CommitTransaction :: "string \<Rightarrow> 'h \<Rightarrow> error option \<times> 'h"
  hp_InitCustom :: "'h \<Rightarrow> 'h option"
    \<comment> \<open>a configuration client for the files the program names\<close>
  hp_InitDefault :: "'h \<Rightarrow> 'h option"
  hp_RuntimeApis :: "'h \<Rightarrow> string list option"
    \<comment> \<open>the sockets of the global configuration, if it can be read\<close>
  hp_InitRuntime :: "string list \<Rightarrow> 'h \<Rightarrow> bool"
  hp_Init :: "bool \<Rightarrow> 'h \<Rightarrow> 'h option"
    \<comment> \<open>the client from both clients, without or with a runtime client\<close>
  hp_systemctl :: "string \<Rightarrow> 'h \<Rightarrow> bool"

section \<open>Connection\<close>

definition getConfigClient :: "'h haproxy \<Rightarrow> ('h, unit) go" where
  "getConfigClient lib h = (case hp_InitCustom lib h of
       Some h' \<Rightarrow> Ret () h'
     | None \<Rightarrow> (case hp_InitDefault lib h of
         Some h' \<Rightarrow> Ret () h'
       | None \<Rightarrow> Panic ''Error setting up default HAProxy configuration client'' h))"

definition getRuntimeClient :: "'h haproxy \<Rightarrow> ('h, bool) go" where
  \<comment> \<open>whether there is a runtime client\<close>
  "getRuntimeClient lib h = (case hp_RuntimeApis lib h of
       None \<Rightarrow> Ret False h
     | Some socketList \<Rightarrow> Ret (socketList \<noteq> [] \<and> hp_InitRuntime lib socketList h) h)"

definition getHAProxyClient :: "'h haproxy \<Rightarrow> ('h, unit) go" where
  "getHAProxyClient lib = gthen (getConfigClient lib) (gbind (getRuntimeClient lib) (\<lambda>runtimeClient h.
     case hp_Init lib runtimeClient h of
       None \<Rightarrow> Panic ''Failed to create HAProxy client.'' h
     | Some h' \<Rightarrow> Ret () h'))"

section \<open>The manager\<close>

definition DataplaneBackend :: string where "DataplaneBackend = ''dirigent_data_planes''"
definition DataplanePrefix :: string where "DataplanePrefix = ''dp_''"
definition RegistrationServerBackend :: string where "RegistrationServerBackend = ''dirigent_registration_server''"
definition RegistrationServerPrefix :: string where "RegistrationServerPrefix = ''rs_''"
definition ServerHealthCheckInterval :: int where "ServerHealthCheckInterval = 2500"

record 'h API =
  api_client :: 'h
  api_lbAddress :: string
  api_addressToName :: "(string, string) gomap"
  api_mutex :: bool
  \<comment> \<open>how many random numbers have been drawn, and the commands to systemctl\<close>
  api_drawn :: nat
  api_commands :: "string list"

abbreviation on_client :: "('h, 'a) go \<Rightarrow> ('h API, 'a) go" where
  "on_client m \<equiv> gzoom api_client (\<lambda>h s. s\<lparr>api_client := h\<rparr>) m"

definition call_client :: "('h \<Rightarrow> 'a \<times> 'h) \<Rightarrow> ('h API, 'a) go" where
  "call_client f = on_client (\<lambda>h. case f h of (x, h') \<Rightarrow> Ret x h')"

definition with_mutex :: "('h API, 'a) go \<Rightarrow> ('h API, 'a) go" where
  "with_mutex m = gbind (gget api_mutex) (\<lambda>locked. if locked then gblock ''Lock''
     else gthen (gmodify (\<lambda>s. s\<lparr>api_mutex := True\<rparr>)) (gdefer (gmodify (\<lambda>s. s\<lparr>api_mutex := False\<rparr>)) m))"

definition urlFor :: "string \<Rightarrow> int \<Rightarrow> string" where
  \<comment> \<open>\<^verbatim>\<open>fmt.Sprintf("%s:%d", address, port)\<close>\<close>
  "urlFor address port = address @ '':'' @ itoa port"

definition srv_url :: "server \<Rightarrow> string" where
  "srv_url s = urlFor (srv_Address s) (srv_Port s)"

definition systemctl :: "'h haproxy \<Rightarrow> string \<Rightarrow> ('h API, bool) go" where
  "systemctl lib cmd = gthen (gmodify (\<lambda>s. s\<lparr>api_commands := api_commands s @ [cmd]\<rparr>)) (gget (\<lambda>s. hp_systemctl lib cmd (api_client s)))"

definition StartHAProxy :: "'h haproxy \<Rightarrow> ('h API, unit) go" where
  "StartHAProxy lib = gthen (systemctl lib ''start'') (gret ())"

definition StopHAProxy :: "'h haproxy \<Rightarrow> ('h API, unit) go" where
  "StopHAProxy lib = gthen (systemctl lib ''stop'') (gret ())"

definition forceResetHAProxy :: "'h haproxy \<Rightarrow> ('h API, unit) go" where
  "forceResetHAProxy lib = gthen (systemctl lib ''reset-failed'') (gret ())"

definition RestartHAProxy :: "'h haproxy \<Rightarrow> ('h API, unit) go" where
  "RestartHAProxy lib = gbind (systemctl lib ''restart'') (\<lambda>ok. gwhen (\<not> ok) (forceResetHAProxy lib))"

definition listServers :: "'h haproxy \<Rightarrow> string \<Rightarrow> ('h API, string list \<times> string list) go" where
  "listServers lib backend = gbind (gget (\<lambda>s. hp_GetServers lib backend [] (api_client s))) (\<lambda>r.
     gret (case r of Inl _ \<Rightarrow> ([], []) | Inr (_, servers) \<Rightarrow> (map srv_Name servers, map srv_url servers)))"

definition ListDataplanes :: "'h haproxy \<Rightarrow> ('h API, string list \<times> string list) go" where
  "ListDataplanes lib = listServers lib DataplaneBackend"

definition ListRegistrationServers :: "'h haproxy \<Rightarrow> ('h API, string list \<times> string list) go" where
  "ListRegistrationServers lib = listServers lib RegistrationServerBackend"

definition NewHAProxyAPI :: "'h haproxy \<Rightarrow> string \<Rightarrow> 'h \<Rightarrow> ('h API, unit) outcome" where
  "NewHAProxyAPI lib loadBalancerAddress h =
     gthen (on_client (getHAProxyClient lib))
       (gbind (ListDataplanes lib) (\<lambda>(names, addresses).
          gmodify (\<lambda>s. s\<lparr>api_addressToName := foldl (\<lambda>m (a, n). gm_set a n m) (api_addressToName s) (zip addresses names)\<rparr>)))
       \<lparr>api_client = h, api_lbAddress = loadBalancerAddress, api_addressToName = [], api_mutex = False,
        api_drawn = 0, api_commands = []\<rparr>"

definition randInt :: "(nat \<Rightarrow> nat) \<Rightarrow> ('h API, nat) go" where
  "randInt rnd = gbind (gget api_drawn) (\<lambda>n. gthen (gmodify (\<lambda>s. s\<lparr>api_drawn := n + 1\<rparr>)) (gret (rnd n)))"

definition newServer :: "string \<Rightarrow> string \<Rightarrow> int \<Rightarrow> server" where
  "newServer name ipAddress port = \<lparr>srv_Name = name, srv_Address = ipAddress, srv_Port = port, srv_Check = True,
     srv_Inter = ServerHealthCheckInterval\<rparr>"

definition persistServerMetadata :: "'h haproxy \<Rightarrow> string \<Rightarrow> string \<Rightarrow> int \<Rightarrow> string \<Rightarrow> int \<Rightarrow> ('h API, unit) go" where
  "persistServerMetadata lib name ipAddress port transaction version =
     gthen (call_client (hp_CreateServer lib DataplaneBackend (newServer name ipAddress port) transaction version)) (gret ())"

definition addServer :: "'h haproxy \<Rightarrow> (nat \<Rightarrow> nat) \<Rightarrow> string \<Rightarrow> int \<Rightarrow> string \<Rightarrow> int \<Rightarrow> ('h API, unit) go" where
  "addServer lib rnd ipAddress port transaction version = gbind (randInt rnd) (\<lambda>n.
     let name = DataplanePrefix @ dec n; url = urlFor ipAddress port
     in with_mutex (gbind (gget (\<lambda>s. map_of (api_addressToName s) url)) (\<lambda>known.
          if known \<noteq> None then gret ()
          else gthen (persistServerMetadata lib name ipAddress port transaction version)
                 (gmodify (\<lambda>s. s\<lparr>api_addressToName := gm_set url name (api_addressToName s)\<rparr>)))))"

definition addRegistrationServer :: "'h haproxy \<Rightarrow> (nat \<Rightarrow> nat) \<Rightarrow> string \<Rightarrow> int \<Rightarrow> string \<Rightarrow> int \<Rightarrow> ('h API, unit) go" where
  "addRegistrationServer lib rnd ipAddress port transaction version = gbind (randInt rnd) (\<lambda>n.
     gthen (call_client (hp_CreateServer lib RegistrationServerBackend
        (newServer (RegistrationServerPrefix @ dec n) ipAddress port) transaction version)) (gret ()))"

definition removeServerByName :: "'h haproxy \<Rightarrow> string \<Rightarrow> int \<Rightarrow> string \<Rightarrow> int \<Rightarrow> ('h API, unit) go" where
  "removeServerByName lib ipAddress port transaction version =
     (let url = urlFor ipAddress port
      in with_mutex (gbind (gget (\<lambda>s. map_of (api_addressToName s) url)) (\<lambda>known. case known of
          None \<Rightarrow> gret ()
        | Some dataplaneName \<Rightarrow>
            gthen (call_client (hp_DeleteServer lib dataplaneName DataplaneBackend transaction version))
              (gmodify (\<lambda>s. s\<lparr>api_addressToName := gm_del url (api_addressToName s)\<rparr>)))))"

definition AddDataplane :: "'h haproxy \<Rightarrow> (nat \<Rightarrow> nat) \<Rightarrow> string \<Rightarrow> int \<Rightarrow> bool \<Rightarrow> ('h API, unit) go" where
  "AddDataplane lib rnd ipAddress port restart = gbind (gget (\<lambda>s. hp_GetVersion lib [] (api_client s))) (\<lambda>v. case v of
       Inl _ \<Rightarrow> gret ()
     | Inr version \<Rightarrow> gthen (addServer lib rnd ipAddress port [] version) (gwhen restart (RestartHAProxy lib)))"

definition RemoveDataplaneServer :: "'h haproxy \<Rightarrow> string \<Rightarrow> int \<Rightarrow> bool \<Rightarrow> ('h API, unit) go" where
  "RemoveDataplaneServer lib ipAddress port restart = gbind (gget (\<lambda>s. hp_GetVersion lib [] (api_client s))) (\<lambda>v. case v of
       Inl _ \<Rightarrow> gret ()
     | Inr version \<Rightarrow> gthen (removeServerByName lib ipAddress port [] version) (gwhen restart (RestartHAProxy lib)))"

definition removeRegistrationServers :: "'h haproxy \<Rightarrow> string \<Rightarrow> ('h API, unit) go" where
  "removeRegistrationServers lib transaction =
     gbind (gget (\<lambda>s. hp_GetServers lib RegistrationServerBackend transaction (api_client s))) (\<lambda>r. case r of
       Inl _ \<Rightarrow> gret ()
     | Inr (_, servers) \<Rightarrow> gthen (grange servers (\<lambda>s.
           gthen (call_client (hp_DeleteServer lib (srv_Name s) RegistrationServerBackend transaction 0)) (gret (None :: unit option)))) (gret ()))"


section \<open>Revisions\<close>

definition removeServers :: "'h haproxy \<Rightarrow> string list \<Rightarrow> string \<Rightarrow> ('h API, unit) go" where
  "removeServers lib toRemove transaction = gthen (grange toRemove (\<lambda>server. gbind (SplitAddress server) (\<lambda>(ipAddress, port).
     gthen (removeServerByName lib ipAddress port transaction 0) (gret (None :: unit option))))) (gret ())"

definition addServers :: "'h haproxy \<Rightarrow> (nat \<Rightarrow> nat) \<Rightarrow> string list \<Rightarrow> string \<Rightarrow> ('h API, unit) go" where
  "addServers lib rnd toAdd transaction = gthen (grange toAdd (\<lambda>address. gbind (SplitAddress address) (\<lambda>(ipAddress, port).
     gthen (addServer lib rnd ipAddress port transaction 0) (gret (None :: unit option))))) (gret ())"

definition addAllRegistration :: "'h haproxy \<Rightarrow> (nat \<Rightarrow> nat) \<Rightarrow> string list \<Rightarrow> string \<Rightarrow> ('h API, unit) go" where
  "addAllRegistration lib rnd addressesToKeep transaction =
     gthen (grange addressesToKeep (\<lambda>address. gbind (SplitAddress address) (\<lambda>(ipAddress, port).
       gthen (addRegistrationServer lib rnd ipAddress port transaction 0) (gret (None :: unit option))))) (gret ())"

definition reviseServers :: "'h haproxy \<Rightarrow> (nat \<Rightarrow> nat) \<Rightarrow> string \<Rightarrow> string list \<Rightarrow> string list \<Rightarrow> string \<Rightarrow> ('h API, bool) go" where
  \<comment> \<open>from the comparison of the addresses to the end of the additions: whether there are changes\<close>
  "reviseServers lib rnd backend addressesToKeep existingURLs transaction =
     (let toAdd = Difference addressesToKeep existingURLs; toRemove = Difference existingURLs addressesToKeep
      in gthen (if backend = DataplaneBackend then removeServers lib toRemove transaction else removeRegistrationServers lib transaction)
        (gthen (if backend = DataplaneBackend then addServers lib rnd toAdd transaction
                else addAllRegistration lib rnd addressesToKeep transaction)
          (gret (length toAdd \<noteq> 0 \<or> length toRemove \<noteq> 0))))"

definition genericRevise :: "'h haproxy \<Rightarrow> (nat \<Rightarrow> nat) \<Rightarrow> string \<Rightarrow> string list \<Rightarrow> ('h API, bool \<times> bool) go" where
  "genericRevise lib rnd backend addressesToKeep =
     (if backend \<noteq> DataplaneBackend \<and> backend \<noteq> RegistrationServerBackend
      then gpanic ''Invalid backend name for HAProxy backend revision function.''
      else gbind (gget (\<lambda>s. hp_GetVersion lib [] (api_client s))) (\<lambda>v. case v of
        Inl _ \<Rightarrow> gret (False, False)
      | Inr version \<Rightarrow> gbind (call_client (hp_StartTransaction lib version)) (\<lambda>t. case t of
        Inl _ \<Rightarrow> gret (False, False)
      | Inr transaction \<Rightarrow> gbind (gget (\<lambda>s. hp_GetServers lib backend transaction (api_client s))) (\<lambda>r. case r of
        Inl _ \<Rightarrow> gret (False, False)
      | Inr (_, servers) \<Rightarrow>
          gbind (reviseServers lib rnd backend addressesToKeep (map srv_url servers) transaction) (\<lambda>anyChanges.
          gbind (call_client (hp_CommitTransaction lib transaction)) (\<lambda>err.
            gret (if err \<noteq> None then (False, False) else (True, anyChanges))))))))"

partial_function (option) reviseLoop ::
  "'h haproxy \<Rightarrow> (nat \<Rightarrow> nat) \<Rightarrow> string \<Rightarrow> string list \<Rightarrow> 'h API \<Rightarrow> ('h API, bool) outcome option" where
  "reviseLoop lib rnd backend addressesToKeep s =
     (case gthen (on_client (getHAProxyClient lib)) (genericRevise lib rnd backend addressesToKeep) s of
        Ret (success, changes) s' \<Rightarrow> if success then Some (Ret changes s') else reviseLoop lib rnd backend addressesToKeep s'
      | Panic e s' \<Rightarrow> Some (Panic e s')
      | Blocked e s' \<Rightarrow> Some (Blocked e s'))"

definition revise :: "'h haproxy \<Rightarrow> (nat \<Rightarrow> nat) \<Rightarrow> string \<Rightarrow> string list \<Rightarrow> ('h API, bool) go" where
  \<comment> \<open>the loop that the two revisions share; it may never end\<close>
  "revise lib rnd backend addressesToKeep s =
     (case reviseLoop lib rnd backend addressesToKeep s of None \<Rightarrow> Blocked ''revise'' s | Some out \<Rightarrow> out)"

definition ReviseDataplanes :: "'h haproxy \<Rightarrow> (nat \<Rightarrow> nat) \<Rightarrow> string list \<Rightarrow> ('h API, bool) go" where
  "ReviseDataplanes lib rnd addressesToKeep = revise lib rnd DataplaneBackend addressesToKeep"

definition ReviseRegistrationServers :: "'h haproxy \<Rightarrow> (nat \<Rightarrow> nat) \<Rightarrow> string list \<Rightarrow> ('h API, bool) go" where
  "ReviseRegistrationServers lib rnd addressesToKeep = revise lib rnd RegistrationServerBackend addressesToKeep"

definition DeleteAllDataplanes :: "'h haproxy \<Rightarrow> ('h API, unit) go" where
  "DeleteAllDataplanes lib = gbind (gget (\<lambda>s. hp_GetServers lib DataplaneBackend [] (api_client s))) (\<lambda>r.
     gthen (grange (case r of Inl _ \<Rightarrow> [] | Inr (_, servers) \<Rightarrow> servers) (\<lambda>s.
         gthen (RemoveDataplaneServer lib (srv_Address s) (srv_Port s) False) (gret (None :: unit option))))
       (RestartHAProxy lib))"

definition reviseBoth :: "'h haproxy \<Rightarrow> (nat \<Rightarrow> nat) \<Rightarrow> string list \<Rightarrow> string list \<Rightarrow> ('h API, unit) go" where
  "reviseBoth lib rnd dataplanes registrationServers =
     gbind (ReviseDataplanes lib rnd dataplanes) (\<lambda>dpChanges.
     gbind (ReviseRegistrationServers lib rnd registrationServers) (\<lambda>rsChanges.
       gwhen (dpChanges \<or> rsChanges) (RestartHAProxy lib)))"

definition ReviseHAProxyConfiguration :: "'h haproxy \<Rightarrow> (nat \<Rightarrow> nat) \<Rightarrow> HAProxyConfig \<Rightarrow> ('h API, ActionStatus) go" where
  "ReviseHAProxyConfiguration lib rnd args =
     gthen (reviseBoth lib rnd (hc_Dataplanes args) (hc_RegistrationServers args))
       (gret \<lparr>as_Success = True, as_Message = []\<rparr>)"

definition HAProxyReconstructionCallback :: "'h haproxy \<Rightarrow> (nat \<Rightarrow> nat) \<Rightarrow> ControlPlaneConfig \<Rightarrow> string list \<Rightarrow> ('h API, unit) go" where
  \<comment> \<open>\<open>dataplanes\<close>: the addresses that \<^verbatim>\<open>ReviseDataplanesInLB\<close> of the control plane hands to its argument\<close>
  "HAProxyReconstructionCallback lib rnd cfg dataplanes =
     reviseBoth lib rnd dataplanes (cpc_RegistrationServer cfg # cpc_RegistrationServerReplicas cfg)"

definition DisseminateHAProxyConfig :: "(int \<Rightarrow> HAProxyConfig \<Rightarrow> 's \<Rightarrow> 's) \<Rightarrow> HAProxyConfig \<Rightarrow> (int, int) gomap \<Rightarrow> ('s, unit) go" where
  \<comment> \<open>\<open>call\<close>: what the remote call does to the state of the peers; an error is only logged\<close>
  "DisseminateHAProxyConfig call cfg peers = gthen (grange peers (\<lambda>(peer, conn).
     gthen (gmodify (call conn cfg)) (gret (None :: unit option)))) (gret ())"


section \<open>The library as documented\<close>

text \<open>\<open>view h t b\<close> is the list of servers of backend \<open>b\<close> as transaction \<open>t\<close> sees it; the empty transaction is the
  configuration in place.\<close>

definition haproxy_laws :: "'h haproxy \<Rightarrow> ('h \<Rightarrow> string \<Rightarrow> string \<Rightarrow> server list) \<Rightarrow> bool" where
  "haproxy_laws lib view \<longleftrightarrow>
     (\<forall>b t h v ss. hp_GetServers lib b t h = Inr (v, ss) \<longrightarrow> ss = view h t b) \<and>
     (\<forall>v h t h'. hp_StartTransaction lib v h = (Inr t, h') \<longrightarrow> t \<noteq> [] \<and> view h' t = view h [] \<and> view h' [] = view h []) \<and>
     (\<forall>b s t v h e h'. hp_CreateServer lib b s t v h = (e, h') \<longrightarrow> (t \<noteq> [] \<longrightarrow> view h' [] = view h []) \<and>
        view h' t = (if e = None then (view h t)(b := view h t b @ [s]) else view h t)) \<and>
     (\<forall>n b t v h e h'. hp_DeleteServer lib n b t v h = (e, h') \<longrightarrow> (t \<noteq> [] \<longrightarrow> view h' [] = view h []) \<and>
        view h' t = (if e = None then (view h t)(b := filter (\<lambda>s. srv_Name s \<noteq> n) (view h t b)) else view h t)) \<and>
     (\<forall>t h e h'. hp_CommitTransaction lib t h = (e, h') \<longrightarrow> view h' [] = (if e = None then view h t else view h [])) \<and>
     (\<forall>h h'. hp_InitCustom lib h = Some h' \<or> hp_InitDefault lib h = Some h' \<or> (\<exists>r. hp_Init lib r h = Some h') \<longrightarrow>
        view h' [] = view h [])"

definition haproxy_up :: "'h haproxy \<Rightarrow> bool" where
  \<comment> \<open>the calls that open and read the configuration succeed\<close>
  "haproxy_up lib \<longleftrightarrow> (\<forall>h. \<exists>v. hp_GetVersion lib [] h = Inr v) \<and> (\<forall>v h. \<exists>t h'. hp_StartTransaction lib v h = (Inr t, h')) \<and>
     (\<forall>b t h. \<exists>v ss. hp_GetServers lib b t h = Inr (v, ss)) \<and>
     (\<forall>h. hp_InitCustom lib h \<noteq> None \<or> hp_InitDefault lib h \<noteq> None) \<and> (\<forall>r h. hp_Init lib r h \<noteq> None)"

definition haproxy_works :: "'h haproxy \<Rightarrow> ('h \<Rightarrow> string \<Rightarrow> string \<Rightarrow> server list) \<Rightarrow> bool" where
  \<comment> \<open>a new name can be added, a name that is there can be deleted, and commits succeed\<close>
  "haproxy_works lib view \<longleftrightarrow>
     (\<forall>b s t v h. srv_Name s \<notin> srv_Name ` set (view h t b) \<longrightarrow> fst (hp_CreateServer lib b s t v h) = None) \<and>
     (\<forall>n b t v h. n \<in> srv_Name ` set (view h t b) \<longrightarrow> fst (hp_DeleteServer lib n b t v h) = None) \<and>
     (\<forall>t h. fst (hp_CommitTransaction lib t h) = None)"

lemmas haproxy_lawD = haproxy_laws_def [THEN iffD1]
lemmas law_get = haproxy_lawD [THEN conjunct1, rule_format]
lemmas law_start = haproxy_lawD [THEN conjunct2, THEN conjunct1, rule_format]
lemmas law_create = haproxy_lawD [THEN conjunct2, THEN conjunct2, THEN conjunct1, rule_format]
lemmas law_delete = haproxy_lawD [THEN conjunct2, THEN conjunct2, THEN conjunct2, THEN conjunct1, rule_format]
lemmas law_commit = haproxy_lawD [THEN conjunct2, THEN conjunct2, THEN conjunct2, THEN conjunct2, THEN conjunct1, rule_format]
lemmas law_init = haproxy_lawD [THEN conjunct2, THEN conjunct2, THEN conjunct2, THEN conjunct2, THEN conjunct2, rule_format]

lemma runs_call_client [wp]: "runs (call_client f) s Q = Q (fst (f (api_client s))) (s\<lparr>api_client := snd (f (api_client s))\<rparr>)"
  by (simp add: call_client_def runs_def gzoom_def split: prod.splits)

lemma runs_with_mutex [wp]:
  "runs (with_mutex m) s Q \<longleftrightarrow> \<not> api_mutex s \<and> runs m (s\<lparr>api_mutex := True\<rparr>) (\<lambda>x s'. Q x (s'\<lparr>api_mutex := False\<rparr>))"
  by (simp add: with_mutex_def wp)

lemma runs_client:
  assumes "haproxy_laws lib view" and "haproxy_up lib"
  shows "runs (on_client (getHAProxyClient lib)) s (\<lambda>_ s'. \<exists>h'. s' = s\<lparr>api_client := h'\<rparr> \<and> view h' [] = view (api_client s) [])"
proof -
  note init = law_init [OF assms(1)]
  have up: "hp_InitCustom lib h \<noteq> None \<or> hp_InitDefault lib h \<noteq> None" "hp_Init lib r h \<noteq> None" for r h
    using assms(2) unfolding haproxy_up_def by blast+
  have cfg: "runs (getConfigClient lib) h (\<lambda>_ h'. view h' [] = view h [])" for h
    using up(1) [of h] init [of h] by (auto simp: runs_def getConfigClient_def split: option.splits)
  have rt: "runs (getRuntimeClient lib) h (\<lambda>r h'. h' = h)" for h
    by (simp add: runs_def getRuntimeClient_def split: option.splits)
  have ini: "runs (\<lambda>h. case hp_Init lib r h of None \<Rightarrow> Panic e h | Some h' \<Rightarrow> Ret () h') h (\<lambda>_ h'. view h' [] = view h [])" for r h e
    using up(2) [of r h] init [of h] by (auto simp: runs_def split: option.splits)
  have "runs (getHAProxyClient lib) (api_client s) (\<lambda>_ h'. view h' [] = view (api_client s) [])"
    unfolding getHAProxyClient_def runs_gthen runs_gbind
    by (rule runs_mono [OF cfg], rule runs_mono [OF rt], rule runs_mono [OF ini]) simp
  then show ?thesis unfolding runs_gzoom by (rule runs_mono) auto
qed

section \<open>The list of names and the configuration\<close>

abbreviation (input) dps :: "('h \<Rightarrow> string \<Rightarrow> string \<Rightarrow> server list) \<Rightarrow> string \<Rightarrow> 'h API \<Rightarrow> server list" where
  "dps view t s \<equiv> view (api_client s) t DataplaneBackend"

abbreviation (input) rss :: "('h \<Rightarrow> string \<Rightarrow> string \<Rightarrow> server list) \<Rightarrow> string \<Rightarrow> 'h API \<Rightarrow> server list" where
  "rss view t s \<equiv> view (api_client s) t RegistrationServerBackend"

lemma backends_differ [simp]: "DataplaneBackend \<noteq> RegistrationServerBackend" "RegistrationServerBackend \<noteq> DataplaneBackend"
  by (simp_all add: DataplaneBackend_def RegistrationServerBackend_def)

definition cached :: "('h \<Rightarrow> string \<Rightarrow> string \<Rightarrow> server list) \<Rightarrow> (nat \<Rightarrow> nat) \<Rightarrow> string \<Rightarrow> 'h API \<Rightarrow> bool" where
  \<comment> \<open>the names of the manager are those of the servers, and new names are free\<close>
  "cached view rnd t s \<longleftrightarrow> \<not> api_mutex s \<and>
     (\<forall>u n. map_of (api_addressToName s) u = Some n \<longleftrightarrow> (\<exists>x \<in> set (dps view t s). srv_url x = u \<and> srv_Name x = n)) \<and>
     distinct (map srv_Name (dps view t s)) \<and> distinct (map srv_url (dps view t s)) \<and>
     (\<forall>x \<in> set (dps view t s). address_ok (srv_url x)) \<and>
     (\<forall>n \<ge> api_drawn s. DataplanePrefix @ dec (rnd n) \<notin> srv_Name ` set (dps view t s)) \<and>
     (\<forall>n \<ge> api_drawn s. RegistrationServerPrefix @ dec (rnd n) \<notin> srv_Name ` set (rss view t s))"

lemma cachedD:
  assumes "cached view rnd t s"
  shows "\<not> api_mutex s" and "distinct (map srv_Name (dps view t s))" and "distinct (map srv_url (dps view t s))"
    and "x \<in> set (dps view t s) \<Longrightarrow> address_ok (srv_url x)"
    and "map_of (api_addressToName s) u = Some n \<longleftrightarrow> (\<exists>x \<in> set (dps view t s). srv_url x = u \<and> srv_Name x = n)"
    and "api_drawn s \<le> k \<Longrightarrow> DataplanePrefix @ dec (rnd k) \<notin> srv_Name ` set (dps view t s)"
    and "api_drawn s \<le> k \<Longrightarrow> RegistrationServerPrefix @ dec (rnd k) \<notin> srv_Name ` set (rss view t s)"
  using assms by (simp_all add: cached_def)

lemma cachedI:
  assumes "\<not> api_mutex s" and "distinct (map srv_Name (dps view t s))" and "distinct (map srv_url (dps view t s))"
    and "\<And>x. x \<in> set (dps view t s) \<Longrightarrow> address_ok (srv_url x)"
    and "\<And>u n. map_of (api_addressToName s) u = Some n \<longleftrightarrow> (\<exists>x \<in> set (dps view t s). srv_url x = u \<and> srv_Name x = n)"
    and "\<And>k. api_drawn s \<le> k \<Longrightarrow> DataplanePrefix @ dec (rnd k) \<notin> srv_Name ` set (dps view t s)"
    and "\<And>k. api_drawn s \<le> k \<Longrightarrow> RegistrationServerPrefix @ dec (rnd k) \<notin> srv_Name ` set (rss view t s)"
  shows "cached view rnd t s"
  using assms by (simp add: cached_def)

lemma cached_None: "cached view rnd t s \<Longrightarrow> map_of (api_addressToName s) u = None \<longleftrightarrow> u \<notin> srv_url ` set (dps view t s)"
  using cachedD(5) [of view rnd t s u] by (cases "map_of (api_addressToName s) u") auto

lemma srv_url_newServer [simp]: "srv_url (newServer n a p) = urlFor a p" "srv_Name (newServer n a p) = n"
  by (simp_all add: srv_url_def newServer_def)

definition same_but :: "('h \<Rightarrow> string \<Rightarrow> string \<Rightarrow> server list) \<Rightarrow> string \<Rightarrow> string \<Rightarrow> 'h API \<Rightarrow> 'h API \<Rightarrow> bool" where
  \<comment> \<open>a step inside a transaction touches at most backend \<open>b\<close> of it\<close>
  "same_but view t b s s' \<longleftrightarrow> view (api_client s') [] = view (api_client s) [] \<and>
     (\<forall>b'. b' \<noteq> b \<longrightarrow> view (api_client s') t b' = view (api_client s) t b') \<and> api_commands s' = api_commands s"

lemma same_but_refl [simp]: "same_but view t b s s"
  by (simp add: same_but_def)

lemma same_but_trans: "same_but view t b s1 s2 \<Longrightarrow> same_but view t b s2 s3 \<Longrightarrow> same_but view t b s1 s3"
  by (simp add: same_but_def)

lemma works_calls:
  assumes "haproxy_works lib view"
  shows "srv_Name x \<notin> srv_Name ` set (view h t b) \<Longrightarrow> fst (hp_CreateServer lib b x t v h) = None"
    and "n \<in> srv_Name ` set (view h t b) \<Longrightarrow> fst (hp_DeleteServer lib n b t v h) = None"
    and "fst (hp_CommitTransaction lib t h) = None"
  using assms by (simp_all add: haproxy_works_def)


lemma commit_view:
  assumes "haproxy_laws lib view" and "haproxy_works lib view"
  shows "fst (hp_CommitTransaction lib t h) = None \<and> view (snd (hp_CommitTransaction lib t h)) [] = view h t"
  using works_calls(3) [OF assms(2), of t h] law_commit [OF assms(1), of t h] by (metis prod.collapse)

lemma filter_name_url:
  assumes "distinct (map srv_Name xs)" and "distinct (map srv_url xs)" and "x \<in> set xs"
  shows "filter (\<lambda>s. srv_Name s \<noteq> srv_Name x) xs = filter (\<lambda>s. srv_url s \<noteq> srv_url x) xs"
  using assms by (intro filter_cong refl) (metis distinct_map inj_on_eq_iff)

lemma removeServerByName_step:
  assumes laws: "haproxy_laws lib view" "haproxy_works lib view" and t: "t \<noteq> []" and c: "cached view rnd t s"
    and u: "urlFor a p \<in> srv_url ` set (dps view t s)"
  shows "runs (removeServerByName lib a p t 0) s (\<lambda>_ s'. cached view rnd t s' \<and> same_but view t DataplaneBackend s s' \<and>
     dps view t s' = filter (\<lambda>x. srv_url x \<noteq> urlFor a p) (dps view t s))"
proof -
  note c' = cachedD [OF c]
  from u obtain x where x: "x \<in> set (dps view t s)" "srv_url x = urlFor a p" by auto
  then have name: "map_of (api_addressToName s) (urlFor a p) = Some (srv_Name x)" using c'(5) by blast
  obtain e h' where d: "hp_DeleteServer lib (srv_Name x) DataplaneBackend t 0 (api_client s) = (e, h')" by fastforce
  have e: "e = None" using works_calls(2) [OF laws(2), of "srv_Name x" "api_client s" t DataplaneBackend 0] x(1) d by auto
  note v = law_delete [OF laws(1) d]
  have f: "filter (\<lambda>s. srv_Name s \<noteq> srv_Name x) (dps view t s) = filter (\<lambda>s. srv_url s \<noteq> urlFor a p) (dps view t s)"
    using filter_name_url [OF c'(2,3) x(1)] x(2) by simp
  let ?s' = "s\<lparr>api_client := h', api_addressToName := gm_del (urlFor a p) (api_addressToName s), api_mutex := False\<rparr>"
  have v': "dps view t ?s' = filter (\<lambda>s. srv_url s \<noteq> urlFor a p) (dps view t s)" "rss view t ?s' = rss view t s"
    using v e f by simp_all
  have "cached view rnd t ?s'"
  proof (rule cachedI)
    show "map_of (api_addressToName ?s') u = Some n \<longleftrightarrow> (\<exists>x \<in> set (dps view t ?s'). srv_url x = u \<and> srv_Name x = n)" for u n
      unfolding v' using c'(5) by auto
    show "DataplanePrefix @ dec (rnd n) \<notin> srv_Name ` set (dps view t ?s')" if "api_drawn ?s' \<le> n" for n
      unfolding v' using c'(6) [of n] that by auto
  qed (use c' v' in \<open>simp_all add: distinct_map_filter\<close>)
  then show ?thesis
    using c'(1) name v e f t by (simp add: removeServerByName_def wp d same_but_def Let_def)
qed

lemma addServer_step:
  assumes laws: "haproxy_laws lib view" "haproxy_works lib view" and t: "t \<noteq> []" and c: "cached view rnd t s"
    and rnd: "inj rnd" and u: "address_ok (urlFor a p)"
  shows "runs (addServer lib rnd a p t 0) s (\<lambda>_ s'. cached view rnd t s' \<and> same_but view t DataplaneBackend s s' \<and>
     srv_url ` set (dps view t s') = insert (urlFor a p) (srv_url ` set (dps view t s)) \<and> set (dps view t s) \<subseteq> set (dps view t s'))"
proof (cases "map_of (api_addressToName s) (urlFor a p)")
  case (Some n)
  then have known: "urlFor a p \<in> srv_url ` set (dps view t s)" using cachedD(5) [OF c] by force
  have "cached view rnd t (s\<lparr>api_drawn := api_drawn s + 1, api_mutex := False\<rparr>)" using c by (simp add: cached_def)
  then show ?thesis
    using Some known cachedD(1) [OF c] by (simp add: addServer_def randInt_def wp same_but_def Let_def insert_absorb)
next
  case None
  note c' = cachedD [OF c]
  have new: "urlFor a p \<notin> srv_url ` set (dps view t s)" using None cached_None [OF c] by blast
  define x where "x = newServer (DataplanePrefix @ dec (rnd (api_drawn s))) a p"
  obtain e h' where d: "hp_CreateServer lib DataplaneBackend x t 0 (api_client s) = (e, h')" by fastforce
  have e: "e = None" using works_calls(1) [OF laws(2), of x "api_client s" t DataplaneBackend 0] c'(6) [of "api_drawn s"] d
    by (simp add: x_def)
  note v = law_create [OF laws(1) d]
  let ?s' = "s\<lparr>api_drawn := api_drawn s + 1, api_client := h', api_addressToName := gm_set (urlFor a p) (srv_Name x) (api_addressToName s), api_mutex := False\<rparr>"
  have v': "dps view t ?s' = dps view t s @ [x]" "rss view t ?s' = rss view t s"
    using v e by simp_all
  have x: "srv_url x = urlFor a p" "srv_Name x = DataplanePrefix @ dec (rnd (api_drawn s))" by (simp_all add: x_def)
  have "cached view rnd t ?s'"
  proof (rule cachedI)
    show "map_of (api_addressToName ?s') u = Some n \<longleftrightarrow> (\<exists>x \<in> set (dps view t ?s'). srv_url x = u \<and> srv_Name x = n)" for u n
      unfolding v' using c'(5) [of u n] new x by (cases "u = urlFor a p") (auto simp: image_iff)
    show "DataplanePrefix @ dec (rnd n) \<notin> srv_Name ` set (dps view t ?s')" if "api_drawn ?s' \<le> n" for n
      unfolding v' using c'(6) [of n] that x rnd by (auto dest: injD)
    show "address_ok (srv_url y)" if "y \<in> set (dps view t ?s')" for y
      using that c'(4) [of y] x u unfolding v' by auto
  qed (use c' v' x new c'(6) [of "api_drawn s"] in simp_all)
  then show ?thesis
    using c'(1) None v e t by (simp add: addServer_def randInt_def persistServerMetadata_def wp d [unfolded x_def] same_but_def Let_def)
      (auto simp: x_def)
qed


lemma removeServers_runs:
  assumes laws: "haproxy_laws lib view" "haproxy_works lib view" and t: "t \<noteq> []" and c: "cached view rnd t s"
    and us: "set us \<subseteq> srv_url ` set (dps view t s)" "distinct us"
  shows "runs (removeServers lib us t) s (\<lambda>_ s'. cached view rnd t s' \<and> same_but view t DataplaneBackend s s' \<and>
     set (dps view t s') = {x \<in> set (dps view t s). srv_url x \<notin> set us})"
proof -
  define I :: "string list \<Rightarrow> 'a API \<Rightarrow> bool" where "I = (\<lambda>us' s'. cached view rnd t s' \<and> same_but view t DataplaneBackend s s' \<and> distinct us' \<and>
     set us' \<subseteq> srv_url ` set (dps view t s') \<and> set us' \<subseteq> set us \<and>
     set (dps view t s') = {x \<in> set (dps view t s). srv_url x \<notin> set us - set us'})"
  have "runs (grange us (\<lambda>server. gbind (SplitAddress server) (\<lambda>(ipAddress, port).
     gthen (removeServerByName lib ipAddress port t 0) (gret (None :: unit option))))) s (\<lambda>r s'. r = None \<and> I [] s')"
  proof (rule runs_grange)
    show "I us s" using c us by (simp add: I_def)
  next
    fix u us' s'
    assume "I (u # us') s'"
    then have I: "cached view rnd t s'" "same_but view t DataplaneBackend s s'" "u \<notin> set us'" "distinct us'"
      "u \<in> srv_url ` set (dps view t s')" "set us' \<subseteq> srv_url ` set (dps view t s')" "u \<in> set us" "set us' \<subseteq> set us"
      "set (dps view t s') = {x \<in> set (dps view t s). srv_url x \<notin> set us - set (u # us')}"
      by (auto simp: I_def)
    then have "address_ok u" using cachedD(4) [OF I(1)] by blast
    then obtain a p where ap: "plain_host a" "port_ok p" "u = a @ CHR '':'' # itoa p" by (rule address_okE)
    then have "urlFor a p = u" by (simp add: urlFor_def)
    with removeServerByName_step [OF laws t I(1), of a p] I(5)
    have "runs (removeServerByName lib a p t 0) s' (\<lambda>_ s''. cached view rnd t s'' \<and> same_but view t DataplaneBackend s' s'' \<and>
        dps view t s'' = filter (\<lambda>x. srv_url x \<noteq> u) (dps view t s'))" by simp
    then have "runs (removeServerByName lib a p t 0) s' (\<lambda>_. I us')"
    proof (rule runs_mono)
      fix x s''
      assume s'': "cached view rnd t s'' \<and> same_but view t DataplaneBackend s' s'' \<and>
        dps view t s'' = filter (\<lambda>x. srv_url x \<noteq> u) (dps view t s')"
      then have "same_but view t DataplaneBackend s s''" using I(2) by (blast intro: same_but_trans)
      with s'' I(3,4,6-9) show "I us' s''" by (auto simp: I_def)
    qed
    then show "runs (gbind (SplitAddress u) (\<lambda>(ipAddress, port).
       gthen (removeServerByName lib ipAddress port t 0) (gret (None :: unit option)))) s' (\<lambda>r s'. r = None \<and> I us' s')"
      unfolding ap(3) SplitAddress_format [OF ap(1,2)] by (simp add: wp)
  qed
  then show ?thesis unfolding removeServers_def runs_gthen runs_gret by (rule runs_mono) (simp add: I_def)
qed

lemma addServers_runs:
  assumes laws: "haproxy_laws lib view" "haproxy_works lib view" and t: "t \<noteq> []" and c: "cached view rnd t s"
    and rnd: "inj rnd" and us: "\<forall>u \<in> set us. address_ok u"
  shows "runs (addServers lib rnd us t) s (\<lambda>_ s'. cached view rnd t s' \<and> same_but view t DataplaneBackend s s' \<and>
     srv_url ` set (dps view t s') = srv_url ` set (dps view t s) \<union> set us \<and> set (dps view t s) \<subseteq> set (dps view t s'))"
proof -
  define I :: "string list \<Rightarrow> 'a API \<Rightarrow> bool" where "I = (\<lambda>us' s'. cached view rnd t s' \<and> same_but view t DataplaneBackend s s' \<and>
     set us' \<subseteq> set us \<and> srv_url ` set (dps view t s') \<union> set us' = srv_url ` set (dps view t s) \<union> set us \<and> set (dps view t s) \<subseteq> set (dps view t s'))"
  have "runs (grange us (\<lambda>address. gbind (SplitAddress address) (\<lambda>(ipAddress, port).
     gthen (addServer lib rnd ipAddress port t 0) (gret (None :: unit option))))) s (\<lambda>r s'. r = None \<and> I [] s')"
  proof (rule runs_grange)
    show "I us s" using c us by (simp add: I_def)
  next
    fix u us' s'
    assume I: "I (u # us') s'"
    then have "address_ok u" using us by (simp add: I_def)
    then obtain a p where ap: "plain_host a" "port_ok p" "u = a @ CHR '':'' # itoa p" by (rule address_okE)
    then have url: "urlFor a p = u" by (simp add: urlFor_def)
    have c': "cached view rnd t s'" using I by (simp add: I_def)
    from addServer_step [OF laws t c' rnd, of a p, unfolded url, OF \<open>address_ok u\<close>]
    have "runs (addServer lib rnd a p t 0) s' (\<lambda>_. I us')"
    proof (rule runs_mono)
      fix x s''
      assume s'': "cached view rnd t s'' \<and> same_but view t DataplaneBackend s' s'' \<and>
        srv_url ` set (dps view t s'') = insert u (srv_url ` set (dps view t s')) \<and> set (dps view t s') \<subseteq> set (dps view t s'')"
      moreover have "same_but view t DataplaneBackend s s''" using s'' I by (auto simp: I_def intro: same_but_trans)
      ultimately show "I us' s''" using I by (auto simp: I_def)
    qed
    then show "runs (gbind (SplitAddress u) (\<lambda>(ipAddress, port).
       gthen (addServer lib rnd ipAddress port t 0) (gret (None :: unit option)))) s' (\<lambda>r s'. r = None \<and> I us' s')"
      unfolding ap(3) SplitAddress_format [OF ap(1,2)] by (simp add: wp)
  qed
  then show ?thesis unfolding addServers_def runs_gthen runs_gret by (rule runs_mono) (simp add: I_def)
qed


lemma deleteRegistration_step:
  assumes laws: "haproxy_laws lib view" "haproxy_works lib view" and t: "t \<noteq> []" and c: "cached view rnd t s"
  shows "runs (call_client (hp_DeleteServer lib n RegistrationServerBackend t 0)) s (\<lambda>_ s'. cached view rnd t s' \<and>
     same_but view t RegistrationServerBackend s s' \<and> srv_Name ` set (rss view t s') \<subseteq> srv_Name ` set (rss view t s) - {n})"
proof -
  obtain e h' where d: "hp_DeleteServer lib n RegistrationServerBackend t 0 (api_client s) = (e, h')" by fastforce
  have e: "e = None \<or> n \<notin> srv_Name ` set (rss view t s)"
    using works_calls(2) [OF laws(2), of n "api_client s" t RegistrationServerBackend 0] d by auto
  note v = law_delete [OF laws(1) d]
  have v': "dps view t (s\<lparr>api_client := h'\<rparr>) = dps view t s"
    "srv_Name ` set (rss view t (s\<lparr>api_client := h'\<rparr>)) \<subseteq> srv_Name ` set (rss view t s) - {n}"
    using v e by (auto split: if_splits)
  have "cached view rnd t (s\<lparr>api_client := h'\<rparr>)"
  proof (rule cachedI)
    show "RegistrationServerPrefix @ dec (rnd k) \<notin> srv_Name ` set (rss view t (s\<lparr>api_client := h'\<rparr>))"
      if "api_drawn (s\<lparr>api_client := h'\<rparr>) \<le> k" for k
      using cachedD(7) [OF c, of k] that v'(2) by auto
  qed (use v' cachedD [OF c] in simp_all)
  with v' v t show ?thesis by (simp add: wp d same_but_def)
qed

lemma removeRegistrationServers_runs:
  assumes laws: "haproxy_laws lib view" "haproxy_works lib view" and up: "haproxy_up lib" and t: "t \<noteq> []" and c: "cached view rnd t s"
  shows "runs (removeRegistrationServers lib t) s (\<lambda>_ s'. cached view rnd t s' \<and>
     same_but view t RegistrationServerBackend s s' \<and> rss view t s' = [])"
proof -
  have "\<exists>v ss. hp_GetServers lib RegistrationServerBackend t (api_client s) = Inr (v, ss)" using up by (simp add: haproxy_up_def)
  then obtain v ss where g: "hp_GetServers lib RegistrationServerBackend t (api_client s) = Inr (v, ss)" by blast
  then have ss: "ss = rss view t s" by (rule law_get [OF laws(1)])
  define I :: "server list \<Rightarrow> 'a API \<Rightarrow> bool" where "I = (\<lambda>xs s'. cached view rnd t s' \<and> same_but view t RegistrationServerBackend s s' \<and>
     srv_Name ` set (rss view t s') \<subseteq> srv_Name ` set xs)"
  have "runs (grange ss (\<lambda>x. gthen (call_client (hp_DeleteServer lib (srv_Name x) RegistrationServerBackend t 0)) (gret (None :: unit option)))) s
     (\<lambda>r s'. r = None \<and> I [] s')"
  proof (rule runs_grange)
    show "I ss s" using c ss by (simp add: I_def)
  next
    fix x xs s'
    assume I: "I (x # xs) s'"
    then have "cached view rnd t s'" by (simp add: I_def)
    from deleteRegistration_step [OF laws t this, of "srv_Name x"]
    have "runs (call_client (hp_DeleteServer lib (srv_Name x) RegistrationServerBackend t 0)) s' (\<lambda>_. I xs)"
    proof (rule runs_mono)
      fix r s''
      assume s'': "cached view rnd t s'' \<and> same_but view t RegistrationServerBackend s' s'' \<and>
        srv_Name ` set (rss view t s'') \<subseteq> srv_Name ` set (rss view t s') - {srv_Name x}"
      moreover have "same_but view t RegistrationServerBackend s s''" using s'' I by (auto simp: I_def intro: same_but_trans)
      moreover have "srv_Name ` set (rss view t s'') \<subseteq> srv_Name ` set xs" using s'' I unfolding I_def by (simp, blast)
      ultimately show "I xs s''" by (simp add: I_def)
    qed
    then show "runs (gthen (call_client (hp_DeleteServer lib (srv_Name x) RegistrationServerBackend t 0)) (gret (None :: unit option))) s'
      (\<lambda>r s'. r = None \<and> I xs s')" unfolding runs_gthen runs_gret by simp
  qed
  then show ?thesis unfolding removeRegistrationServers_def runs_gbind runs_gget g sum.case prod.case runs_gthen runs_gret
    by (rule runs_mono) (simp add: I_def)
qed

lemma addRegistrationServer_step:
  assumes laws: "haproxy_laws lib view" "haproxy_works lib view" and t: "t \<noteq> []" and c: "cached view rnd t s" and rnd: "inj rnd"
  shows "runs (addRegistrationServer lib rnd a p t 0) s (\<lambda>_ s'. cached view rnd t s' \<and>
     same_but view t RegistrationServerBackend s s' \<and> map srv_url (rss view t s') = map srv_url (rss view t s) @ [urlFor a p])"
proof -
  define x where "x = newServer (RegistrationServerPrefix @ dec (rnd (api_drawn s))) a p"
  obtain e h' where d: "hp_CreateServer lib RegistrationServerBackend x t 0 (api_client s) = (e, h')" by fastforce
  have e: "e = None" using works_calls(1) [OF laws(2), of x "api_client s" t RegistrationServerBackend 0]
      cachedD(7) [OF c, of "api_drawn s"] d by (simp add: x_def)
  note v = law_create [OF laws(1) d]
  let ?s' = "s\<lparr>api_drawn := api_drawn s + 1, api_client := h'\<rparr>"
  have v': "dps view t ?s' = dps view t s" "rss view t ?s' = rss view t s @ [x]" using v e by simp_all
  have "cached view rnd t ?s'"
  proof (rule cachedI)
    show "RegistrationServerPrefix @ dec (rnd n) \<notin> srv_Name ` set (rss view t ?s')" if "api_drawn ?s' \<le> n" for n
      unfolding v' using cachedD(7) [OF c, of n] that rnd by (auto simp: x_def dest: injD)
  qed (use v' cachedD [OF c] in simp_all)
  then show ?thesis
    using v' v t by (simp add: addRegistrationServer_def randInt_def wp d [unfolded x_def] same_but_def) (simp add: x_def)
qed

lemma addAllRegistration_runs:
  assumes laws: "haproxy_laws lib view" "haproxy_works lib view" and t: "t \<noteq> []" and c: "cached view rnd t s" and rnd: "inj rnd"
    and us: "\<forall>u \<in> set us. address_ok u"
  shows "runs (addAllRegistration lib rnd us t) s (\<lambda>_ s'. cached view rnd t s' \<and>
     same_but view t RegistrationServerBackend s s' \<and> map srv_url (rss view t s') = map srv_url (rss view t s) @ us)"
proof -
  define I :: "string list \<Rightarrow> 'a API \<Rightarrow> bool" where "I = (\<lambda>us' s'. cached view rnd t s' \<and> same_but view t RegistrationServerBackend s s' \<and>
     set us' \<subseteq> set us \<and> map srv_url (rss view t s') @ us' = map srv_url (rss view t s) @ us)"
  have "runs (grange us (\<lambda>address. gbind (SplitAddress address) (\<lambda>(ipAddress, port).
     gthen (addRegistrationServer lib rnd ipAddress port t 0) (gret (None :: unit option))))) s (\<lambda>r s'. r = None \<and> I [] s')"
  proof (rule runs_grange)
    show "I us s" using c by (simp add: I_def)
  next
    fix u us' s'
    assume I: "I (u # us') s'"
    then have "address_ok u" using us by (simp add: I_def)
    then obtain a p where ap: "plain_host a" "port_ok p" "u = a @ CHR '':'' # itoa p" by (rule address_okE)
    then have url: "urlFor a p = u" by (simp add: urlFor_def)
    have "cached view rnd t s'" using I by (simp add: I_def)
    from addRegistrationServer_step [OF laws t this rnd, of a p, unfolded url]
    have "runs (addRegistrationServer lib rnd a p t 0) s' (\<lambda>_. I us')"
      using I by (elim runs_mono) (auto simp: I_def intro: same_but_trans)
    then show "runs (gbind (SplitAddress u) (\<lambda>(ipAddress, port).
       gthen (addRegistrationServer lib rnd ipAddress port t 0) (gret (None :: unit option)))) s' (\<lambda>r s'. r = None \<and> I us' s')"
      unfolding ap(3) SplitAddress_format [OF ap(1,2)] by (simp add: wp)
  qed
  then show ?thesis unfolding addAllRegistration_def runs_gthen runs_gret by (rule runs_mono) (simp add: I_def)
qed


section \<open>A revision reaches the configuration\<close>

definition revised :: "string \<Rightarrow> string list \<Rightarrow> server list \<Rightarrow> server list \<Rightarrow> bool" where
  \<comment> \<open>the servers of a backend before and after a revision\<close>
  "revised backend addressesToKeep old new \<longleftrightarrow>
     (if backend = DataplaneBackend then srv_url ` set new = set addressesToKeep \<and> {x \<in> set old. srv_url x \<in> set addressesToKeep} \<subseteq> set new
      else map srv_url new = addressesToKeep)"

lemma reviseServers_runs:
  assumes laws: "haproxy_laws lib view" "haproxy_works lib view" and up: "haproxy_up lib" and t: "t \<noteq> []" and c: "cached view rnd t s"
    and rnd: "inj rnd" and us: "\<forall>u \<in> set us. address_ok u" and b: "b = DataplaneBackend \<or> b = RegistrationServerBackend"
  shows "runs (reviseServers lib rnd b us (map srv_url (view (api_client s) t b)) t) s (\<lambda>changes s'. cached view rnd t s' \<and> same_but view t b s s' \<and>
     revised b us (view (api_client s) t b) (view (api_client s') t b) \<and>
     (changes \<longleftrightarrow> srv_url ` set (view (api_client s) t b) \<noteq> set us))"
proof -
  let ?ex = "map srv_url (view (api_client s) t b)"
  have ch: "(length (Difference us ?ex) \<noteq> 0 \<or> length (Difference ?ex us) \<noteq> 0) \<longleftrightarrow> srv_url ` set (view (api_client s) t b) \<noteq> set us"
    by (auto simp: Difference_filter filter_empty_conv)
  show ?thesis
  proof (cases "b = DataplaneBackend")
    case True
    have d: "distinct (Difference ?ex us)" using cachedD(3) [OF c] True by (simp add: distinct_Difference)
    have sub: "set (Difference ?ex us) \<subseteq> srv_url ` set (dps view t s)" using True by auto
    have "runs (removeServers lib (Difference ?ex us) t) s (\<lambda>_ s'. runs (addServers lib rnd (Difference us ?ex) t) s' (\<lambda>_ s''. cached view rnd t s'' \<and>
       same_but view t b s s'' \<and> revised b us (dps view t s) (dps view t s'')))"
    proof (rule runs_mono [OF removeServers_runs [OF laws t c sub d]])
      fix x s'
      assume s': "cached view rnd t s' \<and> same_but view t DataplaneBackend s s' \<and>
        set (dps view t s') = {x \<in> set (dps view t s). srv_url x \<notin> set (Difference ?ex us)}"
      then have s'_set: "set (dps view t s') = {x \<in> set (dps view t s). srv_url x \<in> set us}" using True by auto
      have "\<forall>u \<in> set (Difference us ?ex). address_ok u" using us by simp
      from addServers_runs [OF laws t _ rnd this, of s'] s'
      have "runs (addServers lib rnd (Difference us ?ex) t) s' (\<lambda>_ s''. cached view rnd t s'' \<and> same_but view t DataplaneBackend s' s'' \<and>
        srv_url ` set (dps view t s'') = srv_url ` set (dps view t s') \<union> set (Difference us ?ex) \<and> set (dps view t s') \<subseteq> set (dps view t s''))" by blast
      then show "runs (addServers lib rnd (Difference us ?ex) t) s' (\<lambda>_ s''. cached view rnd t s'' \<and>
        same_but view t b s s'' \<and> revised b us (dps view t s) (dps view t s''))"
        by (rule runs_mono) (use s' s'_set True in \<open>auto simp: revised_def intro: same_but_trans\<close>)
    qed
    then show ?thesis unfolding reviseServers_def Let_def runs_gthen runs_gret ch using True by simp
  next
    case False
    with b have b': "b = RegistrationServerBackend" by simp
    have "runs (removeRegistrationServers lib t) s (\<lambda>_ s'. runs (addAllRegistration lib rnd us t) s' (\<lambda>_ s''. cached view rnd t s'' \<and>
       same_but view t b s s'' \<and> revised b us (rss view t s) (rss view t s'')))"
    proof (rule runs_mono [OF removeRegistrationServers_runs [OF laws up t c]])
      fix x s'
      assume s': "cached view rnd t s' \<and> same_but view t RegistrationServerBackend s s' \<and> rss view t s' = []"
      then have "cached view rnd t s'" by blast
      from addAllRegistration_runs [OF laws t this rnd us]
      show "runs (addAllRegistration lib rnd us t) s' (\<lambda>_ s''. cached view rnd t s'' \<and>
        same_but view t b s s'' \<and> revised b us (rss view t s) (rss view t s''))"
        by (rule runs_mono) (use s' b' in \<open>auto simp: revised_def intro: same_but_trans\<close>)
    qed
    then show ?thesis unfolding reviseServers_def Let_def runs_gthen runs_gret ch using b' by simp
  qed
qed

lemma genericRevise_runs:
  assumes laws: "haproxy_laws lib view" "haproxy_works lib view" and up: "haproxy_up lib" and c: "cached view rnd [] s"
    and rnd: "inj rnd" and us: "\<forall>u \<in> set us. address_ok u" and b: "b = DataplaneBackend \<or> b = RegistrationServerBackend"
  shows "runs (genericRevise lib rnd b us) s (\<lambda>(success, changes) s'. success \<and> cached view rnd [] s' \<and> api_commands s' = api_commands s \<and>
     (\<forall>b'. b' \<noteq> b \<longrightarrow> view (api_client s') [] b' = view (api_client s) [] b') \<and>
     revised b us (view (api_client s) [] b) (view (api_client s') [] b) \<and>
     (changes \<longleftrightarrow> srv_url ` set (view (api_client s) [] b) \<noteq> set us))"
proof -
  obtain v where v: "hp_GetVersion lib [] (api_client s) = Inr v" using up unfolding haproxy_up_def by blast
  obtain t h where t: "hp_StartTransaction lib v (api_client s) = (Inr t, h)" using up unfolding haproxy_up_def by blast
  obtain k ss where g: "hp_GetServers lib b t h = Inr (k, ss)" using up unfolding haproxy_up_def by blast
  note vt = law_start [OF laws(1) t]
  have ss: "ss = view h t b" by (rule law_get [OF laws(1) g])
  let ?s = "s\<lparr>api_client := h\<rparr>"
  have c': "cached view rnd t ?s" using c vt by (simp add: cached_def)
  from vt have tn: "t \<noteq> []" by blast
  have commit: "fst (hp_CommitTransaction lib t (api_client s'')) = None \<and> view (snd (hp_CommitTransaction lib t (api_client s''))) [] = view (api_client s'') t" for s'' :: "'a API"
    by (rule commit_view [OF laws])
  have "runs (reviseServers lib rnd b us (map srv_url ss) t) ?s (\<lambda>changes s'. cached view rnd t s' \<and> same_but view t b ?s s' \<and>
     revised b us (view h t b) (view (api_client s') t b) \<and> (changes \<longleftrightarrow> srv_url ` set (view h t b) \<noteq> set us))"
    using reviseServers_runs [OF laws up tn c' rnd us b] ss by simp
  then have "runs (reviseServers lib rnd b us (map srv_url ss) t) ?s (\<lambda>changes s'. fst (hp_CommitTransaction lib t (api_client s')) = None \<and>
     (let s'' = s'\<lparr>api_client := snd (hp_CommitTransaction lib t (api_client s'))\<rparr> in
       cached view rnd [] s'' \<and> api_commands s'' = api_commands s \<and>
       (\<forall>b'. b' \<noteq> b \<longrightarrow> view (api_client s'') [] b' = view (api_client s) [] b') \<and>
       revised b us (view (api_client s) [] b) (view (api_client s'') [] b) \<and>
       (changes \<longleftrightarrow> srv_url ` set (view (api_client s) [] b) \<noteq> set us)))"
    by (rule runs_mono) (use vt commit in \<open>simp add: Let_def cached_def same_but_def\<close>)
  then show ?thesis
    unfolding genericRevise_def using b by (auto simp: wp v t g Let_def elim!: runs_mono)
qed


lemma revise_first:
  assumes "runs (gthen (on_client (getHAProxyClient lib)) (genericRevise lib rnd b us)) s (\<lambda>(success, changes) s'. success \<and> Q changes s')"
  shows "runs (revise lib rnd b us) s Q"
  using assms unfolding runs_def revise_def by (subst reviseLoop.simps) (auto split: outcome.splits prod.splits)

lemma cached_commands [simp]: "cached view rnd t (s\<lparr>api_commands := cs\<rparr>) = cached view rnd t s"
  by (simp add: cached_def)

lemma revise_runs:
  assumes laws: "haproxy_laws lib view" "haproxy_works lib view" and up: "haproxy_up lib" and c: "cached view rnd [] s"
    and rnd: "inj rnd" and us: "\<forall>u \<in> set us. address_ok u" and b: "b = DataplaneBackend \<or> b = RegistrationServerBackend"
  shows "runs (revise lib rnd b us) s (\<lambda>changes s'. cached view rnd [] s' \<and> api_commands s' = api_commands s \<and>
     (\<forall>b'. b' \<noteq> b \<longrightarrow> view (api_client s') [] b' = view (api_client s) [] b') \<and>
     revised b us (view (api_client s) [] b) (view (api_client s') [] b) \<and>
     (changes \<longleftrightarrow> srv_url ` set (view (api_client s) [] b) \<noteq> set us))"
proof (rule revise_first, unfold runs_gthen, rule runs_mono [OF runs_client [OF laws(1) up]])
  fix x s'
  assume "\<exists>h'. s' = s\<lparr>api_client := h'\<rparr> \<and> view h' [] = view (api_client s) []"
  then have s': "cached view rnd [] s'" "view (api_client s') [] = view (api_client s) []" "api_commands s' = api_commands s"
    using c by (auto simp: cached_def)
  from genericRevise_runs [OF laws up s'(1) rnd us b]
  show "runs (genericRevise lib rnd b us) s' (\<lambda>(success, changes) s'. success \<and> cached view rnd [] s' \<and> api_commands s' = api_commands s \<and>
     (\<forall>b'. b' \<noteq> b \<longrightarrow> view (api_client s') [] b' = view (api_client s) [] b') \<and>
     revised b us (view (api_client s) [] b) (view (api_client s') [] b) \<and>
     (changes \<longleftrightarrow> srv_url ` set (view (api_client s) [] b) \<noteq> set us))"
    unfolding s'(2,3) .
qed

lemma RestartHAProxy_runs:
  "runs (RestartHAProxy lib) s (\<lambda>_ s'. api_commands s' \<noteq> api_commands s \<and> (\<exists>cs. s' = s\<lparr>api_commands := cs\<rparr>))"
  by (simp add: RestartHAProxy_def systemctl_def forceResetHAProxy_def wp) (auto intro: exI [of _ "_ @ _"])

lemma reviseBoth_runs:
  assumes laws: "haproxy_laws lib view" "haproxy_works lib view" and up: "haproxy_up lib" and c: "cached view rnd [] s"
    and rnd: "inj rnd" and us: "\<forall>u \<in> set ds \<union> set rs. address_ok u"
  shows "runs (reviseBoth lib rnd ds rs) s (\<lambda>_ s'. cached view rnd [] s' \<and>
     revised DataplaneBackend ds (dps view [] s) (dps view [] s') \<and> map srv_url (rss view [] s') = rs \<and>
     (api_commands s' \<noteq> api_commands s \<longleftrightarrow> srv_url ` set (dps view [] s) \<noteq> set ds \<or> srv_url ` set (rss view [] s) \<noteq> set rs))"
  unfolding reviseBoth_def ReviseDataplanes_def ReviseRegistrationServers_def runs_gbind
proof (rule runs_mono [OF revise_runs [OF laws up c rnd]])
  fix dpChanges s'
  assume s': "cached view rnd [] s' \<and> api_commands s' = api_commands s \<and>
     (\<forall>b'. b' \<noteq> DataplaneBackend \<longrightarrow> view (api_client s') [] b' = view (api_client s) [] b') \<and>
     revised DataplaneBackend ds (dps view [] s) (dps view [] s') \<and> (dpChanges \<longleftrightarrow> srv_url ` set (dps view [] s) \<noteq> set ds)"
  then have c': "cached view rnd [] s'" by blast
  show "runs (revise lib rnd RegistrationServerBackend rs) s' (\<lambda>rsChanges s''. runs (gwhen (dpChanges \<or> rsChanges) (RestartHAProxy lib)) s''
     (\<lambda>_ s'. cached view rnd [] s' \<and> revised DataplaneBackend ds (dps view [] s) (dps view [] s') \<and> map srv_url (rss view [] s') = rs \<and>
       (api_commands s' \<noteq> api_commands s \<longleftrightarrow> srv_url ` set (dps view [] s) \<noteq> set ds \<or> srv_url ` set (rss view [] s) \<noteq> set rs)))"
  proof (rule runs_mono [OF revise_runs [OF laws up c' rnd]])
    fix rsChanges s''
    assume s'': "cached view rnd [] s'' \<and> api_commands s'' = api_commands s' \<and>
      (\<forall>b'. b' \<noteq> RegistrationServerBackend \<longrightarrow> view (api_client s'') [] b' = view (api_client s') [] b') \<and>
      revised RegistrationServerBackend rs (rss view [] s') (rss view [] s'') \<and> (rsChanges \<longleftrightarrow> srv_url ` set (rss view [] s') \<noteq> set rs)"
    show "runs (gwhen (dpChanges \<or> rsChanges) (RestartHAProxy lib)) s''
      (\<lambda>_ s'. cached view rnd [] s' \<and> revised DataplaneBackend ds (dps view [] s) (dps view [] s') \<and> map srv_url (rss view [] s') = rs \<and>
       (api_commands s' \<noteq> api_commands s \<longleftrightarrow> srv_url ` set (dps view [] s) \<noteq> set ds \<or> srv_url ` set (rss view [] s) \<noteq> set rs))"
    proof (cases "dpChanges \<or> rsChanges")
      case True
      have views: "dps view [] s'' = dps view [] s'" "rss view [] s' = rss view [] s" using s' s'' by simp_all
      show ?thesis unfolding runs_gwhen if_P [OF True]
      proof (rule runs_mono [OF RestartHAProxy_runs])
        fix y z
        assume "api_commands z \<noteq> api_commands s'' \<and> (\<exists>cs. z = s''\<lparr>api_commands := cs\<rparr>)"
        then obtain cs where z: "z = s''\<lparr>api_commands := cs\<rparr>" "cs \<noteq> api_commands s''" by fastforce
        show "cached view rnd [] z \<and> revised DataplaneBackend ds (dps view [] s) (dps view [] z) \<and> map srv_url (rss view [] z) = rs \<and>
          (api_commands z \<noteq> api_commands s \<longleftrightarrow> srv_url ` set (dps view [] s) \<noteq> set ds \<or> srv_url ` set (rss view [] s) \<noteq> set rs)"
          using True z s' s'' views by (simp add: revised_def)
      qed
    qed (use s' s'' in \<open>auto simp: runs_gwhen revised_def\<close>)
  qed (use us in simp_all)
qed (use us in simp_all)

section \<open>Names that are not in the configuration\<close>

definition ghost :: "('h \<Rightarrow> string \<Rightarrow> string \<Rightarrow> server list) \<Rightarrow> string \<Rightarrow> string \<Rightarrow> 'h API \<Rightarrow> bool" where
  \<comment> \<open>the manager has a name for address \<open>u\<close>, and no server has the address\<close>
  "ghost view u t s \<longleftrightarrow> \<not> api_mutex s \<and> map_of (api_addressToName s) u \<noteq> None \<and> u \<notin> srv_url ` set (dps view t s) \<and>
     (\<forall>x \<in> set (dps view t s). address_ok (srv_url x))"

lemma removeServerByName_ghost:
  assumes laws: "haproxy_laws lib view" and t: "t \<noteq> []" and g: "ghost view u t s" and u: "urlFor a p \<noteq> u"
  shows "runs (removeServerByName lib a p t 0) s (\<lambda>_ s'. ghost view u t s' \<and> view (api_client s') [] = view (api_client s) [])"
proof (cases "map_of (api_addressToName s) (urlFor a p)")
  case None
  with g show ?thesis by (simp add: removeServerByName_def wp Let_def ghost_def)
next
  case (Some n)
  obtain e h' where d: "hp_DeleteServer lib n DataplaneBackend t 0 (api_client s) = (e, h')" by fastforce
  have "set (view h' t DataplaneBackend) \<subseteq> set (dps view t s)" "view h' [] = view (api_client s) []"
    using law_delete [OF laws d] t by (auto split: if_splits)
  with g u Some show ?thesis by (auto simp: removeServerByName_def wp d Let_def ghost_def)
qed

lemma addServer_ghost:
  assumes laws: "haproxy_laws lib view" and t: "t \<noteq> []" and g: "ghost view u t s" and a: "address_ok (urlFor a p)"
  shows "runs (addServer lib rnd a p t 0) s (\<lambda>_ s'. ghost view u t s' \<and> view (api_client s') [] = view (api_client s) [])"
proof (cases "map_of (api_addressToName s) (urlFor a p)")
  case (Some n)
  with g show ?thesis by (simp add: addServer_def randInt_def wp Let_def ghost_def)
next
  case None
  define x where "x = newServer (DataplanePrefix @ dec (rnd (api_drawn s))) a p"
  obtain e h' where d: "hp_CreateServer lib DataplaneBackend x t 0 (api_client s) = (e, h')" by fastforce
  have keep: "view h' [] = view (api_client s) []" using law_create [OF laws d] t by simp
  have "set (view h' t DataplaneBackend) \<subseteq> insert x (set (dps view t s))" using law_create [OF laws d] by (auto split: if_splits)
  moreover have "urlFor a p \<noteq> u" using None g by (auto simp: ghost_def)
  ultimately have "ghost view u t (s\<lparr>api_drawn := api_drawn s + 1, api_client := h',
      api_addressToName := gm_set (urlFor a p) (DataplanePrefix @ dec (rnd (api_drawn s))) (api_addressToName s), api_mutex := False\<rparr>)"
    using g a by (fastforce simp: ghost_def x_def)
  with g None keep show ?thesis
    by (simp add: addServer_def randInt_def persistServerMetadata_def wp d [unfolded x_def] Let_def ghost_def)
qed


lemma ghost_loop:
  assumes step: "\<And>a p s'. ghost view u t s' \<Longrightarrow> address_ok (urlFor a p) \<Longrightarrow> urlFor a p \<in> set us \<Longrightarrow>
      runs (body a p) s' (\<lambda>_ s''. ghost view u t s'' \<and> view (api_client s'') [] = view (api_client s') [])"
    and g: "ghost view u t s" and us: "\<forall>a \<in> set us. address_ok a"
  shows "runs (grange us (\<lambda>address. gbind (SplitAddress address) (\<lambda>(ipAddress, port). gthen (body ipAddress port) (gret (None :: unit option))))) s
     (\<lambda>r s'. r = None \<and> ghost view u t s' \<and> view (api_client s') [] = view (api_client s) [])"
proof -
  define I :: "string list \<Rightarrow> 'a API \<Rightarrow> bool" where "I = (\<lambda>us' s'. set us' \<subseteq> set us \<and> ghost view u t s' \<and>
    view (api_client s') [] = view (api_client s) [])"
  have "runs (grange us (\<lambda>address. gbind (SplitAddress address) (\<lambda>(ipAddress, port). gthen (body ipAddress port) (gret (None :: unit option))))) s
     (\<lambda>r s'. r = None \<and> I [] s')"
  proof (rule runs_grange)
    show "I us s" using g by (simp add: I_def)
  next
    fix v us' s'
    assume I: "I (v # us') s'"
    then have "address_ok v" using us by (simp add: I_def)
    then obtain a p where ap: "plain_host a" "port_ok p" "v = a @ CHR '':'' # itoa p" by (rule address_okE)
    then have url: "urlFor a p = v" by (simp add: urlFor_def)
    have "ghost view u t s'" "v \<in> set us" using I by (simp_all add: I_def)
    from step [OF this(1), of a p, unfolded url, OF \<open>address_ok v\<close> this(2)]
    have "runs (body a p) s' (\<lambda>_. I us')" by (rule runs_mono) (use I in \<open>simp add: I_def\<close>)
    then show "runs (gbind (SplitAddress v) (\<lambda>(ipAddress, port). gthen (body ipAddress port) (gret (None :: unit option)))) s'
      (\<lambda>r s'. r = None \<and> I us' s')"
      unfolding ap(3) SplitAddress_format [OF ap(1,2)] by (simp add: wp)
  qed
  then show ?thesis by (rule runs_mono) (simp add: I_def)
qed

lemma reviseServers_ghost:
  assumes laws: "haproxy_laws lib view" and t: "t \<noteq> []" and g: "ghost view u t s" and us: "\<forall>a \<in> set us. address_ok a" "u \<in> set us"
  shows "runs (reviseServers lib rnd DataplaneBackend us (map srv_url (dps view t s)) t) s (\<lambda>changes s'. changes \<and> ghost view u t s' \<and>
     view (api_client s') [] = view (api_client s) [])"
proof -
  let ?ex = "map srv_url (dps view t s)"
  have ex: "u \<notin> set ?ex" "\<forall>a \<in> set ?ex. address_ok a" using g by (auto simp: ghost_def)
  have rem: "runs (removeServers lib (Difference ?ex us) t) s (\<lambda>_ s'. ghost view u t s' \<and> view (api_client s') [] = view (api_client s) [])"
    unfolding removeServers_def runs_gthen runs_gret
    by (rule runs_mono, rule ghost_loop [OF _ g])
      (use ex us(2) in \<open>auto intro!: runs_mono [OF removeServerByName_ghost [OF laws t]]\<close>)
  have add: "runs (addServers lib rnd (Difference us ?ex) t) s' (\<lambda>_ s''. ghost view u t s'' \<and> view (api_client s'') [] = view (api_client s') [])"
    if "ghost view u t s'" for s'
    unfolding addServers_def runs_gthen runs_gret
    by (rule runs_mono, rule ghost_loop [OF _ that])
      (use us(1) in \<open>auto intro!: runs_mono [OF addServer_ghost [OF laws t]]\<close>)
  have "u \<in> set (Difference us ?ex)" using us(2) ex(1) by simp
  then have "length (Difference us ?ex) \<noteq> 0" by (metis length_pos_if_in_set less_numeral_extra(3))
  then show ?thesis
    unfolding reviseServers_def Let_def runs_gthen runs_gret simp_thms if_True
    by (intro runs_mono [OF rem] runs_mono [OF add]) simp_all
qed

lemma revise_ghost:
  assumes laws: "haproxy_laws lib view" "haproxy_works lib view" and up: "haproxy_up lib" and g: "ghost view u [] s"
    and us: "\<forall>a \<in> set us. address_ok a" "u \<in> set us"
  shows "runs (ReviseDataplanes lib rnd us) s (\<lambda>changes s'. changes \<and> ghost view u [] s')"
  unfolding ReviseDataplanes_def
proof (rule revise_first, unfold runs_gthen, rule runs_mono [OF runs_client [OF laws(1) up]])
  fix x s'
  assume "\<exists>h'. s' = s\<lparr>api_client := h'\<rparr> \<and> view h' [] = view (api_client s) []"
  then have g': "ghost view u [] s'" using g by (auto simp: ghost_def)
  obtain v where v: "hp_GetVersion lib [] (api_client s') = Inr v" using up unfolding haproxy_up_def by blast
  obtain t h where t: "hp_StartTransaction lib v (api_client s') = (Inr t, h)" using up unfolding haproxy_up_def by blast
  obtain k ss where gs: "hp_GetServers lib DataplaneBackend t h = Inr (k, ss)" using up unfolding haproxy_up_def by blast
  note vt = law_start [OF laws(1) t]
  have ss: "ss = dps view t (s'\<lparr>api_client := h\<rparr>)" using law_get [OF laws(1) gs] by simp
  have gt: "ghost view u t (s'\<lparr>api_client := h\<rparr>)" using g' vt by (simp add: ghost_def)
  have commit: "fst (hp_CommitTransaction lib t (api_client z)) = None \<and>
      (ghost view u t z \<longrightarrow> ghost view u [] (z\<lparr>api_client := snd (hp_CommitTransaction lib t (api_client z))\<rparr>))" for z :: "'a API"
    using commit_view [OF laws, of t "api_client z"] by (simp add: ghost_def)
  have "t \<noteq> []" using vt by blast
  have "runs (reviseServers lib rnd DataplaneBackend us (map srv_url ss) t) (s'\<lparr>api_client := h\<rparr>) (\<lambda>changes s'. changes \<and> ghost view u t s')"
    unfolding ss by (rule runs_mono [OF reviseServers_ghost [OF laws(1) \<open>t \<noteq> []\<close> gt us]]) simp
  then show "runs (genericRevise lib rnd DataplaneBackend us) s' (\<lambda>(success, changes) s'. success \<and> changes \<and> ghost view u [] s')"
    unfolding genericRevise_def using commit by (auto simp: wp v t gs elim!: runs_mono)
qed


lemma reviseServers_commit: "reviseServers (lib\<lparr>hp_CommitTransaction := f\<rparr>) rnd b us ex t = reviseServers lib rnd b us ex t"
proof -
  have "hp_DeleteServer (lib\<lparr>hp_CommitTransaction := f\<rparr>) = hp_DeleteServer lib" "hp_CreateServer (lib\<lparr>hp_CommitTransaction := f\<rparr>) = hp_CreateServer lib"
    "hp_GetServers (lib\<lparr>hp_CommitTransaction := f\<rparr>) = hp_GetServers lib" by simp_all
  then show ?thesis
    unfolding reviseServers_def removeServers_def addServers_def removeRegistrationServers_def addAllRegistration_def
      removeServerByName_def addServer_def addRegistrationServer_def persistServerMetadata_def by (simp only:)
qed

lemma failed_commit_ghost:
  assumes laws: "haproxy_laws lib view" "haproxy_works lib view" and up: "haproxy_up lib" and c: "cached view rnd [] s"
    and rnd: "inj rnd" and us: "\<forall>a \<in> set us. address_ok a" "u \<in> set us" and u: "u \<notin> srv_url ` set (dps view [] s)"
  shows "runs (genericRevise (lib\<lparr>hp_CommitTransaction := (\<lambda>t h. (Some e, h))\<rparr>) rnd DataplaneBackend us) s (\<lambda>r s'.
     r = (False, False) \<and> ghost view u [] s')"
proof -
  obtain v where v: "hp_GetVersion lib [] (api_client s) = Inr v" using up unfolding haproxy_up_def by blast
  obtain t h where t: "hp_StartTransaction lib v (api_client s) = (Inr t, h)" using up unfolding haproxy_up_def by blast
  obtain k ss where g: "hp_GetServers lib DataplaneBackend t h = Inr (k, ss)" using up unfolding haproxy_up_def by blast
  note vt = law_start [OF laws(1) t]
  let ?s = "s\<lparr>api_client := h\<rparr>"
  have ss: "ss = dps view t ?s" using law_get [OF laws(1) g] by simp
  have c': "cached view rnd t ?s" and "t \<noteq> []" using c vt by (simp_all add: cached_def)
  have "runs (reviseServers lib rnd DataplaneBackend us (map srv_url ss) t) ?s (\<lambda>_. ghost view u [])"
    unfolding ss
  proof (rule runs_mono [OF reviseServers_runs [OF laws up \<open>t \<noteq> []\<close> c' rnd us(1)]])
    fix changes s'
    assume s': "cached view rnd t s' \<and> same_but view t DataplaneBackend ?s s' \<and>
      revised DataplaneBackend us (dps view t ?s) (dps view t s') \<and> (changes \<longleftrightarrow> srv_url ` set (dps view t ?s) \<noteq> set us)"
    then have "u \<in> srv_url ` set (dps view t s')" using us(2) by (simp add: revised_def)
    then have "map_of (api_addressToName s') u \<noteq> None" using cached_None [of view rnd t s' u] s' by blast
    moreover have "view (api_client s') [] = view (api_client s) []" using s' vt by (simp add: same_but_def)
    ultimately show "ghost view u [] s'" using s' u cachedD(4) [OF c] by (simp add: ghost_def cached_def)
  qed simp
  then show ?thesis
    unfolding genericRevise_def by (auto simp: wp v t g reviseServers_commit elim!: runs_mono)
qed

section \<open>Properties\<close>


text \<open>
  C38. A commit that fails loses a data plane. The manager keeps the name of an address it added in a
  transaction that was not committed, and the retry takes the address for one that is there: it reports
  a change, but the new data plane does not get into the configuration.
\<close>

theorem failed_commit_loses_dataplane:
  assumes "haproxy_laws lib view" and "haproxy_works lib view" and "haproxy_up lib" and "inj rnd" and "cached view rnd [] s"
    and "\<forall>a \<in> set us. address_ok a" and "u \<in> set us" and "u \<notin> srv_url ` set (dps view [] s)"
  shows "runs (genericRevise (lib\<lparr>hp_CommitTransaction := (\<lambda>t h. (Some e, h))\<rparr>) rnd DataplaneBackend us) s (\<lambda>r s'. r = (False, False) \<and>
     runs (ReviseDataplanes lib rnd us) s' (\<lambda>changes s''. changes \<and> u \<notin> srv_url ` set (dps view [] s'')))"
proof (rule runs_mono [OF failed_commit_ghost [OF assms(1-3,5,4,6-8)]])
  fix r s'
  assume g: "r = (False, False) \<and> ghost view u [] s'"
  then have "runs (ReviseDataplanes lib rnd us) s' (\<lambda>changes s''. changes \<and> ghost view u [] s'')"
    using revise_ghost [OF assms(1-3) _ assms(6,7)] by blast
  then have "runs (ReviseDataplanes lib rnd us) s' (\<lambda>changes s''. changes \<and> u \<notin> srv_url ` set (dps view [] s''))"
    by (rule runs_mono) (simp add: ghost_def)
  with g show "r = (False, False) \<and> runs (ReviseDataplanes lib rnd us) s' (\<lambda>changes s''. changes \<and> u \<notin> srv_url ` set (dps view [] s''))"
    by blast
qed

text \<open>A client library in memory: the configuration in place and the copy of the transaction.\<close>

type_synonym memory_lb = "(string \<Rightarrow> server list) \<times> (string \<Rightarrow> server list)"

definition memory_view :: "memory_lb \<Rightarrow> string \<Rightarrow> string \<Rightarrow> server list" where
  "memory_view h t = (if t = [] then fst h else snd h)"

definition memory_edit :: "string \<Rightarrow> string \<Rightarrow> server list \<Rightarrow> memory_lb \<Rightarrow> memory_lb" where
  "memory_edit t b ss h = (if t = [] then ((fst h)(b := ss), snd h) else (fst h, (snd h)(b := ss)))"

definition memory_haproxy :: "memory_lb haproxy" where
  "memory_haproxy = \<lparr>hp_GetVersion = (\<lambda>_ _. Inr 1),
     hp_StartTransaction = (\<lambda>_ h. (Inr ''t'', (fst h, fst h))),
     hp_GetServers = (\<lambda>b t h. Inr (1, memory_view h t b)),
     hp_CreateServer = (\<lambda>b s t _ h. if srv_Name s \<in> srv_Name ` set (memory_view h t b) then (Some ''exists'', h)
        else (None, memory_edit t b (memory_view h t b @ [s]) h)),
     hp_DeleteServer = (\<lambda>n b t _ h. if n \<in> srv_Name ` set (memory_view h t b)
        then (None, memory_edit t b (filter (\<lambda>s. srv_Name s \<noteq> n) (memory_view h t b)) h) else (Some ''missing'', h)),
     hp_CommitTransaction = (\<lambda>t h. (None, if t = [] then h else (snd h, snd h))),
     hp_InitCustom = Some, hp_InitDefault = Some, hp_RuntimeApis = (\<lambda>_. None), hp_InitRuntime = (\<lambda>_ _. True),
     hp_Init = (\<lambda>_. Some), hp_systemctl = (\<lambda>_ _. True)\<rparr>"

definition demo_api :: "memory_lb API" where
  "demo_api = \<lparr>api_client = (\<lambda>_. [], \<lambda>_. []), api_lbAddress = ''lb'', api_addressToName = [], api_mutex = False,
     api_drawn = 0, api_commands = []\<rparr>"

lemma memory_laws: "haproxy_laws memory_haproxy memory_view" "haproxy_works memory_haproxy memory_view" "haproxy_up memory_haproxy"
proof -
  show "haproxy_laws memory_haproxy memory_view"
    unfolding haproxy_laws_def by (intro conjI allI impI) (auto simp: memory_haproxy_def memory_view_def memory_edit_def split: if_splits)
  show "haproxy_works memory_haproxy memory_view"
    unfolding haproxy_works_def by (simp add: memory_haproxy_def)
  show "haproxy_up memory_haproxy"
    by (simp add: haproxy_up_def memory_haproxy_def)
qed

lemma demo_cached: "cached memory_view id [] demo_api" "dps memory_view [] demo_api = []" "rss memory_view [] demo_api = []" "api_commands demo_api = []"
  by (simp_all add: cached_def demo_api_def memory_view_def)

lemma demo_addresses: "address_ok ''10.0.0.1:80''" "address_ok ''10.0.0.2:91''"
proof -
  have "dec 80 = ''80''" by code_simp
  moreover have "dec 91 = ''91''" by code_simp
  ultimately have "itoa 80 = ''80''" "itoa 91 = ''91''" by (simp_all add: itoa_def)
  then have "''10.0.0.1:80'' = ''10.0.0.1'' @ '':'' @ itoa 80" "''10.0.0.2:91'' = ''10.0.0.2'' @ '':'' @ itoa 91" by simp_all
  moreover have "plain_host ''10.0.0.1''" "plain_host ''10.0.0.2''" "port_ok 80" "port_ok 91"
    by (simp_all add: plain_host_def port_ok_def)
  ultimately show "address_ok ''10.0.0.1:80''" "address_ok ''10.0.0.2:91''" unfolding address_ok_def by blast+
qed


theorem failed_commit_loses_dataplane_witness:
  "runs (genericRevise (memory_haproxy\<lparr>hp_CommitTransaction := (\<lambda>t h. (Some ''version mismatch'', h))\<rparr>) id DataplaneBackend [''10.0.0.1:80'']) demo_api
     (\<lambda>r s'. r = (False, False) \<and> runs (ReviseDataplanes memory_haproxy id [''10.0.0.1:80'']) s'
        (\<lambda>changes s''. changes \<and> ''10.0.0.1:80'' \<notin> srv_url ` set (dps memory_view [] s'')))"
  by (rule failed_commit_loses_dataplane [OF memory_laws inj_on_id demo_cached(1)]) (simp_all add: demo_addresses demo_cached)

end
