(* ===== verification/Reconstruction.thy ===== *)
theory Reconstruction
  imports Registry_Services HAProxy
begin

text \<open>
  \<^verbatim>\<open>reconstruction.go\<close>: how a control plane that becomes the leader rebuilds its state from the persistence
  layer and the worker nodes. The state is the control plane with the manager of the load balancer. The
  goroutines that connect to the worker nodes run on their own: \<open>early\<close> says which of them are done before
  the sandboxes are listed.
\<close>

type_synonym ('db, 'p, 'h) rebuilt = "('db, 'p) ControlPlane \<times> 'h API option"

abbreviation on_control :: "(('db, 'p) ControlPlane, 'a) go \<Rightarrow> (('db, 'p, 'h) rebuilt, 'a) go" where
  "on_control m \<equiv> gzoom fst (\<lambda>c s. (c, snd s)) m"

section \<open>Definitions\<close>

definition reconstructDataplaneState :: "('db, 'p) world \<Rightarrow> (('db, 'p) ControlPlane, error option) go" where
  "reconstructDataplaneState w = gbind (on_db (pl_GetDataPlaneInformation (w_pl w))) (\<lambda>r. case r of
       Inl err \<Rightarrow> gret (Some err)
     | Inr dataPlaneValues \<Rightarrow>
         gthen (grange dataPlaneValues (\<lambda>i.
           case InitializeDataPlaneConnection (w_dial w (di_Address i))
                  (NewDataplaneConnection (w_now w) (di_Address i) (di_ApiPort i) (di_ProxyPort i)) of
             Ret _ conn \<Rightarrow> gthen (on_dp (gmodify (Structure_Set (di_Address i) conn))) (gret (None :: unit option))
           | _ \<Rightarrow> gpanic ''unreachable'')) (gret None))"

definition reconstructedNode :: "('db, 'p) world \<Rightarrow> WorkerNodeInformation \<Rightarrow> WorkerNode" where
  "reconstructedNode w i = NewWorkerNode (w_now w) \<lparr>wc_Name = wi_Name i, wc_IP = wi_Ip i, wc_Port = wi_Port i,
     wc_CpuCores = wi_CpuCores i, wc_Memory = wi_Memory i\<rparr>"

definition reconstructWorkersState :: "('db, 'p) world \<Rightarrow> (('db, 'p) ControlPlane, error + WorkerNode list) go" where
  \<comment> \<open>the nodes of the goroutines that are started\<close>
  "reconstructWorkersState w = gbind (on_db (pl_GetWorkerNodeInformation (w_pl w))) (\<lambda>r. case r of
       Inl err \<Rightarrow> gret (Inl err) | Inr workers \<Rightarrow> gret (Inr (map (reconstructedNode w) workers)))"

definition reconnectWorker :: "('db, 'p) world \<Rightarrow> WorkerNode \<Rightarrow> (('db, 'p) ControlPlane, unit) go" where
  \<comment> \<open>the goroutine of one node\<close>
  "reconnectWorker w wn = (let wn' = ConnectToWorker (w_dial w (wn_Name wn)) wn
     in gwhen (wn_wnConnection wn') (with_ni_lock (on_ni (gmodify (Structure_Set (wn_Name wn') wn')))))"

definition reconnectAll :: "('db, 'p) world \<Rightarrow> WorkerNode list \<Rightarrow> (('db, 'p) ControlPlane, unit) go" where
  "reconnectAll w wns = gthen (grange wns (\<lambda>wn. gthen (reconnectWorker w wn) (gret (None :: unit option)))) (gret ())"

definition reconstructServiceState :: "('db, 'p) world \<Rightarrow> (('db, 'p) ControlPlane, error option) go" where
  "reconstructServiceState w = gbind (on_db (pl_GetServiceInformation (w_pl w))) (\<lambda>r. case r of
       Inl err \<Rightarrow> gret (Some err)
     | Inr services \<Rightarrow> gthen (grange services (\<lambda>service.
           gthen (with_si_lock (notifyDataplanesAndStartScalingLoop w service True)) (gret (None :: unit option)))) (gret None))"

definition listEndpoints :: "('db, 'p) world \<Rightarrow> WorkerNode \<Rightarrow> (('db, 'p) ControlPlane, ProtoEndpoint list) go" where
  \<comment> \<open>an error is logged, and then the fields of a nil list are read\<close>
  "listEndpoints w node =
     (if \<not> wn_wnConnection node then gret []
      else gbind (gget (\<lambda>c. w_list w (length (cp_calls c)) (wn_Name node))) (\<lambda>r.
        gthen (gmodify (\<lambda>c. c\<lparr>cp_calls := cp_calls c @ [RpcListEndpoints (wn_Name node)]\<rparr>))
          (case r of None \<Rightarrow> gpanic ''nil pointer dereference'' | Some endpoints \<Rightarrow> gret endpoints)))"

fun listAllEndpoints :: "('db, 'p) world \<Rightarrow> WorkerNode list \<Rightarrow> (('db, 'p) ControlPlane, ProtoEndpoint list) go" where
  "listAllEndpoints w [] = gret []"
| "listAllEndpoints w (node # nodes) = gbind (listEndpoints w node) (\<lambda>es. gbind (listAllEndpoints w nodes) (\<lambda>rest. gret (es @ rest)))"

definition reconstructedEndpoint :: "nat \<Rightarrow> WorkerNode \<Rightarrow> ProtoEndpoint \<Rightarrow> Endpoint" where
  "reconstructedEndpoint addr node e = \<lparr>ep_addr = addr, ep_SandboxID = pe_SandboxID e, ep_URL = wn_IP node @ '':'' @ itoa (pe_HostPort e),
     ep_Node = Some (wn_Name node), ep_HostPort = pe_HostPort e\<rparr>"

definition attachEndpoint :: "('db, 'p) world \<Rightarrow> Endpoint \<Rightarrow> string \<Rightarrow> (('db, 'p) service_state, unit) go" where
  "attachEndpoint w e nodeName = gbind (gget (\<lambda>s. ss_ServiceInfo (fst s))) (\<lambda>info.
     gthen (on_cp (gthen (on_ni Structure_RLock) (gthen (on_ni Structure_RUnlock)
               (on_node nodeName (on_endpoint_map (Structure_AtomicSet e (si_Name info)))))))
    (gthen (on_controller EndpointLock_Lock)
    (gthen (on_controller (gmodify (\<lambda>as. as\<lparr>Endpoints := Endpoints as @ [e]\<rparr>)))
    (gbind (gget (\<lambda>s. prepareEndpointInfo (Endpoints (ss_Controller (fst s))))) (\<lambda>urls.
     gthen (on_controller EndpointLock_Unlock)
    (gthen (on_cp (updateEndpoints w info urls))
    (gthen (on_controller (on_metadata (gmodify (\<lambda>m. m\<lparr>InPanicMode := True, StartPanickingTimestamp := w_now w\<rparr>))))
    (gthen (on_controller (gmodify (addActualScale 1)))
    (gthen (on_controller Controller_Start) (gret ()))))))))))"

definition reconstructEndpoint :: "('db, 'p) world \<Rightarrow> ProtoEndpoint \<Rightarrow> (('db, 'p) ControlPlane, unit) go" where
  \<comment> \<open>the goroutine of one sandbox\<close>
  "reconstructEndpoint w e =
     gthen (on_ni Structure_RLock)
    (gbind (gget (\<lambda>c. Structure_Get (NIStorage c) (pe_NodeName e))) (\<lambda>node.
     gthen (on_ni Structure_RUnlock)
    (case node of None \<Rightarrow> gret ()
     | Some n \<Rightarrow> gbind (gget cp_next) (\<lambda>addr.
       gthen (gmodify (\<lambda>c. c\<lparr>cp_next := cp_next c + 1\<rparr>))
      (gthen (on_si Structure_RLock)
      (gbind (gget (\<lambda>c. Structure_Present (SIStorage c) (pe_ServiceName e))) (\<lambda>found.
       gthen (on_si Structure_RUnlock)
         (if \<not> found then gret ()
          else on_service (pe_ServiceName e) (attachEndpoint w (reconstructedEndpoint addr n e) (wn_Name n))))))))))"

definition reconstructEndpointsState :: "('db, 'p) world \<Rightarrow> (('db, 'p) ControlPlane, error option) go" where
  "reconstructEndpointsState w = gbind (gget (\<lambda>c. Structure_GetValues (NIStorage c))) (\<lambda>nodes.
     gbind (listAllEndpoints w nodes) (\<lambda>endpoints.
       gthen (grange endpoints (\<lambda>e. gthen (reconstructEndpoint w e) (gret (None :: unit option)))) (gret None)))"

definition reviseLoadBalancer :: "'h haproxy \<Rightarrow> (nat \<Rightarrow> nat) \<Rightarrow> (('db, 'p, 'h) rebuilt, unit) go" where
  \<comment> \<open>the callback; \<^verbatim>\<open>ReviseDataplanesInLB\<close> reads the addresses under the lock of the data planes\<close>
  "reviseLoadBalancer lib rnd s = (case snd s of
       None \<Rightarrow> Ret () s
     | Some api \<Rightarrow> gbind (on_control (gthen (on_dp Structure_RLock)
             (gbind (gget (\<lambda>c. map proxyAddress (Structure_GetValues (DataPlaneConnections c)))) (\<lambda>ds. gthen (on_dp Structure_RUnlock) (gret ds)))))
         (\<lambda>ds. gbind (gget (\<lambda>s. cp_Config (fst s))) (\<lambda>cfg.
            gzoom (\<lambda>_. api) (\<lambda>a s. (fst s, Some a)) (HAProxyReconstructionCallback lib rnd cfg ds))) s)"

text \<open>\<^verbatim>\<open>if err := step; err != nil { return err }\<close> followed by the rest.\<close>

definition unless_error :: "('s, error option) go \<Rightarrow> ('s, error option) go \<Rightarrow> ('s, error option) go" where
  "unless_error m k = gbind m (\<lambda>err. case err of Some e \<Rightarrow> gret (Some e) | None \<Rightarrow> k)"

definition ReconstructState ::
  "('db, 'p) world \<Rightarrow> 'h haproxy \<Rightarrow> (nat \<Rightarrow> nat) \<Rightarrow> (WorkerNode \<Rightarrow> bool) \<Rightarrow> ControlPlaneConfig \<Rightarrow> (('db, 'p, 'h) rebuilt, error option) go" where
  "ReconstructState w lib rnd early config =
     (if \<not> cpc_Reconstruct config then gthen (reviseLoadBalancer lib rnd) (gret None)
      else unless_error (on_control (reconstructDataplaneState w))
        (gbind (on_control (reconstructWorkersState w)) (\<lambda>r. case r of
           Inl err \<Rightarrow> gret (Some err)
         | Inr wns \<Rightarrow>
             gthen (reviseLoadBalancer lib rnd)
               (gthen (on_control (reconnectAll w (filter early wns)))
                 (unless_error (on_control (reconstructServiceState w))
                   (unless_error (on_control (reconstructEndpointsState w))
                     (gbind (on_control (on_db (pl_SetLeader (w_pl w)))) (\<lambda>err.
                        gthen (on_control (reconnectAll w (filter (\<lambda>n. \<not> early n) wns))) (gret err)))))))))"


section \<open>What is restored\<close>

definition persisted :: "('db, 'p) world \<Rightarrow> 'db \<Rightarrow> DataplaneInformation list \<Rightarrow> WorkerNodeInformation list \<Rightarrow> ServiceInfo list \<Rightarrow> bool" where
  \<comment> \<open>what the persistence layer has, and that it can be read\<close>
  "persisted w db ds ws ss \<longleftrightarrow> pl_GetDataPlaneInformation (w_pl w) db = Ret (Inr ds) db \<and>
     pl_GetWorkerNodeInformation (w_pl w) db = Ret (Inr ws) db \<and> pl_GetServiceInformation (w_pl w) db = Ret (Inr ss) db \<and>
     (\<forall>db. runs (pl_SetLeader (w_pl w)) db (\<lambda>err _. err = None)) \<and> distinct (map di_Address ds)"

definition reachable :: "('db, 'p) world \<Rightarrow> bool" where
  \<comment> \<open>connections are made and the worker nodes list their sandboxes\<close>
  "reachable w \<longleftrightarrow> (\<forall>a. w_dial w a) \<and> (\<forall>i name. w_list w i name \<noteq> None)"

definition rebuiltDataplane :: "('db, 'p) world \<Rightarrow> DataplaneInformation \<Rightarrow> DataPlaneConnectionInfo" where
  "rebuiltDataplane w i = (NewDataplaneConnection (w_now w) (di_Address i) (di_ApiPort i) (di_ProxyPort i))\<lparr>dc_Iface := w_dial w (di_Address i)\<rparr>"

lemma reconstructDataplaneState_runs:
  assumes "pl_GetDataPlaneInformation (w_pl w) (cp_db c) = Ret (Inr ds) (cp_db c)"
  shows "runs (reconstructDataplaneState w) c Q =
     Q None (c\<lparr>DataPlaneConnections := fold (\<lambda>i. Structure_Set (di_Address i) (rebuiltDataplane w i)) ds (DataPlaneConnections c)\<rparr>)"
proof -
  let ?body = "\<lambda>i. case InitializeDataPlaneConnection (w_dial w (di_Address i))
        (NewDataplaneConnection (w_now w) (di_Address i) (di_ApiPort i) (di_ProxyPort i)) of
      Ret _ conn \<Rightarrow> gthen (on_dp (gmodify (Structure_Set (di_Address i) conn))) (gret (None :: unit option))
    | _ \<Rightarrow> gpanic ''unreachable''"
  have loop: "grange ds ?body c' = Ret None (fold (\<lambda>i c. c\<lparr>DataPlaneConnections := Structure_Set (di_Address i) (rebuiltDataplane w i) (DataPlaneConnections c)\<rparr>) ds c')" for c'
    by (rule grange_fold) (simp add: InitializeDataPlaneConnection_def go_monad rebuiltDataplane_def)
  have state: "fold (\<lambda>i c. c\<lparr>DataPlaneConnections := Structure_Set (di_Address i) (rebuiltDataplane w i) (DataPlaneConnections c)\<rparr>) ds c' =
      c'\<lparr>DataPlaneConnections := fold (\<lambda>i. Structure_Set (di_Address i) (rebuiltDataplane w i)) ds (DataPlaneConnections c')\<rparr>" for c'
    by (induction ds arbitrary: c') simp_all
  show ?thesis
    unfolding reconstructDataplaneState_def runs_gbind runs_gzoom runs_Ret [of "pl_GetDataPlaneInformation (w_pl w)" "cp_db c", OF assms] sum.case runs_gthen
      runs_Ret [OF loop] runs_gret state by simp
qed

lemma fold_Set:
  assumes "\<And>x. x \<in> set xs \<Longrightarrow> dc_Iface (f x) \<and> dc_IP (f x) = k x" and "dps_inv st"
  shows "dps_inv (fold (\<lambda>x. Structure_Set (k x) (f x)) xs st)" and "lk (fold (\<lambda>x. Structure_Set (k x) (f x)) xs st) = lk st"
    and "ks (fold (\<lambda>x. Structure_Set (k x) (f x)) xs st) = ks st \<union> k ` set xs"
  using assms by (induction xs arbitrary: st) (auto simp: dps_inv_set)

lemma fold_Set_new:
  assumes "distinct (map k xs)" and "k ` set xs \<inter> ks st = {}"
  shows "InternalMap (fold (\<lambda>x. Structure_Set (k x) (f x)) xs st) = InternalMap st @ map (\<lambda>x. (k x, f x)) xs"
  using assms
proof (induction xs arbitrary: st)
  case (Cons x xs)
  have "InternalMap (Structure_Set (k x) (f x) st) = InternalMap st @ [(k x, f x)]"
    using Cons.prems by (simp add: Structure_Set_def ks_def gm_set_fresh)
  moreover have "k ` set xs \<inter> ks (Structure_Set (k x) (f x) st) = {}" using Cons.prems by auto
  ultimately show ?case using Cons by simp
qed simp

lemma registry_update_id [simp]: "reg_nodes_update (\<lambda>ns. ns) r = r" "reg_services_update (\<lambda>ns. ns) r = r"
  by simp_all

lemma reconnectWorker_keeps:
  assumes "cp_inv c" and "locks c = no_locks" and "w_dial w (wn_Name wn)" and "unlocked (wn_endpointMap wn)"
  shows "runs (reconnectWorker w wn) c (\<lambda>_ c'. cp_inv c' \<and> locks c' = locks c \<and> cp_Config c' = cp_Config c \<and> cp_db c' = cp_db c \<and>
     registry_of c' = reg_nodes_update (insert (wn_Name wn)) (registry_of c))"
proof -
  let ?wn = "ConnectToWorker True wn"
  have wn: "wn_wnConnection ?wn" "wn_Name ?wn = wn_Name wn" "unlocked (wn_endpointMap ?wn)"
    using assms(4) by (simp_all add: ConnectToWorker_def)
  have "services_inv (insert (wn_Name wn) (ks (NIStorage c))) (cp_next c) (SIStorage c)"
    using assms(1) by (auto simp: cp_inv_def intro: services_inv_mono)
  with assms wn unlocked_locks [OF assms(2)] show ?thesis
    by (auto simp: reconnectWorker_def with_ni_lock_def wp Let_def cp_views unlocked_lk lk_def intro!: nodes_inv_set)
qed

lemma reconnectAll_keeps:
  assumes "cp_inv c" and "locks c = no_locks" and "\<And>a. w_dial w a" and "\<And>wn. wn \<in> set wns \<Longrightarrow> unlocked (wn_endpointMap wn)"
  shows "runs (reconnectAll w wns) c (\<lambda>_ c'. cp_inv c' \<and> locks c' = no_locks \<and> cp_Config c' = cp_Config c \<and> cp_db c' = cp_db c \<and>
     registry_of c' = reg_nodes_update (\<lambda>ns. ns \<union> wn_Name ` set wns) (registry_of c))"
proof -
  define I :: "WorkerNode list \<Rightarrow> ('a, 'b) ControlPlane \<Rightarrow> bool" where "I = (\<lambda>wns' c'. cp_inv c' \<and> locks c' = no_locks \<and> cp_Config c' = cp_Config c \<and>
     cp_db c' = cp_db c \<and> set wns' \<subseteq> set wns \<and>
     reg_nodes_update (\<lambda>ns. ns \<union> wn_Name ` set wns') (registry_of c') = reg_nodes_update (\<lambda>ns. ns \<union> wn_Name ` set wns) (registry_of c))"
  have "runs (grange wns (\<lambda>wn. gthen (reconnectWorker w wn) (gret (None :: unit option)))) c (\<lambda>r c'. r = None \<and> I [] c')"
  proof (rule runs_grange)
    show "I wns c" using assms by (simp add: I_def)
  next
    fix wn wns' c'
    assume I: "I (wn # wns') c'"
    then have "cp_inv c'" "locks c' = no_locks" "unlocked (wn_endpointMap wn)" using assms(4) by (auto simp: I_def)
    from reconnectWorker_keeps [OF this(1,2) assms(3) this(3)]
    show "runs (gthen (reconnectWorker w wn) (gret (None :: unit option))) c' (\<lambda>r c'. r = None \<and> I wns' c')"
      unfolding runs_gthen runs_gret by (rule runs_mono) (use I in \<open>simp add: I_def comp_def\<close>)
  qed
  then show ?thesis unfolding reconnectAll_def runs_gthen runs_gret by (rule runs_mono) (simp add: I_def)
qed


lemma reconstructServiceState_keeps:
  assumes "cp_inv c" and "locks c = no_locks" and "pl_GetServiceInformation (w_pl w) (cp_db c) = Ret (Inr ss) (cp_db c)"
  shows "runs (reconstructServiceState w) c (\<lambda>err c'. err = None \<and> cp_inv c' \<and> locks c' = no_locks \<and>
     registry_of c' = reg_services_update (\<lambda>ns. ns \<union> si_Name ` set ss) (registry_of c))"
proof -
  define I :: "ServiceInfo list \<Rightarrow> ('a, 'b) ControlPlane \<Rightarrow> bool" where "I = (\<lambda>ss' c'. cp_inv c' \<and> locks c' = no_locks \<and>
     reg_services_update (\<lambda>ns. ns \<union> si_Name ` set ss') (registry_of c') = reg_services_update (\<lambda>ns. ns \<union> si_Name ` set ss) (registry_of c))"
  have loop: "runs (grange ss (\<lambda>service. gthen (with_si_lock (notifyDataplanesAndStartScalingLoop w service True)) (gret (None :: unit option)))) c
     (\<lambda>r c'. r = None \<and> I [] c')"
  proof (rule runs_grange)
    show "I ss c" using assms by (simp add: I_def)
  next
    fix s ss' c'
    assume I: "I (s # ss') c'"
    then have c': "cp_inv c'" "locks c' = no_locks" by (simp_all add: I_def)
    let ?c = "c'\<lparr>SIStorage := (SIStorage c')\<lparr>wlocked := True\<rparr>\<rparr>"
    have "cp_inv ?c" "unlocked (DataPlaneConnections ?c)" "registry_of ?c = registry_of c'"
      using c' unlocked_locks [OF c'(2)] by (simp_all add: cp_views)
    from notify_runs [OF this(1,2), of w s True] this(3)
    have "keeps (notifyDataplanesAndStartScalingLoop w s True) ?c (\<lambda>_ reg. reg = reg_services_update (insert (si_Name s)) (registry_of c'))"
      unfolding keeps_def by (auto elim!: runs_mono)
    from keeps_si_lock [OF _ this] unlocked_locks [OF c'(2)]
    have "runs (with_si_lock (notifyDataplanesAndStartScalingLoop w s True)) c' (\<lambda>_ c''. cp_inv c'' \<and> locks c'' = locks c' \<and>
       registry_of c'' = reg_services_update (insert (si_Name s)) (registry_of c'))" by (simp add: keeps_def)
    then show "runs (gthen (with_si_lock (notifyDataplanesAndStartScalingLoop w s True)) (gret (None :: unit option))) c' (\<lambda>r c'. r = None \<and> I ss' c')"
      unfolding runs_gthen runs_gret by (rule runs_mono) (use I in \<open>simp add: I_def comp_def\<close>)
  qed
  show ?thesis
    unfolding reconstructServiceState_def runs_gbind runs_gzoom runs_Ret [of "pl_GetServiceInformation (w_pl w)" "cp_db c", OF assms(3)] sum.case runs_gthen runs_gret
    using loop by simp (auto elim!: runs_mono simp: I_def)
qed

lemma listAllEndpoints_runs:
  assumes "\<And>i name. w_list w i name \<noteq> None"
  shows "runs (listAllEndpoints w nodes) c (\<lambda>_ c'. \<exists>calls. c' = c\<lparr>cp_calls := calls\<rparr>)"
proof (induction nodes arbitrary: c)
  case Nil
  show ?case by (simp add: wp) (metis ControlPlane.surjective ControlPlane.update_convs(7))
next
  case (Cons n nodes)
  have "runs (listEndpoints w n) c (\<lambda>_ c'. \<exists>calls. c' = c\<lparr>cp_calls := calls\<rparr>)"
  proof (cases "wn_wnConnection n")
    case True
    then show ?thesis using assms [of "length (cp_calls c)" "wn_Name n"] by (auto simp: listEndpoints_def wp)
  next
    case False
    then show ?thesis by (simp add: listEndpoints_def wp) (metis ControlPlane.surjective ControlPlane.update_convs(7))
  qed
  then show ?case unfolding listAllEndpoints.simps runs_gbind runs_gret
  proof (rule runs_mono)
    fix es c'
    assume "\<exists>calls. c' = c\<lparr>cp_calls := calls\<rparr>"
    then show "runs (listAllEndpoints w nodes) c' (\<lambda>_ c''. \<exists>calls. c'' = c\<lparr>cp_calls := calls\<rparr>)"
      by (intro runs_mono [OF Cons.IH]) auto
  qed
qed

lemma updateEndpoints_runs:
  assumes "dps_inv (DataPlaneConnections c)" and "unlocked (DataPlaneConnections c)"
  shows "runs (updateEndpoints w info eps) c Q = Q () (c\<lparr>cp_calls := cp_calls c @ endpoint_updates info eps (DataPlaneConnections c)\<rparr>)"
proof -
  have "(DataPlaneConnections c)\<lparr>wlocked := False\<rparr> = DataPlaneConnections c" using assms(2) by (simp add: unlocked_def)
  then show ?thesis
    using assms by (simp add: updateEndpoints_def wp runs_singlethread endpoint_updates_def)
qed


lemma attachEndpoint_runs:
  fixes c :: "('db, 'p) ControlPlane"
  assumes inv: "cp_inv c" and free: "locks c = no_locks" and n: "nodeName \<in> ks (NIStorage c)"
    and ss: "service_inv (ks (NIStorage c)) a (k, ss)" and e: "ep_addr e = a" "ep_Node e = Some nodeName"
  shows "runs (attachEndpoint w e nodeName) (ss, c) (\<lambda>_ s. service_inv (ks (NIStorage c)) (Suc a) (k, fst s) \<and>
     cp_inv (snd s) \<and> locks (snd s) = no_locks \<and> cp_db (snd s) = cp_db c \<and> cp_next (snd s) = cp_next c \<and>
     SIStorage (snd s) = SIStorage c \<and> registry_of (snd s) = registry_of c)"
proof -
  obtain node where node: "Structure_Get (NIStorage c) nodeName = Some node" using ks_Some [OF n] by blast
  have un: "unlocked (wn_endpointMap node)" "wn_Name node = nodeName" using nodes_inv_Get [OF _ node] inv by (simp_all add: cp_inv_def)
  define node' where "node' = node\<lparr>wn_endpointMap := Structure_Set e (si_Name (ss_ServiceInfo ss)) (wn_endpointMap node)\<rparr>"
  define c1 where "c1 = c\<lparr>NIStorage := Structure_Set nodeName node' (NIStorage c)\<rparr>"
  note ul = unlocked_locks [OF free]
  have ni: "(NIStorage c)\<lparr>rlocks := rlocks (NIStorage c)\<rparr> = NIStorage c" by simp
  have "unlocked (wn_endpointMap node')" "wn_Name node' = nodeName"
    using un by (simp_all add: node'_def unlocked_lk)
  then have "nodes_inv (NIStorage c1)" using inv by (auto simp: c1_def cp_inv_def)
  then have c1: "cp_inv c1" "locks c1 = no_locks" "registry_of c1 = registry_of c" "dps_inv (DataPlaneConnections c1)" "unlocked (DataPlaneConnections c1)"
    using inv free ul n by (auto simp: c1_def cp_views insert_absorb)
  have map: "runs (on_node nodeName (on_endpoint_map (Structure_AtomicSet e x))) c Q = Q () (c\<lparr>NIStorage := Structure_Set nodeName
      (node\<lparr>wn_endpointMap := Structure_Set e x (wn_endpointMap node)\<rparr>) (NIStorage c)\<rparr>)" for x Q
    unfolding runs_on_node [OF node] runs_gzoom by (simp add: runs_def Structure_AtomicSet_unlocked [OF un(1)])
  have lockE: "\<not> EndpointLock (ss_Controller ss)" using ss by (simp add: service_inv_def)
  have frame: "cp_inv (c1\<lparr>cp_calls := x\<rparr>)" "locks (c1\<lparr>cp_calls := x\<rparr>) = no_locks" "registry_of (c1\<lparr>cp_calls := x\<rparr>) = registry_of c"
    "cp_db (c1\<lparr>cp_calls := x\<rparr>) = cp_db c" "cp_next (c1\<lparr>cp_calls := x\<rparr>) = cp_next c" "SIStorage (c1\<lparr>cp_calls := x\<rparr>) = SIStorage c" for x
    using c1 by (simp_all add: cp_views c1_def)
  have start: "runs Controller_Start as Q = Q (AutoscalingRunning as = 0)
      (if AutoscalingRunning as = 0 then as\<lparr>AutoscalingRunning := 1, StopCh := Some 0\<rparr> else as)" for as Q
    by (simp add: runs_def Controller_Start_def)
  have "nodeName \<in> ks (NIStorage c)" by fact
  then show ?thesis
    unfolding attachEndpoint_def
    using ul lockE frame ss e
    by (simp add: wp unlocked_def map updateEndpoints_runs [OF c1(4,5)] c1_def [symmetric] node'_def [symmetric] start)
      (auto simp: service_inv_def endpoints_inv_def addActualScale_def less_Suc_eq)
qed


lemma services_inv_next: "services_inv nodes nxt st \<Longrightarrow> services_inv nodes (Suc nxt) st"
  unfolding services_inv_def service_inv_def endpoints_inv_def by (meson less_SucI)

lemma reconstructEndpoint_keeps:
  assumes inv: "cp_inv c" and free: "locks c = no_locks"
  shows "runs (reconstructEndpoint w e) c (\<lambda>_ c'. cp_inv c' \<and> locks c' = no_locks \<and> cp_db c' = cp_db c \<and> registry_of c' = registry_of c)"
proof -
  note ul = unlocked_locks [OF free]
  have rl: "(NIStorage c)\<lparr>rlocks := 0\<rparr> = NIStorage c" "(SIStorage c)\<lparr>rlocks := 0\<rparr> = SIStorage c" using ul by (simp_all add: unlocked_def)
  let ?c = "c\<lparr>cp_next := cp_next c + 1\<rparr>"
  have get: "Structure_Get (st\<lparr>rlocks := k\<rparr>) = Structure_Get st" "Structure_Present (st\<lparr>rlocks := k\<rparr>) = Structure_Present st"
    for st :: "('k, 'v) Structure" and k
    by (simp_all add: Structure_Get_def Structure_Present_def fun_eq_iff)
  have c1: "cp_inv ?c" "locks ?c = no_locks" "registry_of ?c = registry_of c" using inv free by (auto simp: cp_views intro: services_inv_next)
  show ?thesis
  proof (cases "Structure_Get (NIStorage c) (pe_NodeName e)")
    case None
    with inv free ul show ?thesis by (simp add: reconstructEndpoint_def wp unlocked_def get rl)
  next
    case (Some n)
    then have n: "wn_Name n = pe_NodeName e" "pe_NodeName e \<in> ks (NIStorage c)"
      using inv by (auto simp: cp_inv_def dest: nodes_inv_Get ks_Get)
    show ?thesis
    proof (cases "Structure_Present (SIStorage c) (pe_ServiceName e)")
      case False
      with Some c1 ul show ?thesis by (simp add: reconstructEndpoint_def wp unlocked_def get rl)
    next
      case True
      then obtain ss where ss: "Structure_Get (SIStorage c) (pe_ServiceName e) = Some ss" by (auto simp: ks_Present dest: ks_Some)
      have si: "service_inv (ks (NIStorage ?c)) (cp_next c) (pe_ServiceName e, ss)"
        using inv ss by (auto simp: cp_inv_def dest: services_inv_Get)
      let ?e = "reconstructedEndpoint (cp_next c) n e"
      have att: "runs (attachEndpoint w ?e (wn_Name n)) (ss, ?c) (\<lambda>_ s. service_inv (ks (NIStorage ?c)) (Suc (cp_next c)) (pe_ServiceName e, fst s) \<and>
        cp_inv (snd s) \<and> locks (snd s) = no_locks \<and> cp_db (snd s) = cp_db ?c \<and> cp_next (snd s) = cp_next ?c \<and>
        SIStorage (snd s) = SIStorage ?c \<and> registry_of (snd s) = registry_of ?c)"
        by (rule attachEndpoint_runs [OF c1(1,2) _ si]) (use n in \<open>simp_all add: reconstructedEndpoint_def\<close>)
      have ss': "Structure_Get (SIStorage ?c) (pe_ServiceName e) = Some ss" using ss by simp
      have "runs (on_service (pe_ServiceName e) (attachEndpoint w ?e (wn_Name n))) ?c (\<lambda>_ c'. cp_inv c' \<and> locks c' = no_locks \<and>
        cp_db c' = cp_db c \<and> registry_of c' = registry_of c)"
        unfolding runs_on_service [OF ss']
      proof (rule runs_mono [OF att])
        fix x s
        assume s: "service_inv (ks (NIStorage ?c)) (Suc (cp_next c)) (pe_ServiceName e, fst s) \<and>
          cp_inv (snd s) \<and> locks (snd s) = no_locks \<and> cp_db (snd s) = cp_db ?c \<and> cp_next (snd s) = cp_next ?c \<and>
          SIStorage (snd s) = SIStorage ?c \<and> registry_of (snd s) = registry_of ?c"
        moreover have "ks (NIStorage (snd s)) = ks (NIStorage c)" using s by (simp add: registry_of_def)
        ultimately show "cp_inv ((snd s)\<lparr>SIStorage := Structure_Set (pe_ServiceName e) (fst s) (SIStorage (snd s))\<rparr>) \<and>
          locks ((snd s)\<lparr>SIStorage := Structure_Set (pe_ServiceName e) (fst s) (SIStorage (snd s))\<rparr>) = no_locks \<and>
          cp_db ((snd s)\<lparr>SIStorage := Structure_Set (pe_ServiceName e) (fst s) (SIStorage (snd s))\<rparr>) = cp_db c \<and>
          registry_of ((snd s)\<lparr>SIStorage := Structure_Set (pe_ServiceName e) (fst s) (SIStorage (snd s))\<rparr>) = registry_of c"
          using ks_Get [OF ss] by (auto simp: cp_views insert_absorb)
      qed
      with Some True ul show ?thesis by (simp add: reconstructEndpoint_def wp unlocked_def get rl)
    qed
  qed
qed

lemma reconstructEndpointsState_keeps:
  assumes inv: "cp_inv c" and free: "locks c = no_locks" and w: "\<And>i name. w_list w i name \<noteq> None"
  shows "runs (reconstructEndpointsState w) c (\<lambda>err c'. err = None \<and> cp_inv c' \<and> locks c' = no_locks \<and> cp_db c' = cp_db c \<and> registry_of c' = registry_of c)"
  unfolding reconstructEndpointsState_def runs_gbind runs_gget
proof (rule runs_mono [OF listAllEndpoints_runs [OF w]])
  fix es c'
  let ?I = "\<lambda>_ :: ProtoEndpoint list. \<lambda>c' :: ('a, 'b) ControlPlane. cp_inv c' \<and> locks c' = no_locks \<and> cp_db c' = cp_db c \<and> registry_of c' = registry_of c"
  assume "\<exists>calls. c' = c\<lparr>cp_calls := calls\<rparr>"
  then have "?I es c'" using inv free by (auto simp: cp_views)
  then have "runs (grange es (\<lambda>e. gthen (reconstructEndpoint w e) (gret (None :: unit option)))) c' (\<lambda>r c''. r = None \<and> ?I [] c'')"
  proof (rule runs_grange)
    fix e es c'
    assume "?I (e # es) c'"
    then have "cp_inv c'" "locks c' = no_locks" "cp_db c' = cp_db c" "registry_of c' = registry_of c" by simp_all
    with reconstructEndpoint_keeps [OF this(1,2), of w e]
    show "runs (gthen (reconstructEndpoint w e) (gret (None :: unit option))) c' (\<lambda>r c''. r = None \<and> ?I es c'')"
      unfolding runs_gthen runs_gret by (auto elim!: runs_mono)
  qed
  then show "runs (gthen (grange es (\<lambda>e. gthen (reconstructEndpoint w e) (gret (None :: unit option)))) (gret None)) c' (\<lambda>err c'. err = None \<and>
     cp_inv c' \<and> locks c' = no_locks \<and> cp_db c' = cp_db c \<and> registry_of c' = registry_of c)"
    unfolding runs_gthen runs_gret by (rule runs_mono) simp
qed


lemma reviseLoadBalancer_runs:
  assumes hp: "haproxy_laws lib view" "haproxy_works lib view" "haproxy_up lib" "cached view rnd [] api" "inj rnd"
    and dp: "unlocked (DataPlaneConnections c)"
    and ok: "\<forall>a \<in> proxyAddress ` snd ` set (InternalMap (DataPlaneConnections c)) \<union>
      set (cpc_RegistrationServer (cp_Config c) # cpc_RegistrationServerReplicas (cp_Config c)). address_ok a"
  shows "runs (reviseLoadBalancer lib rnd) (c, Some api) (\<lambda>_ s. \<exists>api'. s = (c, Some api') \<and>
     srv_url ` set (dps view [] api') = proxyAddress ` snd ` set (InternalMap (DataPlaneConnections c)) \<and>
     map srv_url (rss view [] api') = cpc_RegistrationServer (cp_Config c) # cpc_RegistrationServerReplicas (cp_Config c))"
proof -
  let ?ds = "map proxyAddress (Structure_GetValues (DataPlaneConnections c))"
  let ?rs = "cpc_RegistrationServer (cp_Config c) # cpc_RegistrationServerReplicas (cp_Config c)"
  have vals: "set ?ds = proxyAddress ` snd ` set (InternalMap (DataPlaneConnections c))"
    by (auto simp: Structure_GetValues_def Structure_GetMap_def)
  have "\<forall>a \<in> set ?ds \<union> set ?rs. address_ok a" using ok unfolding vals by simp
  from reviseBoth_runs [OF hp this]
  have "runs (reviseBoth lib rnd ?ds ?rs) api (\<lambda>_ api'. srv_url ` set (dps view [] api') = set ?ds \<and> map srv_url (rss view [] api') = ?rs)"
    by (rule runs_mono) (simp add: revised_def)
  moreover have "(DataPlaneConnections c)\<lparr>rlocks := 0\<rparr> = DataPlaneConnections c" using dp by (simp add: unlocked_def)
  moreover have "Structure_GetValues ((DataPlaneConnections c)\<lparr>rlocks := k\<rparr>) = Structure_GetValues (DataPlaneConnections c)" for k
    by (simp add: Structure_GetValues_def Structure_GetMap_def)
  ultimately show ?thesis
    using dp unfolding vals [symmetric]
    by (simp add: reviseLoadBalancer_def runs_def [of "\<lambda>s. reviseLoadBalancer lib rnd s"] HAProxyReconstructionCallback_def)
      (simp add: runs_def [symmetric] wp unlocked_def)
qed


lemma dataplanes_restored:
  assumes "distinct (map di_Address ds)" and "\<And>a. w_dial w a"
  defines "st \<equiv> fold (\<lambda>i. Structure_Set (di_Address i) (rebuiltDataplane w i)) ds NewControlPlaneSyncStructure"
  shows "dps_inv st" and "lk st = (False, 0)" and "ks st = di_Address ` set ds"
    and "proxyAddress ` snd ` set (InternalMap st) = (\<lambda>i. di_Address i @ '':'' @ di_ProxyPort i) ` set ds"
proof -
  let ?new = "NewControlPlaneSyncStructure :: (string, DataPlaneConnectionInfo) Structure"
  have new: "dps_inv ?new" "ks ?new = {}" "lk ?new = (False, 0)" "InternalMap ?new = []"
    by (simp_all add: NewControlPlaneSyncStructure_def dps_inv_def ks_def lk_def)
  have f: "dc_Iface (rebuiltDataplane w i) \<and> dc_IP (rebuiltDataplane w i) = di_Address i" for i
    using assms(2) by (simp add: rebuiltDataplane_def NewDataplaneConnection_def)
  show "dps_inv st" "lk st = (False, 0)" "ks st = di_Address ` set ds"
    unfolding st_def using fold_Set [where f = "rebuiltDataplane w" and k = di_Address and xs = ds, OF f new(1)] new by simp_all
  have "InternalMap st = map (\<lambda>i. (di_Address i, rebuiltDataplane w i)) ds"
    unfolding st_def using fold_Set_new [OF assms(1), of ?new] new by simp
  then show "proxyAddress ` snd ` set (InternalMap st) = (\<lambda>i. di_Address i @ '':'' @ di_ProxyPort i) ` set ds"
    by (simp add: image_image proxyAddress_def rebuiltDataplane_def NewDataplaneConnection_def)
qed

lemma runs_unless_error: "runs m s (\<lambda>err s'. err = None \<and> runs k s' Q) \<Longrightarrow> runs (unless_error m k) s Q"
  unfolding unless_error_def runs_gbind by (erule runs_mono) simp

definition rebuilds :: "(('db, 'p, 'h) rebuilt, error option) go \<Rightarrow> (registry \<Rightarrow> registry) \<Rightarrow> bool" where
  \<comment> \<open>a step of the reconstruction with its effect on what is registered\<close>
  "rebuilds m f \<longleftrightarrow> (\<forall>c lb. cp_inv c \<longrightarrow> locks c = no_locks \<longrightarrow> runs m (c, lb) (\<lambda>err s. err = None \<and> cp_inv (fst s) \<and>
     locks (fst s) = no_locks \<and> snd s = lb \<and> registry_of (fst s) = f (registry_of c)))"

lemma rebuildsD:
  assumes "rebuilds m f" and "cp_inv (fst s)" and "locks (fst s) = no_locks"
  shows "runs m s (\<lambda>err s'. err = None \<and> cp_inv (fst s') \<and> locks (fst s') = no_locks \<and> snd s' = snd s \<and> registry_of (fst s') = f (registry_of (fst s)))"
  using assms by (cases s) (simp add: rebuilds_def)

lemma rebuilds_unless_error:
  fixes m :: "(('db, 'p, 'h) rebuilt, error option) go"
  assumes "rebuilds m f" and "rebuilds k g"
  shows "rebuilds (unless_error m k) (\<lambda>r. g (f r))"
  unfolding rebuilds_def
proof (intro allI impI, rule runs_unless_error)
  fix c :: "('db, 'p) ControlPlane" and lb :: "'h API option"
  assume c: "cp_inv c" "locks c = no_locks"
  from rebuildsD [OF assms(1), of "(c, lb)"] c
  have "runs m (c, lb) (\<lambda>err s'. err = None \<and> cp_inv (fst s') \<and> locks (fst s') = no_locks \<and> snd s' = lb \<and> registry_of (fst s') = f (registry_of c))" by simp
  then show "runs m (c, lb) (\<lambda>err s'. err = None \<and> runs k s' (\<lambda>err s. err = None \<and> cp_inv (fst s) \<and> locks (fst s) = no_locks \<and>
     snd s = lb \<and> registry_of (fst s) = g (f (registry_of c))))"
  proof (rule runs_mono)
    fix err and s' :: "('db, 'p, 'h) rebuilt"
    assume s': "err = None \<and> cp_inv (fst s') \<and> locks (fst s') = no_locks \<and> snd s' = lb \<and> registry_of (fst s') = f (registry_of c)"
    with rebuildsD [OF assms(2), of s'] show "err = None \<and> runs k s' (\<lambda>err s. err = None \<and> cp_inv (fst s) \<and> locks (fst s) = no_locks \<and>
     snd s = lb \<and> registry_of (fst s) = g (f (registry_of c)))" by simp
  qed
qed

lemma rebuilds_endpoints:
  fixes w :: "('db, 'p) world"
  assumes "reachable w"
  shows "rebuilds (on_control (reconstructEndpointsState w) :: (('db, 'p, 'h) rebuilt, error option) go) (\<lambda>r. r)"
  unfolding rebuilds_def runs_gzoom fst_conv snd_conv
proof (intro allI impI)
  fix c :: "('db, 'p) ControlPlane" and lb :: "'h API option"
  assume c: "cp_inv c" "locks c = no_locks"
  have "w_list w i name \<noteq> None" for i name using assms by (simp add: reachable_def)
  from reconstructEndpointsState_keeps [OF c this]
  show "runs (reconstructEndpointsState w) c (\<lambda>err c'. err = None \<and> cp_inv c' \<and> locks c' = no_locks \<and> lb = lb \<and> registry_of c' = registry_of c)"
    by (rule runs_mono) simp
qed

lemma rebuilds_leader:
  fixes w :: "('db, 'p) world"
  assumes "reachable w" and "persisted w db ds ws ss" and "\<forall>n \<in> set wns. unlocked (wn_endpointMap n)"
  shows "rebuilds (gbind (on_control (on_db (pl_SetLeader (w_pl w)))) (\<lambda>err. gthen (on_control (reconnectAll w wns)) (gret err)))
     (reg_nodes_update (\<lambda>ns. ns \<union> wn_Name ` set wns))"
  unfolding rebuilds_def runs_gbind runs_gzoom fst_conv snd_conv runs_gthen runs_gret
proof (intro allI impI)
  fix c :: "('db, 'p) ControlPlane" and lb :: "'a API option"
  assume c: "cp_inv c" "locks c = no_locks"
  have "runs (pl_SetLeader (w_pl w)) (cp_db c) (\<lambda>err _. err = None)" using assms(2) by (simp add: persisted_def)
  then show "runs (pl_SetLeader (w_pl w)) (cp_db c) (\<lambda>err db. runs (reconnectAll w wns) (c\<lparr>cp_db := db\<rparr>) (\<lambda>_ c'. err = None \<and>
     cp_inv c' \<and> locks c' = no_locks \<and> lb = lb \<and> registry_of c' = reg_nodes_update (\<lambda>ns. ns \<union> wn_Name ` set wns) (registry_of c)))"
  proof (rule runs_mono)
    fix err db
    assume "err = (None :: string option)"
    have "cp_inv (c\<lparr>cp_db := db\<rparr>)" "locks (c\<lparr>cp_db := db\<rparr>) = no_locks" "registry_of (c\<lparr>cp_db := db\<rparr>) = registry_of c"
      using c by (simp_all add: cp_views)
    with reconnectAll_keeps [OF this(1,2), of w wns] assms(1,3) \<open>err = None\<close>
    show "runs (reconnectAll w wns) (c\<lparr>cp_db := db\<rparr>) (\<lambda>_ c'. err = None \<and>
     cp_inv c' \<and> locks c' = no_locks \<and> lb = lb \<and> registry_of c' = reg_nodes_update (\<lambda>ns. ns \<union> wn_Name ` set wns) (registry_of c))"
      by (auto simp: reachable_def elim!: runs_mono)
  qed
qed

lemma restore_nodes_and_services:
  fixes c :: "('db, 'p) ControlPlane" and lb :: "'h API option"
  assumes inv: "cp_inv c" and free: "locks c = no_locks" and w: "reachable w" and p: "persisted w (cp_db c) ds ws ss"
    and wns: "\<forall>n \<in> set wns. unlocked (wn_endpointMap n)"
  shows "runs (gthen (on_control (reconnectAll w (filter early wns)))
     (unless_error (on_control (reconstructServiceState w))
       (unless_error (on_control (reconstructEndpointsState w))
         (gbind (on_control (on_db (pl_SetLeader (w_pl w)))) (\<lambda>err.
            gthen (on_control (reconnectAll w (filter (\<lambda>n. \<not> early n) wns))) (gret err)))))) (c, lb)
     (\<lambda>err s. err = None \<and> cp_inv (fst s) \<and> locks (fst s) = no_locks \<and> snd s = lb \<and> registry_of (fst s) = (registry_of c)\<lparr>
        reg_nodes := reg_nodes (registry_of c) \<union> wn_Name ` set wns, reg_services := reg_services (registry_of c) \<union> si_Name ` set ss\<rparr>)"
  (is "runs (gthen _ (unless_error _ ?rest)) _ ?Q")
proof -
  let ?late = "filter (\<lambda>n. \<not> early n) wns" and ?early = "filter early wns"
  have rest: "rebuilds ?rest (reg_nodes_update (\<lambda>ns. ns \<union> wn_Name ` set ?late))"
    by (rule rebuilds_unless_error [OF rebuilds_endpoints [OF w] rebuilds_leader [OF w p]]) (use wns in simp)
  have names: "wn_Name ` set ?early \<union> wn_Name ` set ?late = wn_Name ` set wns" by auto
  show ?thesis
    unfolding runs_gthen runs_gzoom fst_conv snd_conv
  proof (rule runs_mono [OF reconnectAll_keeps [OF inv free]], goal_cases)
    case (3 x c1)
    then have c1: "cp_inv c1" "locks c1 = no_locks" "cp_db c1 = cp_db c"
      "registry_of c1 = reg_nodes_update (\<lambda>ns. ns \<union> wn_Name ` set ?early) (registry_of c)" by blast+
    have get: "pl_GetServiceInformation (w_pl w) (cp_db c1) = Ret (Inr ss) (cp_db c1)" using p c1(3) by (simp add: persisted_def)
    show ?case
    proof (rule runs_unless_error, unfold runs_gzoom fst_conv snd_conv, rule runs_mono [OF reconstructServiceState_keeps [OF c1(1,2) get]], intro conjI, simp)
      fix err and c2 :: "('db, 'p) ControlPlane"
      assume c2: "err = None \<and> cp_inv c2 \<and> locks c2 = no_locks \<and> registry_of c2 = reg_services_update (\<lambda>ns. ns \<union> si_Name ` set ss) (registry_of c1)"
      have "reg_nodes_update (\<lambda>ns. ns \<union> wn_Name ` set ?late) (registry_of c2) = (registry_of c)\<lparr>
        reg_nodes := reg_nodes (registry_of c) \<union> wn_Name ` set wns, reg_services := reg_services (registry_of c) \<union> si_Name ` set ss\<rparr>"
        using c2 c1(4) by (cases "registry_of c") (simp only: registry.simps names Un_assoc)
      with rebuildsD [OF rest, of "(c2, lb)"] c2 show "runs ?rest (c2, lb) ?Q" by (simp only: fst_conv snd_conv simp_thms)
    qed
  qed (use w wns in \<open>simp_all add: reachable_def\<close>)
qed


definition restored_cluster ::
  "('h \<Rightarrow> string \<Rightarrow> string \<Rightarrow> server list) \<Rightarrow> ControlPlaneConfig \<Rightarrow> DataplaneInformation list \<Rightarrow> WorkerNodeInformation list \<Rightarrow> ServiceInfo list \<Rightarrow>
   ('db, 'p) ControlPlane \<Rightarrow> 'h API option \<Rightarrow> bool" where
  \<comment> \<open>what is registered is what was persisted, and the load balancer has the machines\<close>
  "restored_cluster view cfg ds ws ss c lb \<longleftrightarrow> cp_inv c \<and> locks c = no_locks \<and>
     registry_of c = \<lparr>reg_dataplanes = di_Address ` set ds, reg_nodes = wi_Name ` set ws, reg_services = si_Name ` set ss\<rparr> \<and>
     (\<exists>api. lb = Some api \<and> srv_url ` set (dps view [] api) = (\<lambda>i. di_Address i @ '':'' @ di_ProxyPort i) ` set ds \<and>
        map srv_url (rss view [] api) = cpc_RegistrationServer cfg # cpc_RegistrationServerReplicas cfg)"

definition addresses_ok :: "ControlPlaneConfig \<Rightarrow> DataplaneInformation list \<Rightarrow> bool" where
  "addresses_ok cfg ds \<longleftrightarrow> (\<forall>i \<in> set ds. address_ok (di_Address i @ '':'' @ di_ProxyPort i)) \<and>
     (\<forall>a \<in> set (cpc_RegistrationServer cfg # cpc_RegistrationServerReplicas cfg). address_ok a)"

lemma restore_after_dataplanes:
  fixes api :: "'h API" and c :: "('db, 'p) ControlPlane" and w :: "('db, 'p) world"
  assumes stored: "persisted w (cp_db c) ds ws ss" and w: "reachable w"
    and hp: "haproxy_laws lib view" "haproxy_works lib view" "haproxy_up lib" "inj rnd" "cached view rnd [] api"
    and c: "cp_inv c" "locks c = no_locks" "cp_Config c = cfg" "unlocked (DataPlaneConnections c)"
      "proxyAddress ` snd ` set (InternalMap (DataPlaneConnections c)) = (\<lambda>i. di_Address i @ '':'' @ di_ProxyPort i) ` set ds"
      "registry_of c = \<lparr>reg_dataplanes = di_Address ` set ds, reg_nodes = {}, reg_services = {}\<rparr>"
    and ok: "addresses_ok cfg ds"
  defines "wns \<equiv> map (reconstructedNode w) ws"
  shows "runs (gthen (reviseLoadBalancer lib rnd) (gthen (on_control (reconnectAll w (filter early wns)))
     (unless_error (on_control (reconstructServiceState w)) (unless_error (on_control (reconstructEndpointsState w))
       (gbind (on_control (on_db (pl_SetLeader (w_pl w)))) (\<lambda>err.
          gthen (on_control (reconnectAll w (filter (\<lambda>n. \<not> early n) wns))) (gret err))))))) (c, Some api)
     (\<lambda>err s. err = None \<and> restored_cluster view cfg ds ws ss (fst s) (snd s))"
proof -
  have wns: "\<forall>n \<in> set wns. unlocked (wn_endpointMap n)" "wn_Name ` set wns = wi_Name ` set ws"
    by (auto simp: wns_def reconstructedNode_def NewWorkerNode_def NewControlPlaneSyncStructure_def unlocked_def image_image)
  have "\<forall>a \<in> proxyAddress ` snd ` set (InternalMap (DataPlaneConnections c)) \<union>
      set (cpc_RegistrationServer (cp_Config c) # cpc_RegistrationServerReplicas (cp_Config c)). address_ok a"
    using ok c(3) unfolding c(5) addresses_ok_def by auto
  note lb = reviseLoadBalancer_runs [OF hp(1-3,5,4) c(4) this, unfolded c(3,5)]
  note rest = restore_nodes_and_services [OF c(1,2) w stored wns(1), of early, unfolded wns(2) c(6)]
  show ?thesis
    unfolding runs_gthen [of "reviseLoadBalancer lib rnd"]
  proof (rule runs_mono [OF lb], elim exE conjE, hypsubst)
    fix api' :: "'h API"
    assume api': "srv_url ` set (dps view [] api') = (\<lambda>i. di_Address i @ '':'' @ di_ProxyPort i) ` set ds"
      "map srv_url (rss view [] api') = cpc_RegistrationServer cfg # cpc_RegistrationServerReplicas cfg"
    show "runs (gthen (on_control (reconnectAll w (filter early wns)))
     (unless_error (on_control (reconstructServiceState w)) (unless_error (on_control (reconstructEndpointsState w))
       (gbind (on_control (on_db (pl_SetLeader (w_pl w)))) (\<lambda>err.
          gthen (on_control (reconnectAll w (filter (\<lambda>n. \<not> early n) wns))) (gret err)))))) (c, Some api')
     (\<lambda>err s. err = None \<and> restored_cluster view cfg ds ws ss (fst s) (snd s))"
      unfolding restored_cluster_def
    proof (rule runs_mono [OF rest], elim conjE, intro conjI exI [of _ api'] api')
    qed (simp_all only: registry.simps Un_empty_left)
  qed
qed

lemma restore_cluster:
  fixes api :: "'h API" and p :: 'p and w :: "('db, 'p) world"
  assumes stored: "persisted w db ds ws ss" and w: "reachable w"
    and hp: "haproxy_laws lib view" "haproxy_works lib view" "haproxy_up lib" "inj rnd" "cached view rnd [] api"
    and cfg: "cpc_Reconstruct cfg" "\<not> cpc_PrecreateSnapshots cfg" and ok: "addresses_ok cfg ds"
  shows "runs (ReconstructState w lib rnd early cfg) (NewControlPlane db p cfg, Some api)
     (\<lambda>err s. err = None \<and> restored_cluster view cfg ds ws ss (fst s) (snd s))"
proof -
  have dial: "\<And>a. w_dial w a" using w by (simp add: reachable_def)
  define st where "st = fold (\<lambda>i. Structure_Set (di_Address i) (rebuiltDataplane w i)) ds NewControlPlaneSyncStructure"
  have "distinct (map di_Address ds)" using stored by (simp add: persisted_def)
  note st = dataplanes_restored [OF this, of w, OF dial, folded st_def]
  define c where "c = (NewControlPlane db p cfg)\<lparr>DataPlaneConnections := st\<rparr>"
  have c: "cp_inv c" "locks c = no_locks" "cp_db c = db" "cp_Config c = cfg" "unlocked (DataPlaneConnections c)" "DataPlaneConnections c = st"
    "registry_of c = \<lparr>reg_dataplanes = di_Address ` set ds, reg_nodes = {}, reg_services = {}\<rparr>"
    using st cfg(2) by (simp_all add: c_def NewControlPlane_def cp_views NewControlPlaneSyncStructure_def nodes_inv_def
        services_inv_def lk_def ks_def unlocked_def)
  have first: "runs (on_control (reconstructDataplaneState w)) (NewControlPlane db p cfg, Some api) Q = Q None (c, Some api)" for Q
    unfolding runs_gzoom using stored
    by (simp add: reconstructDataplaneState_runs [of w _ ds] persisted_def NewControlPlane_def c_def st_def)
  have get: "pl_GetWorkerNodeInformation (w_pl w) (cp_db c) = Ret (Inr ws) (cp_db c)" using stored c(3) by (simp add: persisted_def)
  have second: "runs (on_control (reconstructWorkersState w)) (c, Some api) Q = Q (Inr (map (reconstructedNode w) ws)) (c, Some api)" for Q
    unfolding runs_gzoom fst_conv snd_conv reconstructWorkersState_def runs_gbind
      runs_Ret [of "pl_GetWorkerNodeInformation (w_pl w)" "cp_db c", OF get] sum.case runs_gret by simp
  note rest = restore_after_dataplanes [OF stored [folded c(3)] w hp c(1,2,4,5) st(4) [folded c(6)] c(7) ok, of early]
  have conf: "\<not> \<not> cpc_Reconstruct cfg" using cfg(1) by simp
  show ?thesis
    unfolding ReconstructState_def if_not_P [OF conf]
    by (rule runs_unless_error) (use rest in \<open>simp only: first runs_gbind [of "on_control (reconstructWorkersState w)"] second sum.case simp_thms\<close>)
qed

section \<open>Properties\<close>

text \<open>
  C39. The reconstruction needs every worker node. When a node that is connected answers the listing of its
  sandboxes with an error, the control plane reads the fields of the missing list and panics, whatever the
  other nodes answer, although the error is meant to be logged and skipped.
\<close>

theorem reconstruction_needs_every_worker:
  assumes "n \<in> snd ` set (InternalMap (NIStorage c))" and "wn_wnConnection n" and "\<forall>i. w_list w i (wn_Name n) = None"
  shows "\<exists>c'. reconstructEndpointsState w c = Panic ''nil pointer dereference'' c'"
proof -
  have listing: "n \<in> set nodes \<Longrightarrow> \<exists>c'. listAllEndpoints w nodes c = Panic ''nil pointer dereference'' c'" for nodes c
  proof (induction nodes arbitrary: c)
    case (Cons m nodes)
    show ?case
    proof (cases "wn_wnConnection m \<and> w_list w (length (cp_calls c)) (wn_Name m) = None")
      case True
      then show ?thesis by (simp add: listEndpoints_def go_monad)
    next
      case False
      then have "n \<in> set nodes" using Cons.prems assms(2,3) by auto
      have "\<exists>es c'. listEndpoints w m c = Ret es c'" using False by (auto simp: listEndpoints_def go_monad)
      then obtain es c1 where es: "listEndpoints w m c = Ret es c1" by (elim exE)
      from Cons.IH [OF \<open>n \<in> set nodes\<close>, of c1] obtain c2 where "listAllEndpoints w nodes c1 = Panic ''nil pointer dereference'' c2" by (elim exE)
      with es show ?thesis by (simp add: go_monad)
    qed
  qed simp
  have "n \<in> set (Structure_GetValues (NIStorage c))" using assms(1) by (simp add: Structure_GetValues_def Structure_GetMap_def)
  from listing [OF this, of c] obtain c' where "listAllEndpoints w (Structure_GetValues (NIStorage c)) c = Panic ''nil pointer dereference'' c'"
    by (elim exE)
  then show ?thesis by (simp add: reconstructEndpointsState_def go_monad)
qed

theorem reconstruction_needs_every_worker_witness:
  "\<exists>c'. reconstructEndpointsState (demo_world (Random_Place id :: unit PlacementPolicy))
     ((NewControlPlane () () demo_config)\<lparr>NIStorage := Structure_Set ''node-1'' (ConnectToWorker True (demo_node ''node-1'' True)) NewControlPlaneSyncStructure\<rparr>)
     = Panic ''nil pointer dereference'' c'"
  by (rule reconstruction_needs_every_worker [of "ConnectToWorker True (demo_node ''node-1'' True)"])
    (simp_all add: Structure_Set_def NewControlPlaneSyncStructure_def gm_set_fresh ConnectToWorker_def demo_world_def)

end
