(* ===== verification/Api_Server.thy ===== *)
theory Api_Server
  imports Leader_Election Cluster_State Reconstruction
begin

text \<open>
  \<^verbatim>\<open>api/control_plane_api_server.go\<close> and \<^verbatim>\<open>cmd/master_node/state_management\<close>: the replicas of the control plane.
  A replica has its part of the leader election, its control plane and its manager of the load balancer.
  Every call that is not handled by the leader is forwarded, so a call is served by the replicas together: the
  state is the family of all of them. The client of a peer is an argument of a handler; \<open>serve\<close> closes the
  circle, with the number of hops as fuel.
\<close>

section \<open>The server of a replica\<close>

record ('db, 'p, 'h) CpApiServer =
  sv_LeaderElectionServer :: LeaderElectionServer
  sv_ControlPlane :: "('db, 'p) ControlPlane"
  sv_HAProxyAPI :: "'h API option"

type_synonym ('db, 'p, 'h) replicas = "int \<Rightarrow> ('db, 'p, 'h) CpApiServer"

record ('db, 'p, 'h) surroundings =
  \<comment> \<open>what a replica finds around it\<close>
  sr_world :: "int \<Rightarrow> ('db, 'p) world"
  sr_lib :: "'h haproxy"
  sr_rnd :: "nat \<Rightarrow> nat"
  sr_early :: "WorkerNode \<Rightarrow> bool"

abbreviation on_replica :: "int \<Rightarrow> (('db, 'p, 'h) CpApiServer, 'a) go \<Rightarrow> (('db, 'p, 'h) replicas, 'a) go" where
  "on_replica me m \<equiv> gzoom (\<lambda>s. s me) (\<lambda>t s. s(me := t)) m"

abbreviation on_les :: "(LeaderElectionServer, 'a) go \<Rightarrow> (('db, 'p, 'h) CpApiServer, 'a) go" where
  "on_les m \<equiv> gzoom sv_LeaderElectionServer (\<lambda>t s. s\<lparr>sv_LeaderElectionServer := t\<rparr>) m"

abbreviation on_control_plane :: "(('db, 'p) ControlPlane, 'a) go \<Rightarrow> (('db, 'p, 'h) CpApiServer, 'a) go" where
  "on_control_plane m \<equiv> gzoom sv_ControlPlane (\<lambda>t s. s\<lparr>sv_ControlPlane := t\<rparr>) m"

definition on_haproxy :: "('h API, 'a) go \<Rightarrow> (('db, 'p, 'h) CpApiServer, 'a) go" where
  "on_haproxy m s = (case sv_HAProxyAPI s of
       None \<Rightarrow> Panic ''nil pointer dereference'' s
     | Some api \<Rightarrow> gzoom (\<lambda>_. api) (\<lambda>t s. s\<lparr>sv_HAProxyAPI := Some t\<rparr>) m s)"

definition CreateNewCpApiServer ::
  "'h haproxy \<Rightarrow> 'h \<Rightarrow> 'db \<Rightarrow> 'p \<Rightarrow> ControlPlaneConfig \<Rightarrow> (int \<times> bool) list \<Rightarrow> (('db, 'p, 'h) CpApiServer, unit) outcome" where
  \<comment> \<open>\<open>attempts\<close>: the order in which connections to the other replicas are made\<close>
  "CreateNewCpApiServer lib h db p cfg attempts =
     (let cp = NewControlPlane db p cfg; port = fst (Atoi (cpc_Port cfg));
          server = (\<lambda>peers api. \<lparr>sv_LeaderElectionServer = NewServer (to_int32 port) peers, sv_ControlPlane = cp, sv_HAProxyAPI = api\<rparr>)
      in case ParseReplicaPorts cfg () of
           Ret peers _ \<Rightarrow> (case NewHAProxyAPI lib (cpc_LoadBalancerAddress cfg) h of
               Ret _ api \<Rightarrow> gwhen (cpc_Replicas cfg \<noteq> []) (on_les (EstablishLeaderElectionMesh (meshVotesNeeded (cpc_Replicas cfg)) attempts))
                  (server peers (Some api))
             | Panic e _ \<Rightarrow> Panic e (server peers None)
             | Blocked e _ \<Rightarrow> Blocked e (server peers None))
         | Panic e _ \<Rightarrow> Panic e (server [] None)
         | Blocked e _ \<Rightarrow> Blocked e (server [] None))"

definition CleanControlPlaneInMemoryData :: "ControlPlaneConfig \<Rightarrow> (('db, 'p, 'h) CpApiServer, unit) go" where
  \<comment> \<open>the persistence layer and the placement policy of the arguments are the ones the old control plane has\<close>
  "CleanControlPlaneInMemoryData cfg = gthen (on_control_plane StopAllScalingLoops)
     (on_control_plane (gmodify (\<lambda>c. NewControlPlane (cp_db c) (cp_PlacementPolicy c) cfg)))"

definition StartNodeMonitoringLoop :: "(('db, 'p, 'h) CpApiServer, bool) go" where
  \<comment> \<open>whether there is a channel to stop the loop\<close>
  "StartNodeMonitoringLoop = gget (\<lambda>s. LES_IsLeader (sv_LeaderElectionServer s))"

section \<open>Calls\<close>

datatype api_call =
    CallOnMetricsReceive AutoscalingMetric
  | CallListServices
  | CallRegisterNode NodeInfo
  | CallDeregisterNode NodeInfo
  | CallNodeHeartbeat NodeHeartbeatMessage
  | CallRegisterService ServiceInfo
  | CallDeregisterService ServiceInfo
  | CallRegisterDataplane DataplaneInfo
  | CallDeregisterDataplane DataplaneInfo
  | CallResetMeasurements
  | CallReportFailure Failure

datatype api_answer = StatusAnswer ActionStatus "error option" | ServicesAnswer "string list"

type_synonym ('db, 'p, 'h) peer_client = "int \<Rightarrow> api_call \<Rightarrow> (('db, 'p, 'h) replicas, api_answer) go"

definition at_leader ::
  "('db, 'p, 'h) peer_client \<Rightarrow> int \<Rightarrow> api_call \<Rightarrow> api_answer \<Rightarrow> (('db, 'p, 'h) replicas, api_answer) go \<Rightarrow> (('db, 'p, 'h) replicas, api_answer) go" where
  \<comment> \<open>how every handler starts: if not the leader forward the call, or give up when there is no leader\<close>
  "at_leader client me call nobody here =
     gbind (gget (\<lambda>s. LES_IsLeader (sv_LeaderElectionServer (s me)))) (\<lambda>isLeader.
       if \<not> isLeader then gbind (on_replica me (on_les GetLeader)) (\<lambda>leader. case leader of
           Some peer \<Rightarrow> client peer call
         | None \<Rightarrow> gret nobody)
       else here)"

abbreviation NoLeader :: api_answer where
  "NoLeader \<equiv> StatusAnswer Failed None"

abbreviation locally :: "int \<Rightarrow> (('db, 'p) ControlPlane, ActionStatus \<times> error option) go \<Rightarrow> (('db, 'p, 'h) replicas, api_answer) go" where
  "locally me m \<equiv> gbind (on_replica me (on_control_plane m)) (\<lambda>(status, err). gret (StatusAnswer status err))"

definition Api_OnMetricsReceive :: "('db, 'p, 'h) peer_client \<Rightarrow> int \<Rightarrow> AutoscalingMetric \<Rightarrow> (('db, 'p, 'h) replicas, api_answer) go" where
  "Api_OnMetricsReceive client me metric = at_leader client me (CallOnMetricsReceive metric) NoLeader
     (gbind (on_replica me (on_control_plane (OnMetricsReceive metric))) (\<lambda>(status, _). gret (StatusAnswer status None)))"

definition Api_ListServices :: "('db, 'p, 'h) peer_client \<Rightarrow> int \<Rightarrow> (('db, 'p, 'h) replicas, api_answer) go" where
  "Api_ListServices client me = at_leader client me CallListServices (ServicesAnswer [])
     (gbind (on_replica me (on_control_plane ListServices)) (\<lambda>names. gret (ServicesAnswer names)))"

definition Api_RegisterNode :: "('db, 'p, 'h) surroundings \<Rightarrow> ('db, 'p, 'h) peer_client \<Rightarrow> int \<Rightarrow> NodeInfo \<Rightarrow> (('db, 'p, 'h) replicas, api_answer) go" where
  "Api_RegisterNode v client me info = at_leader client me (CallRegisterNode info) NoLeader (locally me (RegisterNode (sr_world v me) info))"

definition Api_DeregisterNode :: "('db, 'p, 'h) surroundings \<Rightarrow> ('db, 'p, 'h) peer_client \<Rightarrow> int \<Rightarrow> NodeInfo \<Rightarrow> (('db, 'p, 'h) replicas, api_answer) go" where
  "Api_DeregisterNode v client me info = at_leader client me (CallDeregisterNode info) NoLeader (locally me (DeregisterNode (sr_world v me) info))"

definition Api_NodeHeartbeat :: "('db, 'p, 'h) surroundings \<Rightarrow> ('db, 'p, 'h) peer_client \<Rightarrow> int \<Rightarrow> NodeHeartbeatMessage \<Rightarrow> (('db, 'p, 'h) replicas, api_answer) go" where
  "Api_NodeHeartbeat v client me inp = at_leader client me (CallNodeHeartbeat inp) NoLeader (locally me (NodeHeartbeat (sr_world v me) inp))"

definition Api_RegisterService :: "('db, 'p, 'h) surroundings \<Rightarrow> ('db, 'p, 'h) peer_client \<Rightarrow> int \<Rightarrow> ServiceInfo \<Rightarrow> (('db, 'p, 'h) replicas, api_answer) go" where
  "Api_RegisterService v client me serviceInfo =
     at_leader client me (CallRegisterService serviceInfo) NoLeader (locally me (RegisterService (sr_world v me) serviceInfo))"

definition Api_DeregisterService :: "('db, 'p, 'h) surroundings \<Rightarrow> ('db, 'p, 'h) peer_client \<Rightarrow> int \<Rightarrow> ServiceInfo \<Rightarrow> (('db, 'p, 'h) replicas, api_answer) go" where
  "Api_DeregisterService v client me serviceInfo =
     at_leader client me (CallDeregisterService serviceInfo) NoLeader (locally me (DeregisterService (sr_world v me) serviceInfo))"

definition Api_ReviseHAProxyConfiguration :: "('db, 'p, 'h) surroundings \<Rightarrow> int \<Rightarrow> HAProxyConfig \<Rightarrow> (('db, 'p, 'h) replicas, ActionStatus) go" where
  "Api_ReviseHAProxyConfiguration v me args = on_replica me (on_haproxy (ReviseHAProxyConfiguration (sr_lib v) (sr_rnd v) args))"

definition Api_DisseminateHAProxyConfig :: "('db, 'p, 'h) surroundings \<Rightarrow> int \<Rightarrow> (('db, 'p, 'h) replicas, unit) go" where
  \<comment> \<open>the answer of a peer is not used, so only what the call does to the peer counts\<close>
  "Api_DisseminateHAProxyConfig v me =
     gbind (on_replica me (on_control_plane GetHAProxyConfig)) (\<lambda>cfg.
       gbind (gget (\<lambda>s. peerClients (sv_LeaderElectionServer (s me)))) (\<lambda>peers.
         DisseminateHAProxyConfig (\<lambda>peer cfg s. out_state (Api_ReviseHAProxyConfiguration v peer cfg s)) cfg peers))"

definition Api_RegisterDataplane :: "('db, 'p, 'h) surroundings \<Rightarrow> ('db, 'p, 'h) peer_client \<Rightarrow> int \<Rightarrow> DataplaneInfo \<Rightarrow> (('db, 'p, 'h) replicas, api_answer) go" where
  "Api_RegisterDataplane v client me inp = at_leader client me (CallRegisterDataplane inp) NoLeader
     (gbind (on_replica me (on_control_plane (RegisterDataplane (sr_world v me) inp))) (\<lambda>(status, err, isHeartbeat).
        gthen (gwhen (as_Success status \<and> err = None \<and> \<not> isHeartbeat)
            (gthen (on_replica me (on_haproxy (AddDataplane (sr_lib v) (sr_rnd v) (dpi_IP inp) (dpi_ProxyPort inp) True)))
              (Api_DisseminateHAProxyConfig v me)))
          (gret (StatusAnswer status err))))"

definition Api_DeregisterDataplane :: "('db, 'p, 'h) surroundings \<Rightarrow> ('db, 'p, 'h) peer_client \<Rightarrow> int \<Rightarrow> DataplaneInfo \<Rightarrow> (('db, 'p, 'h) replicas, api_answer) go" where
  "Api_DeregisterDataplane v client me inp = at_leader client me (CallDeregisterDataplane inp) NoLeader
     (gbind (on_replica me (on_control_plane (DeregisterDataplane (sr_world v me) inp))) (\<lambda>(status, err).
        gthen (gwhen (as_Success status \<and> err = None)
            (gthen (on_replica me (on_haproxy (RemoveDataplaneServer (sr_lib v) (dpi_IP inp) (dpi_ProxyPort inp) True)))
              (Api_DisseminateHAProxyConfig v me)))
          (gret (StatusAnswer status err))))"

definition Api_ReconstructState :: "('db, 'p, 'h) surroundings \<Rightarrow> int \<Rightarrow> ControlPlaneConfig \<Rightarrow> (('db, 'p, 'h) CpApiServer, error option) go" where
  "Api_ReconstructState v me config =
     gbind (gget (\<lambda>s. LES_IsLeader (sv_LeaderElectionServer s))) (\<lambda>isLeader.
       if \<not> isLeader then gret (Some ''cannot request cluster state reconstruction if not the leader'')
       else gzoom (\<lambda>s. (sv_ControlPlane s, sv_HAProxyAPI s)) (\<lambda>(c, api) s. s\<lparr>sv_ControlPlane := c, sv_HAProxyAPI := api\<rparr>)
              (ReconstructState (sr_world v me) (sr_lib v) (sr_rnd v) (sr_early v) config))"

definition Api_ResetMeasurements :: "('db, 'p, 'h) peer_client \<Rightarrow> int \<Rightarrow> (('db, 'p, 'h) replicas, api_answer) go" where
  \<comment> \<open>the file of the traces is written anew\<close>
  "Api_ResetMeasurements client me = at_leader client me CallResetMeasurements NoLeader
     (gthen (on_replica me (on_control_plane (gmodify (\<lambda>c. c\<lparr>cp_traces := []\<rparr>)))) (gret (StatusAnswer Success None)))"

definition Api_ReportFailure :: "('db, 'p, 'h) surroundings \<Rightarrow> ('db, 'p, 'h) peer_client \<Rightarrow> int \<Rightarrow> Failure \<Rightarrow> (('db, 'p, 'h) replicas, api_answer) go" where
  "Api_ReportFailure v client me inp = at_leader client me (CallReportFailure inp) NoLeader
     (gbind (on_replica me (on_control_plane (HandleFailure (sr_world v me) [inp]))) (\<lambda>ok.
        gret (StatusAnswer \<lparr>as_Success = ok, as_Message = []\<rparr> None)))"

definition Api_RequestVote :: "int \<Rightarrow> RequestVoteArgs \<Rightarrow> (('db, 'p, 'h) CpApiServer, RequestVoteReply option) go" where
  "Api_RequestVote now args = on_les (\<lambda>s. case LES_RequestVote now args s of (reply, s') \<Rightarrow> Ret reply s')"

definition Api_AppendEntries :: "int \<Rightarrow> AppendEntriesArgs \<Rightarrow> (('db, 'p, 'h) CpApiServer, AppendEntriesReply option) go" where
  "Api_AppendEntries now args = on_les (\<lambda>s. case LES_AppendEntries now args s of (reply, s') \<Rightarrow> Ret reply s')"

text \<open>A call as the replicas serve it: a handler forwards to the handlers of its peers.\<close>

fun serve :: "('db, 'p, 'h) surroundings \<Rightarrow> nat \<Rightarrow> int \<Rightarrow> api_call \<Rightarrow> (('db, 'p, 'h) replicas, api_answer) go" where
  "serve v 0 me call = gblock ''waiting for the answer of a peer''"
| "serve v (Suc hops) me call = (case call of
       CallOnMetricsReceive metric \<Rightarrow> Api_OnMetricsReceive (serve v hops) me metric
     | CallListServices \<Rightarrow> Api_ListServices (serve v hops) me
     | CallRegisterNode info \<Rightarrow> Api_RegisterNode v (serve v hops) me info
     | CallDeregisterNode info \<Rightarrow> Api_DeregisterNode v (serve v hops) me info
     | CallNodeHeartbeat inp \<Rightarrow> Api_NodeHeartbeat v (serve v hops) me inp
     | CallRegisterService info \<Rightarrow> Api_RegisterService v (serve v hops) me info
     | CallDeregisterService info \<Rightarrow> Api_DeregisterService v (serve v hops) me info
     | CallRegisterDataplane inp \<Rightarrow> Api_RegisterDataplane v (serve v hops) me inp
     | CallDeregisterDataplane inp \<Rightarrow> Api_DeregisterDataplane v (serve v hops) me inp
     | CallResetMeasurements \<Rightarrow> Api_ResetMeasurements (serve v hops) me
     | CallReportFailure inp \<Rightarrow> Api_ReportFailure v (serve v hops) me inp)"

fun api_session :: "nat \<Rightarrow> (('db, 'p, 'h) surroundings \<times> int \<times> api_call) list \<Rightarrow> (('db, 'p, 'h) replicas, api_answer list) go" where
  "api_session hops [] = gret []"
| "api_session hops ((v, me, call) # calls) = gbind (serve v hops me call) (\<lambda>a. gbind (api_session hops calls) (\<lambda>as. gret (a # as)))"

section \<open>Changes of the leader\<close>

record ('db, 'p, 'h) CurrentState =
  es_cpApiServer :: "('db, 'p, 'h) CpApiServer"
  es_stopNodeMonitoring :: bool
    \<comment> \<open>whether there is a channel\<close>
  es_wasLeaderBefore :: bool

abbreviation on_api_server :: "(('db, 'p, 'h) CpApiServer, 'a) go \<Rightarrow> (('db, 'p, 'h) CurrentState, 'a) go" where
  "on_api_server m \<equiv> gzoom es_cpApiServer (\<lambda>t s. s\<lparr>es_cpApiServer := t\<rparr>) m"

definition NewElectionState :: "('db, 'p, 'h) CpApiServer \<Rightarrow> ('db, 'p, 'h) CurrentState" where
  "NewElectionState cpApiServer = \<lparr>es_cpApiServer = cpApiServer, es_stopNodeMonitoring = False, es_wasLeaderBefore = False\<rparr>"

definition destroyStateFromPreviousElectionTerm :: "bool \<Rightarrow> ControlPlaneConfig \<Rightarrow> (('db, 'p, 'h) CurrentState, unit) go" where
  \<comment> \<open>\<open>listening\<close>: whether the monitoring loop receives from the channel, which has no buffer\<close>
  "destroyStateFromPreviousElectionTerm listening cfg =
     gthen (gbind (gget es_stopNodeMonitoring) (\<lambda>stop. gwhen (stop \<and> \<not> listening) (gblock ''send'')))
       (on_api_server (CleanControlPlaneInMemoryData cfg))"

definition reconstructControlPlaneState :: "('db, 'p, 'h) surroundings \<Rightarrow> int \<Rightarrow> ControlPlaneConfig \<Rightarrow> (('db, 'p, 'h) CurrentState, unit) go" where
  "reconstructControlPlaneState v me cfg = gbind (on_api_server (Api_ReconstructState v me cfg)) (\<lambda>err.
     case err of None \<Rightarrow> gret () | Some e \<Rightarrow> gpanic ''Failed to reconstruct state'')"

definition SetCurrentControlPlaneLeader :: "('db, 'p, 'h) surroundings \<Rightarrow> int \<Rightarrow> bool \<Rightarrow> ControlPlaneConfig \<Rightarrow> (('db, 'p, 'h) CurrentState, unit) go" where
  "SetCurrentControlPlaneLeader v me listening cfg =
     gthen (destroyStateFromPreviousElectionTerm listening cfg)
    (gthen (reconstructControlPlaneState v me cfg)
    (gbind (on_api_server StartNodeMonitoringLoop) (\<lambda>stop.
     gmodify (\<lambda>s. s\<lparr>es_stopNodeMonitoring := stop, es_wasLeaderBefore := True\<rparr>))))"

definition UpdateLeadership ::
  "('db, 'p, 'h) surroundings \<Rightarrow> int \<Rightarrow> bool \<Rightarrow> ControlPlaneConfig \<Rightarrow> AnnounceLeadership \<Rightarrow> (('db, 'p, 'h) CurrentState, unit) go" where
  "UpdateLeadership v me listening cfg leadership =
     gbind (gget es_wasLeaderBefore) (\<lambda>was.
       if al_IsLeader leadership \<and> \<not> was then SetCurrentControlPlaneLeader v me listening cfg
       else gthen (gwhen was (gthen (destroyStateFromPreviousElectionTerm listening cfg)
                     (gmodify (\<lambda>s. s\<lparr>es_stopNodeMonitoring := False\<rparr>))))
              (gmodify (\<lambda>s. s\<lparr>es_wasLeaderBefore := False\<rparr>)))"


section \<open>Served at the leader\<close>

definition led_by :: "('db, 'p, 'h) replicas \<Rightarrow> int \<Rightarrow> int \<Rightarrow> bool" where
  \<comment> \<open>the replica is the leader, or it knows the leader and has a connection to it\<close>
  "led_by s l me \<longleftrightarrow> me = l \<or> \<not> LES_IsLeader (sv_LeaderElectionServer (s me)) \<and>
     map_of (peerClients (sv_LeaderElectionServer (s me))) (GetLeaderID (les_cm (sv_LeaderElectionServer (s me)))) = Some l"

definition framed :: "int \<Rightarrow> ('db, 'p, 'h) replicas \<Rightarrow> ('db, 'p, 'h) replicas \<Rightarrow> bool" where
  \<comment> \<open>the election is where it was, and so are the control planes of the other replicas\<close>
  "framed l s s' \<longleftrightarrow> (\<forall>i. sv_LeaderElectionServer (s' i) = sv_LeaderElectionServer (s i)) \<and>
     (\<forall>i. i \<noteq> l \<longrightarrow> sv_ControlPlane (s' i) = sv_ControlPlane (s i))"

lemma framed_refl [simp]: "framed l s s"
  and framed_trans: "framed l s t \<Longrightarrow> framed l t u \<Longrightarrow> framed l s u"
  and framed_control [simp]: "framed l s (s(l := (s l)\<lparr>sv_ControlPlane := c\<rparr>))"
  and framed_haproxy [simp]: "framed l s (s(i := (s i)\<lparr>sv_HAProxyAPI := api\<rparr>))"
  by (simp_all add: framed_def)

lemma led_by_framed: "framed l s s' \<Longrightarrow> led_by s' l' me = led_by s l' me"
  by (simp add: framed_def led_by_def)

fun cp_serve :: "('db, 'p) world \<Rightarrow> api_call \<Rightarrow> (('db, 'p) ControlPlane, api_answer) go" where
  \<comment> \<open>a single control plane that serves a call\<close>
  "cp_serve w (CallOnMetricsReceive metric) = gbind (OnMetricsReceive metric) (\<lambda>(status, _). gret (StatusAnswer status None))"
| "cp_serve w CallListServices = gbind ListServices (\<lambda>names. gret (ServicesAnswer names))"
| "cp_serve w (CallRegisterNode info) = gbind (RegisterNode w info) (\<lambda>(status, err). gret (StatusAnswer status err))"
| "cp_serve w (CallDeregisterNode info) = gbind (DeregisterNode w info) (\<lambda>(status, err). gret (StatusAnswer status err))"
| "cp_serve w (CallNodeHeartbeat inp) = gbind (NodeHeartbeat w inp) (\<lambda>(status, err). gret (StatusAnswer status err))"
| "cp_serve w (CallRegisterService info) = gbind (RegisterService w info) (\<lambda>(status, err). gret (StatusAnswer status err))"
| "cp_serve w (CallDeregisterService info) = gbind (DeregisterService w info) (\<lambda>(status, err). gret (StatusAnswer status err))"
| "cp_serve w (CallRegisterDataplane inp) = gbind (RegisterDataplane w inp) (\<lambda>(status, err, _). gret (StatusAnswer status err))"
| "cp_serve w (CallDeregisterDataplane inp) = gbind (DeregisterDataplane w inp) (\<lambda>(status, err). gret (StatusAnswer status err))"
| "cp_serve w CallResetMeasurements = gthen (gmodify (\<lambda>c. c\<lparr>cp_traces := []\<rparr>)) (gret (StatusAnswer Success None))"
| "cp_serve w (CallReportFailure inp) = gbind (HandleFailure w [inp]) (\<lambda>ok. gret (StatusAnswer \<lparr>as_Success = ok, as_Message = []\<rparr> None))"

fun cp_serves :: "(('db, 'p) world \<times> api_call) list \<Rightarrow> (('db, 'p) ControlPlane, api_answer list) go" where
  "cp_serves [] = gret []"
| "cp_serves ((w, call) # calls) = gbind (cp_serve w call) (\<lambda>a. gbind (cp_serves calls) (\<lambda>as. gret (a # as)))"

definition serving :: "int \<Rightarrow> ('db, 'p, 'h) replicas \<Rightarrow> bool" where
  \<comment> \<open>the leader between two calls\<close>
  "serving l s \<longleftrightarrow> LES_IsLeader (sv_LeaderElectionServer (s l)) \<and> l \<notin> snd ` set (peerClients (sv_LeaderElectionServer (s l))) \<and>
     cp_inv (sv_ControlPlane (s l)) \<and> locks (sv_ControlPlane (s l)) = no_locks \<and>
     (\<exists>api. sv_HAProxyAPI (s l) = Some api \<and> \<not> api_mutex api)"

lemma AddDataplane_returns:
  assumes "haproxy_up lib" and "\<not> api_mutex api"
  shows "runs (AddDataplane lib rnd ip port r) api (\<lambda>_ api'. \<not> api_mutex api')"
    and "runs (RemoveDataplaneServer lib ip port r) api (\<lambda>_ api'. \<not> api_mutex api')"
proof -
  obtain v where v: "hp_GetVersion lib [] (api_client api) = Inr v" using assms(1) unfolding haproxy_up_def by blast
  show "runs (AddDataplane lib rnd ip port r) api (\<lambda>_ api'. \<not> api_mutex api')"
    using assms(2) by (simp add: AddDataplane_def addServer_def wp v randInt_def persistServerMetadata_def RestartHAProxy_def
        systemctl_def forceResetHAProxy_def Let_def split: option.split)
  show "runs (RemoveDataplaneServer lib ip port r) api (\<lambda>_ api'. \<not> api_mutex api')"
    using assms(2) by (simp add: RemoveDataplaneServer_def removeServerByName_def wp v RestartHAProxy_def
        systemctl_def forceResetHAProxy_def Let_def split: option.split)
qed

lemma Revise_framed: "framed l s (out_state (Api_ReviseHAProxyConfiguration v i cfg s))"
    "i \<noteq> l \<Longrightarrow> out_state (Api_ReviseHAProxyConfiguration v i cfg s) l = s l"
proof -
  have "\<exists>api. out_state (Api_ReviseHAProxyConfiguration v i cfg s) = s(i := (s i)\<lparr>sv_HAProxyAPI := api\<rparr>)"
  proof (cases "sv_HAProxyAPI (s i)")
    case None
    then have "s(i := (s i)\<lparr>sv_HAProxyAPI := None\<rparr>) = s" by (cases "s i") auto
    with None show ?thesis
      by (intro exI [of _ None]) (simp add: Api_ReviseHAProxyConfiguration_def on_haproxy_def go_monad)
  next
    case (Some api)
    then show ?thesis
      by (cases "ReviseHAProxyConfiguration (sr_lib v) (sr_rnd v) cfg api")
        (auto simp add: Api_ReviseHAProxyConfiguration_def on_haproxy_def go_monad)
  qed
  then obtain api where "out_state (Api_ReviseHAProxyConfiguration v i cfg s) = s(i := (s i)\<lparr>sv_HAProxyAPI := api\<rparr>)" by (elim exE)
  then show "framed l s (out_state (Api_ReviseHAProxyConfiguration v i cfg s))"
    "i \<noteq> l \<Longrightarrow> out_state (Api_ReviseHAProxyConfiguration v i cfg s) l = s l" by simp_all
qed

lemma Disseminate_runs:
  fixes s :: "('db, 'p, 'h) replicas"
  assumes "unlocked (DataPlaneConnections (sv_ControlPlane (s l)))" and "l \<notin> snd ` set (peerClients (sv_LeaderElectionServer (s l)))"
  shows "runs (Api_DisseminateHAProxyConfig v l) s (\<lambda>_ s'. framed l s s' \<and> s' l = s l)"
proof -
  let ?call = "\<lambda>peer cfg s. out_state (Api_ReviseHAProxyConfiguration v peer cfg s)"
  have loop: "runs (grange peers (\<lambda>(peer, conn). gthen (gmodify (?call conn cfg)) (gret (None :: unit option)))) s (\<lambda>r s'. framed l s s' \<and> s' l = s l)"
    if "l \<notin> snd ` set peers" for peers :: "(int \<times> int) list" and cfg
  proof -
    define I :: "(int \<times> int) list \<Rightarrow> ('db, 'p, 'h) replicas \<Rightarrow> bool"
      where "I = (\<lambda>ps s'. l \<notin> snd ` set ps \<and> framed l s s' \<and> s' l = s l)"
    have "runs (grange peers (\<lambda>(peer, conn). gthen (gmodify (?call conn cfg)) (gret (None :: unit option)))) s (\<lambda>r s'. r = None \<and> I [] s')"
    proof (rule runs_grange)
      show "I peers s" using that by (simp add: I_def)
    next
      fix p ps s'
      assume "I (p # ps) s'"
      then show "runs (case p of (peer, conn) \<Rightarrow> gthen (gmodify (?call conn cfg)) (gret (None :: unit option))) s' (\<lambda>r s''. r = None \<and> I ps s'')"
        by (cases p) (auto simp: I_def wp Revise_framed intro: framed_trans [OF _ Revise_framed(1)])
    qed
    then show ?thesis by (rule runs_mono) (simp add: I_def)
  qed
  have "(DataPlaneConnections (sv_ControlPlane (s l)))\<lparr>wlocked := False\<rparr> = DataPlaneConnections (sv_ControlPlane (s l))"
    using assms(1) by (simp add: unlocked_def)
  then have "s(l := (s l)\<lparr>sv_ControlPlane := (sv_ControlPlane (s l))\<lparr>DataPlaneConnections := (DataPlaneConnections (sv_ControlPlane (s l)))\<lparr>wlocked := False\<rparr>\<rparr>\<rparr>) = s"
    by (simp only:) simp
  then show ?thesis
    using assms loop [OF assms(2)]
    by (simp add: Api_DisseminateHAProxyConfig_def GetHAProxyConfig_def DisseminateHAProxyConfig_def wp unlocked_def)
qed


lemma runs_on_haproxy:
  assumes "sv_HAProxyAPI (s l) = Some api" and "runs m api (\<lambda>_ api'. \<not> api_mutex api')"
  shows "runs (on_replica l (on_haproxy m)) s (\<lambda>_ s'. \<exists>api'. s' = s(l := (s l)\<lparr>sv_HAProxyAPI := Some api'\<rparr>) \<and> \<not> api_mutex api')"
  using assms by (auto simp: runs_def on_haproxy_def gzoom_def split: outcome.splits)

lemma load_balancers_told:
  assumes s: "serving l s" and m: "\<And>api. \<not> api_mutex api \<Longrightarrow> runs m api (\<lambda>_ api'. \<not> api_mutex api')"
  shows "runs (gthen (on_replica l (on_haproxy m)) (Api_DisseminateHAProxyConfig v l)) s
     (\<lambda>_ s'. framed l s s' \<and> serving l s' \<and> sv_ControlPlane (s' l) = sv_ControlPlane (s l))"
proof -
  obtain api where api: "sv_HAProxyAPI (s l) = Some api" "\<not> api_mutex api" using s by (auto simp: serving_def)
  show ?thesis unfolding runs_gthen
  proof (rule runs_mono [OF runs_on_haproxy [where s = s and l = l, OF api(1) m [OF api(2)]]], elim exE conjE)
    fix s' api'
    assume s': "s' = s(l := (s l)\<lparr>sv_HAProxyAPI := Some api'\<rparr>)" and free: "\<not> api_mutex api'"
    have serving: "serving l s'" using s free by (simp add: serving_def s')
    then have "unlocked (DataPlaneConnections (sv_ControlPlane (s' l)))" "l \<notin> snd ` set (peerClients (sv_LeaderElectionServer (s' l)))"
      using unlocked_locks by (auto simp: serving_def)
    then show "runs (Api_DisseminateHAProxyConfig v l) s' (\<lambda>_ s'. framed l s s' \<and> serving l s' \<and> sv_ControlPlane (s' l) = sv_ControlPlane (s l))"
    proof (rule runs_mono [OF Disseminate_runs], elim conjE)
      fix x and s'' :: "('a, 'b, 'c) replicas"
      assume s'': "framed l s' s''" "s'' l = s' l"
      have "framed l s s'" by (simp add: s')
      from framed_trans [OF this s''(1)] serving s''(2)
      show "framed l s s'' \<and> serving l s'' \<and> sv_ControlPlane (s'' l) = sv_ControlPlane (s l)"
        by (simp add: serving_def s')
    qed
  qed
qed

definition served :: "int \<Rightarrow> ('db, 'p, 'h) replicas \<Rightarrow> (('db, 'p) ControlPlane, 'a) go \<Rightarrow> 'a \<Rightarrow> ('db, 'p, 'h) replicas \<Rightarrow> bool" where
  \<comment> \<open>the answer and the control plane are those of a single control plane\<close>
  "served l s m a s' \<longleftrightarrow> m (sv_ControlPlane (s l)) = Ret a (sv_ControlPlane (s' l)) \<and> framed l s s' \<and> serving l s'"

lemma control_plane_serves:
  assumes s: "serving l s" and m: "keeps m (sv_ControlPlane (s l)) P"
  shows "runs (on_replica l (on_control_plane m)) s (served l s m)"
proof -
  from m obtain x c' where c': "m (sv_ControlPlane (s l)) = Ret x c'" "cp_inv c'" "locks c' = locks (sv_ControlPlane (s l))"
    unfolding keeps_def by (elim runsE) simp
  then show ?thesis using s by (simp add: runs_def gzoom_def served_def serving_def)
qed

lemma served_bind:
  assumes "served l s m x s'" and "serving l t" and "framed l s' t" and "sv_ControlPlane (t l) = sv_ControlPlane (s' l)"
  shows "served l s (gbind m (\<lambda>x. gret (f x))) (f x) t"
  using assms framed_trans by (auto simp: served_def gbind_def gret_def)

lemma served_then:
  assumes "serving l s" and "keeps m (sv_ControlPlane (s l)) P"
    and "\<And>x s'. serving l s' \<Longrightarrow> runs (k x) s' (\<lambda>a t. a = f x \<and> framed l s' t \<and> serving l t \<and> sv_ControlPlane (t l) = sv_ControlPlane (s' l))"
  shows "runs (gbind (on_replica l (on_control_plane m)) k) s (served l s (gbind m (\<lambda>x. gret (f x))))"
  unfolding runs_gbind
proof (rule runs_mono [OF control_plane_serves [OF assms(1,2)]])
  fix x s'
  assume s': "served l s m x s'"
  then have "serving l s'" by (simp add: served_def)
  from assms(3) [OF this] show "runs (k x) s' (served l s (gbind m (\<lambda>x. gret (f x))))"
    by (rule runs_mono) (use s' in \<open>auto intro: served_bind\<close>)
qed

lemma served_answer:
  assumes "serving l s" and "keeps m (sv_ControlPlane (s l)) P"
  shows "runs (gbind (on_replica l (on_control_plane m)) (\<lambda>x. gret (f x))) s (served l s (gbind m (\<lambda>x. gret (f x))))"
  by (rule served_then [OF assms]) (simp add: wp)


lemmas api_handlers = Api_OnMetricsReceive_def Api_ListServices_def Api_RegisterNode_def Api_DeregisterNode_def Api_NodeHeartbeat_def
  Api_RegisterService_def Api_DeregisterService_def Api_RegisterDataplane_def Api_DeregisterDataplane_def Api_ResetMeasurements_def
  Api_ReportFailure_def

lemma at_leader_here: "LES_IsLeader (sv_LeaderElectionServer (s me)) \<Longrightarrow> at_leader client me call nobody here s = here s"
  by (simp add: at_leader_def go_monad)

lemma at_leader_forward:
  assumes "\<not> LES_IsLeader (sv_LeaderElectionServer (s me))"
    and "map_of (peerClients (sv_LeaderElectionServer (s me))) (GetLeaderID (les_cm (sv_LeaderElectionServer (s me)))) = Some l"
  shows "at_leader client me call nobody here s = client l call s"
  using assms by (simp add: at_leader_def go_monad GetLeader_def LES_IsLeader_def)

lemma serve_forward:
  assumes "led_by s l me" and "me \<noteq> l"
  shows "serve v (Suc hops) me call s = serve v hops l call s"
  using assms by (cases call) (simp_all add: led_by_def api_handlers at_leader_forward)

lemma runs_at_leader:
  "LES_IsLeader (sv_LeaderElectionServer (s me)) \<Longrightarrow> runs (at_leader client me call nobody here) s Q = runs here s Q"
  by (simp add: runs_def at_leader_here)

lemma serve_leader:
  assumes s: "serving l s" and w: "env_ok (sr_world v l)" and up: "haproxy_up (sr_lib v)"
  shows "runs (serve v (Suc hops) l call) s (served l s (cp_serve (sr_world v l) call))"
proof -
  let ?c = "sv_ControlPlane (s l)" and ?w = "sr_world v l"
  have l: "LES_IsLeader (sv_LeaderElectionServer (s l))" and inv: "cp_inv ?c" and free: "locks ?c = no_locks" using s by (simp_all add: serving_def)
  note here = runs_at_leader [where s = s and me = l, OF l] and answer = served_answer [OF s] and lb = load_balancers_told
  show ?thesis
  proof (cases call)
    case (CallRegisterDataplane inp)
    show ?thesis unfolding CallRegisterDataplane serve.simps api_call.case Api_RegisterDataplane_def here cp_serve.simps case_prod_unfold
      by (rule served_then [OF s RegisterDataplane_keeps [OF inv free w]])
        (auto simp: runs_gthen runs_gwhen runs_gret intro!: runs_mono [OF lb [OF _ AddDataplane_returns(1) [OF up], unfolded runs_gthen]])
  next
    case (CallDeregisterDataplane inp)
    show ?thesis unfolding CallDeregisterDataplane serve.simps api_call.case Api_DeregisterDataplane_def here cp_serve.simps case_prod_unfold
      by (rule served_then [OF s DeregisterDataplane_keeps [OF inv free w]])
        (auto simp: runs_gthen runs_gwhen runs_gret intro!: runs_mono [OF lb [OF _ AddDataplane_returns(2) [OF up], unfolded runs_gthen]])
  next
    case CallResetMeasurements
    have "keeps (gmodify (\<lambda>c. c\<lparr>cp_traces := []\<rparr>)) ?c (\<lambda>_ _. True)" using inv by (simp add: keeps_def wp cp_views)
    then show ?thesis unfolding CallResetMeasurements serve.simps api_call.case Api_ResetMeasurements_def here cp_serve.simps gthen_def by (rule answer)
  next
    case (CallOnMetricsReceive m)
    show ?thesis unfolding CallOnMetricsReceive serve.simps api_call.case Api_OnMetricsReceive_def here cp_serve.simps case_prod_unfold
      by (rule answer [OF OnMetrics_keeps [OF inv free]])
  next
    case CallListServices
    show ?thesis unfolding CallListServices serve.simps api_call.case Api_ListServices_def here cp_serve.simps
      by (rule answer [OF reads_keep(1) [OF inv free]])
  next
    case (CallReportFailure f)
    show ?thesis unfolding CallReportFailure serve.simps api_call.case Api_ReportFailure_def here cp_serve.simps
      by (rule answer [OF Failure_keeps [OF inv free]])
  next
    case (CallRegisterNode i)
    show ?thesis unfolding CallRegisterNode serve.simps api_call.case api_handlers here cp_serve.simps case_prod_unfold
      by (rule answer [OF RegisterNode_keeps [OF inv free w]])
  next
    case (CallDeregisterNode i)
    show ?thesis unfolding CallDeregisterNode serve.simps api_call.case api_handlers here cp_serve.simps case_prod_unfold
      by (rule answer [OF DeregisterNode_keeps [OF inv free w]])
  next
    case (CallNodeHeartbeat i)
    show ?thesis unfolding CallNodeHeartbeat serve.simps api_call.case api_handlers here cp_serve.simps case_prod_unfold
      by (rule answer [OF NodeHeartbeat_keeps [OF inv]])
  next
    case (CallRegisterService i)
    show ?thesis unfolding CallRegisterService serve.simps api_call.case api_handlers here cp_serve.simps case_prod_unfold
      by (rule answer [OF RegisterService_keeps [OF inv free w]])
  next
    case (CallDeregisterService i)
    show ?thesis unfolding CallDeregisterService serve.simps api_call.case api_handlers here cp_serve.simps case_prod_unfold
      by (rule answer [OF DeregisterService_keeps [OF inv free w]])
  qed
qed

lemma serve_replica:
  assumes "led_by s l me" and "serving l s" and "env_ok (sr_world v l)" and "haproxy_up (sr_lib v)"
  shows "runs (serve v (Suc (Suc hops)) me call) s (served l s (cp_serve (sr_world v l) call))"
proof (cases "me = l")
  case True
  then show ?thesis using serve_leader [OF assms(2-4)] by simp
next
  case False
  have "serve v (Suc (Suc hops)) me call s = serve v (Suc hops) l call s" by (rule serve_forward [OF assms(1) False])
  with serve_leader [OF assms(2-4), of hops call] show ?thesis by (simp only: runs_def)
qed

section \<open>Properties\<close>



subsection \<open>Taking over\<close>

lemma StopAllScalingLoops_fresh:
  "runs StopAllScalingLoops (NewControlPlane db p cfg) Q = Q () (NewControlPlane db p cfg)"
  by (simp add: StopAllScalingLoops_def with_si_lock_def wp NewControlPlane_def NewControlPlaneSyncStructure_def unlocked_def
      Structure_GetKeys_def Structure_GetMap_def)

lemma destroy_fresh:
  assumes "s = NewElectionState \<lparr>sv_LeaderElectionServer = les, sv_ControlPlane = NewControlPlane db p cfg, sv_HAProxyAPI = api\<rparr>"
  shows "destroyStateFromPreviousElectionTerm listening cfg s = Ret () s"
proof -
  have "runs (destroyStateFromPreviousElectionTerm listening cfg) s (\<lambda>_ s'. s' = s)"
    unfolding destroyStateFromPreviousElectionTerm_def CleanControlPlaneInMemoryData_def assms
    by (simp add: wp NewElectionState_def StopAllScalingLoops_fresh) (simp add: NewControlPlane_def)
  then show ?thesis by (simp add: runs_def split: outcome.splits)
qed


text \<open>A cluster with a data plane, two worker nodes and a service that runs on one of them.\<close>

definition demo_stored :: "unit PersistenceLayer" where
  "demo_stored = EmptyPersistence\<lparr>
     pl_GetDataPlaneInformation := gret (Inr [\<lparr>di_Address = ''10.0.0.1'', di_ApiPort = ''8081'', di_ProxyPort = ''80''\<rparr>]),
     pl_GetWorkerNodeInformation := gret (Inr (map (\<lambda>name. \<lparr>wi_Name = name, wi_Ip = ''10.0.0.3'', wi_Port = ''10010'',
        wi_CpuCores = 4, wi_Memory = 8192\<rparr>) [''node-1'', ''node-2''])),
     pl_GetServiceInformation := gret (Inr [demo_service ''f''])\<rparr>"

definition demo_restart :: "(unit, unit) world" where
  "demo_restart = (demo_world (Random_Place id))\<lparr>w_pl := demo_stored,
     w_list := (\<lambda>_ name. Some [\<lparr>pe_SandboxID = ''1'', pe_URL = [], pe_NodeName = name, pe_ServiceName = ''f'', pe_HostPort = 80\<rparr>])\<rparr>"

definition demo_restart_config :: ControlPlaneConfig where
  "demo_restart_config = demo_config\<lparr>cpc_Reconstruct := True, cpc_RegistrationServer := ''10.0.0.2:91''\<rparr>"


definition demo_around :: "(unit, unit, memory_lb) surroundings" where
  "demo_around = \<lparr>sr_world = (\<lambda>_. demo_restart), sr_lib = memory_haproxy, sr_rnd = id, sr_early = (\<lambda>n. wn_Name n = ''node-1'')\<rparr>"



subsection \<open>Forwarding without a leader\<close>

definition do_beat :: "int \<Rightarrow> Net \<Rightarrow> Net" where
  "do_beat i n = n\<lparr>hbReqs := hbReqs n \<union> {(ae_LeaderID a, ae_Term a, p) |p a. (p, a) \<in> set (leaderSendHeartbeats (cms n i))}\<rparr>"

definition do_receive :: "int \<Rightarrow> int \<Rightarrow> int \<Rightarrow> Net \<Rightarrow> Net" where
  "do_receive l t p n = (case CM_AppendEntries 0 \<lparr>ae_Term = t, ae_LeaderID = l\<rparr> (cms n p) of (reply, cm') \<Rightarrow>
     n\<lparr>cms := (cms n)(p := cm'), hbReps := (case reply of None \<Rightarrow> hbReps n | Some r \<Rightarrow> insert (l, t, p, r) (hbReps n))\<rparr>)"

lemma reach_beat: "raft_reachable ids timely n \<Longrightarrow> i \<in> ids \<Longrightarrow> raft_reachable ids timely (do_beat i n)"
  unfolding do_beat_def by (erule raft_reachable.step, erule raft_step.heartbeats_sent)

lemma reach_receive: "raft_reachable ids timely n \<Longrightarrow> (l, t, p) \<in> hbReqs n \<Longrightarrow> raft_reachable ids timely (do_receive l t p n)"
  unfolding do_receive_def
  by (cases "CM_AppendEntries 0 \<lparr>ae_Term = t, ae_LeaderID = l\<rparr> (cms n p)")
    (simp, erule raft_reachable.step, rule raft_step.heartbeat_received, simp_all)

definition with_election :: "Net \<Rightarrow> ('db, 'p, 'h) replicas \<Rightarrow> ('db, 'p, 'h) replicas" where
  \<comment> \<open>three replicas with connections to each other, the election being as in the network\<close>
  "with_election n s i = (s i)\<lparr>sv_LeaderElectionServer := \<lparr>serverId = i, les_peerIds = filter (\<lambda>j. j \<noteq> i) [1, 2, 3], les_cm = cms n i,
     peerClients = map (\<lambda>j. (j, j)) (filter (\<lambda>j. j \<noteq> i) [1, 2, 3])\<rparr>\<rparr>"

lemma forwarding_circle:
  assumes "led_by s j i" and "led_by s i j" and "i \<noteq> j"
  shows "serve v hops i call s = Blocked ''waiting for the answer of a peer'' s \<and>
     serve v hops j call s = Blocked ''waiting for the answer of a peer'' s"
proof (induction hops)
  case 0
  show ?case by (simp add: gblock_def)
next
  case (Suc hops)
  then show ?case using serve_forward [OF assms(1)] serve_forward [OF assms(2)] assms(3) by simp
qed

lemmas beat_eval = run_eval do_beat_def do_receive_def CM_AppendEntries_def leaderSendHeartbeats_def vote_for_def


definition demo_replicas :: "(unit, unit, memory_lb) replicas" where
  "demo_replicas i = \<lparr>sv_LeaderElectionServer = \<lparr>serverId = i, les_peerIds = [3 - i],
     les_cm = (NewConsensusModule i [3 - i])\<lparr>cm_state := if i = 1 then Leader else Follower, currentLeaderID := 1\<rparr>,
     peerClients = [(3 - i, 3 - i)]\<rparr>, sv_ControlPlane = NewControlPlane () () demo_config, sv_HAProxyAPI = Some demo_api\<rparr>"


end
