(* ===== verification/Worker_Managers.thy ===== *)
theory Worker_Managers
  imports Complex_Main Sync_Maps Proto_Types
begin

text \<open>
  \<^verbatim>\<open>internal/worker_node/managers\<close> and the parts of the containerd runtime that both runtimes share: addresses and
  device names, host ports, port forwarding, the table of sandboxes, the process monitor and the readiness
  probe. A compare-and-swap loop is the atomic step it implements. Commands to the system and calls of the
  iptables library are kept in order; their errors are only logged by the code. Random numbers are a stream of draws.
\<close>

section \<open>Addresses and device names\<close>

record IPManager =
  networkPrefix :: string
  allocationCounter :: uint32

definition NewIPManager :: "string \<Rightarrow> IPManager" where
  "NewIPManager prefix = \<lparr>networkPrefix = prefix, allocationCounter = 0\<rparr>"

definition getUniqueCounterValue :: "(IPManager, uint32) go" where
  "getUniqueCounterValue = gbind (gget allocationCounter) (\<lambda>oldValue.
     if oldValue \<ge> 65536 then gpanic ''Run out of IP addresses.''
     else gthen (gmodify (\<lambda>s. s\<lparr>allocationCounter := oldValue + 1\<rparr>)) (gret oldValue))"

definition extractThirdField :: "uint32 \<Rightarrow> uint32" where
  "extractThirdField counterValue = counterValue div 256"

definition extractFourthField :: "uint32 \<Rightarrow> uint32" where
  "extractFourthField counterValue = counterValue mod 256"

definition generateRawGatewayIP :: "(IPManager, uint32 \<times> uint32) go" where
  "generateRawGatewayIP = gbind getUniqueCounterValue (\<lambda>val.
     let thirdField = extractThirdField val; fourthField = extractFourthField val
     in if thirdField > 255 \<or> fourthField > 255 then gret (256, 256) else gret (thirdField, fourthField))"

lemma generateRaw_counts:
  assumes "generateRawGatewayIP s = Ret x s'"
  shows "unat (allocationCounter s') = unat (allocationCounter s) + 1" and "unat (allocationCounter s) < 65536"
proof -
  have less: "\<not> allocationCounter s \<ge> 65536" and s': "s' = s\<lparr>allocationCounter := allocationCounter s + 1\<rparr>"
    using assms by (auto simp: generateRawGatewayIP_def getUniqueCounterValue_def go_monad Let_def split: if_splits)
  then show "unat (allocationCounter s) < 65536" by (simp add: word_le_nat_alt)
  then show "unat (allocationCounter s') = unat (allocationCounter s) + 1"
    by (simp add: s' unat_word_ariths)
qed

lemma generateRaw_measure:
  "generateRawGatewayIP s = Ret x s' \<Longrightarrow> 65536 - unat (allocationCounter s') < 65536 - unat (allocationCounter s)"
  using generateRaw_counts [of s x s'] by linarith

function singleIPLoop :: "(IPManager, uint32 \<times> uint32) go" where
  \<comment> \<open>the network and the broadcast address are skipped\<close>
  "singleIPLoop s = (case generateRawGatewayIP s of
       Ret (c, d) s' \<Rightarrow> if d = 0 \<or> d = 255 then singleIPLoop s' else Ret (c, d) s'
     | Panic e s' \<Rightarrow> Panic e s'
     | Blocked e s' \<Rightarrow> Blocked e s')"
  by pat_completeness auto
termination
  by (relation "measure (\<lambda>s. 65536 - unat (allocationCounter s))") (auto dest!: generateRaw_measure)

declare singleIPLoop.simps [simp del]

definition GenerateSingleIP :: "(IPManager, string) go" where
  "GenerateSingleIP = gbind singleIPLoop (\<lambda>(c, d). gbind (gget networkPrefix) (\<lambda>p.
     gret (p @ ''.'' @ dec (unat c) @ ''.'' @ dec (unat d))))"

definition GenerateIPMACPair :: "(IPManager, string \<times> string) go" where
  "GenerateIPMACPair = gbind generateRawGatewayIP (\<lambda>(c, d). gbind (gget networkPrefix) (\<lambda>p.
     gret (p @ ''.'' @ dec (unat c) @ ''.'' @ dec (unat d) @ ''.1'', p @ ''.'' @ dec (unat c) @ ''.'' @ dec (unat d) @ ''.2'')))"

definition VETH_Generate :: "int32 \<Rightarrow> int32 \<times> int32" where
  \<comment> \<open>the name and the counter afterwards\<close>
  "VETH_Generate counter = (counter, counter + 2)"

section \<open>Host ports\<close>

record port_table =
  portsInUse :: "(int, unit) gomap"
  ports_drawn :: nat

partial_function (option) portLoop :: "(nat \<Rightarrow> nat) \<Rightarrow> (int, unit) gomap \<Rightarrow> nat \<Rightarrow> (int \<times> nat) option" where
  \<comment> \<open>\<open>rnd i\<close>: the \<open>i\<close>-th draw of \<^verbatim>\<open>rand.Intn(64000)\<close>; the port and the number of draws so far\<close>
  "portLoop rnd used n = (let port = 1024 + int (rnd n mod 64000)
     in if map_of used port = None then Some (port, n + 1) else portLoop rnd used (n + 1))"

definition AssignRandomPort :: "(nat \<Rightarrow> nat) \<Rightarrow> (port_table, int) go" where
  "AssignRandomPort rnd s = (case portLoop rnd (portsInUse s) (ports_drawn s) of
       None \<Rightarrow> Blocked ''no port is free'' s
     | Some (port, n) \<Rightarrow> Ret port \<lparr>portsInUse = gm_set port () (portsInUse s), ports_drawn = n\<rparr>)"

definition UnassignPort :: "int \<Rightarrow> (port_table, unit) go" where
  "UnassignPort port = gmodify (\<lambda>s. s\<lparr>portsInUse := gm_del port (portsInUse s)\<rparr>)"

definition validatePort :: "int \<Rightarrow> bool" where
  "validatePort port = (if port \<le> 0 \<or> port \<ge> 65536 then False else True)"

definition l4ProtocolToString :: "int \<Rightarrow> string" where
  \<comment> \<open>of the number of the protocol\<close>
  "l4ProtocolToString n = (if n = 1 then ''udp'' else ''tcp'')"

section \<open>Port forwarding\<close>

datatype ipt_call =
    IptAppend string "string list"
  | IptAppendUnique string "string list"
  | IptDelete string "string list"
  | IptForwardAccept

definition preroutingRule :: "int \<Rightarrow> string \<Rightarrow> int \<Rightarrow> string list" where
  "preroutingRule sourcePort destIP destPort =
     [''-p'', ''tcp'', ''--dport'', itoa sourcePort, ''-j'', ''DNAT'', ''--to-destination'', destIP @ '':'' @ itoa destPort]"

definition outputRule :: "int \<Rightarrow> string \<Rightarrow> int \<Rightarrow> string list" where
  "outputRule sourcePort destIP destPort =
     [''-p'', ''tcp'', ''-o'', ''lo'', ''--dport'', itoa sourcePort, ''-j'', ''DNAT'', ''--to-destination'', destIP @ '':'' @ itoa destPort]"

definition AddRules :: "int \<Rightarrow> string \<Rightarrow> int \<Rightarrow> (ipt_call list, unit) go" where
  "AddRules sourcePort destIP destPort = gmodify (\<lambda>calls. calls @
     [IptAppend ''PREROUTING'' (preroutingRule sourcePort destIP destPort), IptAppend ''OUTPUT'' (outputRule sourcePort destIP destPort),
      IptAppendUnique ''POSTROUTING'' [''-j'', ''MASQUERADE''], IptForwardAccept])"

definition DeleteRules :: "int \<Rightarrow> string \<Rightarrow> int \<Rightarrow> (ipt_call list, unit) go" where
  "DeleteRules sourcePort destIP destPort = gmodify (\<lambda>calls. calls @
     [IptDelete ''PREROUTING'' (preroutingRule sourcePort destIP destPort), IptDelete ''OUTPUT'' (outputRule sourcePort destIP destPort)])"

section \<open>Sandboxes\<close>

record 'm Metadata =
  \<comment> \<open>the exit channel is represented by a number\<close>
  md_ServiceName :: string
  md_RuntimeMetadata :: 'm
  md_HostPort :: int
  md_IP :: string
  md_GuestPort :: int
  md_NetNs :: string
  md_ExitStatusChannel :: nat

record 'm SandboxManager =
  sm_Metadata :: "(string, 'm Metadata) AtomicMap"
  sm_nodeName :: string

definition NewSandboxManager :: "string \<Rightarrow> 'm SandboxManager" where
  "NewSandboxManager nodeName = \<lparr>sm_Metadata = NewAtomicMap, sm_nodeName = nodeName\<rparr>"

definition AddSandbox :: "string \<Rightarrow> 'm Metadata \<Rightarrow> 'm SandboxManager \<Rightarrow> 'm SandboxManager" where
  "AddSandbox key metadata m = m\<lparr>sm_Metadata := AtomicMap_Set key metadata (sm_Metadata m)\<rparr>"

definition SM_DeleteSandbox :: "string \<Rightarrow> ('m SandboxManager, 'm Metadata option) go" where
  "SM_DeleteSandbox key = gbind (gget (\<lambda>m. AtomicMap_Get (sm_Metadata m) key)) (\<lambda>res. case res of
       None \<Rightarrow> gret None
     | Some metadata \<Rightarrow> gthen (gmodify (\<lambda>m. m\<lparr>sm_Metadata := AtomicMap_RemoveKey key (sm_Metadata m)\<rparr>)) (gret (Some metadata)))"

definition SM_ListEndpoints :: "'m SandboxManager \<Rightarrow> ProtoEndpoint list" where
  "SM_ListEndpoints m = (case AtomicMap_KeyValues (sm_Metadata m) of (keys, values) \<Rightarrow>
     map (\<lambda>(k, v). \<lparr>pe_SandboxID = k, pe_URL = md_IP v, pe_NodeName = sm_nodeName m, pe_ServiceName = md_ServiceName v,
        pe_HostPort = md_HostPort v\<rparr>) (zip keys values))"

section \<open>The process monitor\<close>

record ProcessMonitor =
  \<comment> \<open>\<open>pm_watching\<close>: the channels a goroutine receives from; \<open>pm_received\<close>: what these goroutines have received\<close>
  NotifyChannels :: "(uint32, nat) gomap"
  pm_wlocked :: bool
  pm_rlocks :: nat
  pm_watching :: "nat list"
  pm_received :: "(nat \<times> uint32) list"

definition pm_Lock :: "(ProcessMonitor, unit) go" where
  "pm_Lock s = (if pm_wlocked s \<or> pm_rlocks s \<noteq> 0 then Blocked ''Lock'' s else Ret () (s\<lparr>pm_wlocked := True\<rparr>))"

definition pm_RLock :: "(ProcessMonitor, unit) go" where
  "pm_RLock s = (if pm_wlocked s then Blocked ''RLock'' s else Ret () (s\<lparr>pm_rlocks := pm_rlocks s + 1\<rparr>))"

definition NewProcessMonitor :: "(nat \<Rightarrow> bool) \<Rightarrow> (unit, ProcessMonitor) go" where
  \<comment> \<open>\<open>dial i\<close>: whether the \<open>i\<close>-th of the ten attempts succeeds\<close>
  "NewProcessMonitor dial = (if list_ex dial [1..<11]
     then gret \<lparr>NotifyChannels = [], pm_wlocked = False, pm_rlocks = 0, pm_watching = [], pm_received = []\<rparr>
     else gpanic ''Failed do start process monitor. Terminating worker daemon.'')"

definition AddChannel :: "uint32 \<Rightarrow> nat \<Rightarrow> (ProcessMonitor, unit) go" where
  "AddChannel pid ch = gthen pm_Lock (gdefer (gmodify (\<lambda>s. s\<lparr>pm_wlocked := False\<rparr>))
     (gmodify (\<lambda>s. s\<lparr>NotifyChannels := gm_set pid ch (NotifyChannels s)\<rparr>)))"

definition RemoveChannel :: "uint32 \<Rightarrow> (ProcessMonitor, unit) go" where
  "RemoveChannel pid = gthen pm_Lock (gdefer (gmodify (\<lambda>s. s\<lparr>pm_wlocked := False\<rparr>))
     (gmodify (\<lambda>s. s\<lparr>NotifyChannels := gm_del pid (NotifyChannels s)\<rparr>)))"

datatype event_data = Exit uint32 | OtherEvent

definition extractExitCode :: "event_data \<Rightarrow> uint32" where
  "extractExitCode d = (case d of Exit code \<Rightarrow> code + 128 | OtherEvent \<Rightarrow> 255)"

definition sendExit :: "nat \<Rightarrow> uint32 \<Rightarrow> (ProcessMonitor, unit) go" where
  \<comment> \<open>a channel without a buffer: the send returns when a goroutine receives\<close>
  "sendExit ch code s = (if ch \<in> set (pm_watching s)
     then Ret () (s\<lparr>pm_watching := remove1 ch (pm_watching s), pm_received := pm_received s @ [(ch, code)]\<rparr>)
     else Blocked ''send to an exit channel'' s)"

definition monitorRound :: "(uint32 \<times> event_data) list \<Rightarrow> (ProcessMonitor, unit) go" where
  \<comment> \<open>one round of \<^verbatim>\<open>internalEventHandler\<close> with the events that were read\<close>
  "monitorRound events = (if events = [] then gret () else
     gthen pm_RLock
    (gthen (grange events (\<lambda>(pid, eData). gbind (gget (\<lambda>s. map_of (NotifyChannels s) pid)) (\<lambda>ch. case ch of
         None \<Rightarrow> gret (None :: unit option)
       | Some c \<Rightarrow> gthen (sendExit c (extractExitCode eData)) (gret None))))
      (gmodify (\<lambda>s. s\<lparr>pm_rlocks := pm_rlocks s - 1\<rparr>))))"

definition SIGKILL :: uint32 where "SIGKILL = 137"

definition WatchExitChannel :: "bool \<Rightarrow> string \<Rightarrow> string \<Rightarrow> uint32 \<Rightarrow> Failure option" where
  \<comment> \<open>what is reported to the control plane, if there is one, when the exit code has been received\<close>
  "WatchExitChannel cpApi serviceName containerID exitCode =
     (if exitCode = SIGKILL then None
      else if \<not> cpApi then None
      else Some \<lparr>f_Type = SANDBOX_FAILURE, f_ServiceName = serviceName, f_SandboxIDs = [containerID]\<rparr>)"

section \<open>Readiness\<close>

record ExponentialBackoff =
  Interval :: real
  ExponentialRate :: real
  RetryNumber :: nat
  MaxDifference :: real

definition eb_calculate :: "ExponentialBackoff \<Rightarrow> nat \<Rightarrow> real" where
  "eb_calculate eb retry = Interval eb * ExponentialRate eb ^ retry"

definition eb_Next :: "ExponentialBackoff \<Rightarrow> real \<times> ExponentialBackoff" where
  "eb_Next eb =
     (if RetryNumber eb = 0 then (eb_calculate eb 0, eb\<lparr>RetryNumber := 1\<rparr>)
      else let oldValue = eb_calculate eb (RetryNumber eb); newValue = eb_calculate eb (RetryNumber eb + 1);
               eb' = eb\<lparr>RetryNumber := RetryNumber eb + 1\<rparr>
           in if \<bar>newValue - oldValue\<bar> > MaxDifference eb then (- 1, eb') else (newValue, eb'))"

partial_function (option) probeLoop :: "(nat \<Rightarrow> bool) \<Rightarrow> nat \<Rightarrow> ExponentialBackoff \<Rightarrow> (bool \<times> nat) option" where
  \<comment> \<open>\<open>healthy i\<close>: whether the \<open>i\<close>-th request is answered with status 200; whether the probe has passed, and after how many tries\<close>
  "probeLoop healthy tries eb =
     (if healthy tries then Some (True, tries + 1)
      else case eb_Next eb of (toSleep, eb') \<Rightarrow>
        if toSleep < 0 then Some (False, tries + 1) else probeLoop healthy (tries + 1) eb')"

definition SendReadinessProbe :: "(nat \<Rightarrow> bool) \<Rightarrow> (bool \<times> nat) option" where
  "SendReadinessProbe healthy =
     probeLoop healthy 0 \<lparr>Interval = 1 / 100, ExponentialRate = 135 / 100, RetryNumber = 0, MaxDifference = 2\<rparr>"



section \<open>Facts\<close>

subsection \<open>Addresses\<close>

fun exposedIPs :: "nat \<Rightarrow> (IPManager, string list) go" where
  \<comment> \<open>a number of addresses in a row\<close>
  "exposedIPs 0 = gret []"
| "exposedIPs (Suc n) = gbind GenerateSingleIP (\<lambda>ip. gbind (exposedIPs n) (\<lambda>ips. gret (ip # ips)))"

abbreviation ipm_at :: "string \<Rightarrow> nat \<Rightarrow> IPManager" where
  "ipm_at p u \<equiv> \<lparr>networkPrefix = p, allocationCounter = of_nat u\<rparr>"

definition ip_text :: "string \<Rightarrow> nat \<Rightarrow> string" where
  "ip_text p u = p @ ''.'' @ dec (u div 256) @ ''.'' @ dec (u mod 256)"

lemma unat_small: "u < 2 ^ 32 \<Longrightarrow> unat (of_nat u :: uint32) = u"
  by (simp add: unat_of_nat)

lemma raw_at:
  assumes "u < 65536"
  shows "generateRawGatewayIP (ipm_at p u) = Ret (of_nat (u div 256), of_nat (u mod 256)) (ipm_at p (Suc u))"
proof -
  have u: "unat (of_nat u :: uint32) = u" using assms by (intro unat_small) simp
  have "\<not> (65536 :: uint32) \<le> of_nat u" using assms by (simp add: word_le_nat_alt u)
  moreover have third: "extractThirdField (of_nat u) = of_nat (u div 256)"
    unfolding extractThirdField_def by (rule word_unat_eq_iff [THEN iffD2]) (use assms in \<open>simp add: unat_div u unat_small\<close>)
  moreover have fourth: "extractFourthField (of_nat u) = of_nat (u mod 256)"
    unfolding extractFourthField_def by (rule word_unat_eq_iff [THEN iffD2]) (use assms in \<open>simp add: unat_mod u unat_small\<close>)
  moreover have "\<not> (255 :: uint32) < of_nat (u div 256)" using assms by (simp add: word_less_nat_alt unat_small)
  moreover have "\<not> (255 :: uint32) < of_nat (u mod 256)" by (simp add: word_less_nat_alt unat_small)
  ultimately show ?thesis by (simp add: generateRawGatewayIP_def getUniqueCounterValue_def go_monad Let_def add.commute)
qed

lemma GenerateSingleIP_at:
  assumes "u < 65536"
  shows "GenerateSingleIP (ipm_at p u) =
     (if u mod 256 \<in> {0, 255} then GenerateSingleIP (ipm_at p (Suc u)) else Ret (ip_text p u) (ipm_at p (Suc u)))"
proof -
  have d: "(of_nat (u mod 256) :: uint32) = 0 \<longleftrightarrow> u mod 256 = 0" "(of_nat (u mod 256) :: uint32) = 255 \<longleftrightarrow> u mod 256 = 255"
    using unat_small [of "u mod 256"] by (simp_all add: word_unat_eq_iff)
  have "unat (of_nat (u div 256) :: uint32) = u div 256" "unat (of_nat (u mod 256) :: uint32) = u mod 256"
    using assms by (simp_all add: unat_small)
  with d show ?thesis unfolding GenerateSingleIP_def gbind_def
    by (subst singleIPLoop.simps) (auto simp: raw_at [OF assms] go_monad ip_text_def)
qed

lemma GenerateSingleIP_out: "GenerateSingleIP (ipm_at p 65536) = Panic ''Run out of IP addresses.'' (ipm_at p 65536)"
  unfolding GenerateSingleIP_def gbind_def
  by (subst singleIPLoop.simps) (simp add: generateRawGatewayIP_def getUniqueCounterValue_def go_monad)


definition host_number :: "nat \<Rightarrow> nat" where
  \<comment> \<open>the \<open>k\<close>-th value of the counter that gives an address\<close>
  "host_number k = k div 254 * 256 + k mod 254 + 1"

definition counter_after :: "nat \<Rightarrow> nat" where
  "counter_after k = (if k = 0 then 0 else host_number (k - 1) + 1)"

lemma host_number_fields: "host_number k div 256 = k div 254" "host_number k mod 256 = k mod 254 + 1"
proof -
  have "k mod 254 + 1 < 256" using mod_less_divisor [of 254 k] by linarith
  then have "(k div 254 * 256 + (k mod 254 + 1)) div 256 = k div 254" "(k div 254 * 256 + (k mod 254 + 1)) mod 256 = k mod 254 + 1"
    by simp_all
  then show "host_number k div 256 = k div 254" "host_number k mod 256 = k mod 254 + 1"
    by (simp_all add: host_number_def add.assoc)
qed

lemma host_number_bound: "host_number k < 65535" if "k < 65024"
proof -
  have "k div 254 < 256" using that by (intro less_mult_imp_div_less) simp
  then have "k div 254 \<le> 255" by simp
  then have "k div 254 * 256 \<le> 255 * 256" by (rule mult_le_mono1)
  moreover have "k mod 254 < 254" by simp
  ultimately show ?thesis unfolding host_number_def by linarith
qed

lemma next_address_direct:
  assumes "k < 65024"
  shows "GenerateSingleIP (ipm_at p (host_number k)) = Ret (ip_text p (host_number k)) (ipm_at p (counter_after (Suc k)))"
proof -
  have "host_number k mod 256 \<notin> {0, 255}" using mod_less_divisor [of 254 k] by (simp add: host_number_fields)
  then show ?thesis using host_number_bound [OF assms] by (subst GenerateSingleIP_at) (simp_all add: counter_after_def)
qed

lemma next_address:
  assumes "k < 65024"
  shows "GenerateSingleIP (ipm_at p (counter_after k)) = Ret (ip_text p (host_number k)) (ipm_at p (counter_after (Suc k)))"
proof (cases "k mod 254 = 0")
  case False
  obtain m where m: "k mod 254 = Suc m" using False by (cases "k mod 254") auto
  then have m': "m < 254" using mod_less_divisor [of 254 k] by linarith
  have k: "k = k div 254 * 254 + Suc m" using div_mult_mod_eq [of k 254] m by linarith
  then have k': "k - 1 = k div 254 * 254 + m" by linarith
  have "(k - 1) div 254 = k div 254" "(k - 1) mod 254 = m" "k \<noteq> 0"
    using m' k unfolding k' by simp_all
  with m have "counter_after k = host_number k" by (simp add: counter_after_def host_number_def)
  then show ?thesis using next_address_direct [OF assms] by simp
next
  case True
  have zero: "GenerateSingleIP (ipm_at p (k div 254 * 256)) = GenerateSingleIP (ipm_at p (host_number k))"
    using assms True by (subst GenerateSingleIP_at) (auto simp: host_number_def)
  show ?thesis
  proof (cases "k = 0")
    case True
    with zero next_address_direct [OF assms, of p] show ?thesis by (simp add: counter_after_def)
  next
    case nz: False
    obtain q where q: "k = 254 * q" using True by (auto elim: dvdE simp: mod_eq_0_iff_dvd)
    with nz obtain r where r: "q = Suc r" by (cases q) auto
    have "host_number (k - 1) = r * 256 + 254"
    proof -
      have k: "k - 1 = 253 + 254 * r" using q r by simp
      have "(k - 1) div 254 = r" "(k - 1) mod 254 = 253" unfolding k by simp_all
      then show ?thesis by (simp add: host_number_def)
    qed
    then have "counter_after k = r * 256 + 255" using nz by (simp add: counter_after_def)
    moreover have "GenerateSingleIP (ipm_at p (r * 256 + 255)) = GenerateSingleIP (ipm_at p (k div 254 * 256))"
    proof -
      have "r * 256 + 255 < 65536" "(r * 256 + 255) mod 256 = 255" "k div 254 * 256 = Suc (r * 256 + 255)"
        using assms q r by simp_all
      then show ?thesis by (subst GenerateSingleIP_at) simp_all
    qed
    ultimately show ?thesis using zero next_address_direct [OF assms, of p] by simp
  qed
qed

lemma exposedIPs_from:
  assumes "k + n \<le> 65024"
  shows "exposedIPs n (ipm_at p (counter_after k)) = Ret (map (\<lambda>i. ip_text p (host_number i)) [k..<k + n]) (ipm_at p (counter_after (k + n)))"
  using assms
proof (induction n arbitrary: k)
  case 0
  show ?case by (simp add: gret_def)
next
  case (Suc n)
  then have "k < 65024" "Suc k + n \<le> 65024" by simp_all
  then show ?case
    by (simp add: gbind_def next_address Suc.IH gret_def upt_rec [of k])
qed

lemma exposedIPs_run_out:
  assumes "65024 < k + n" and "k \<le> 65024"
  shows "\<exists>s'. exposedIPs n (ipm_at p (counter_after k)) = Panic ''Run out of IP addresses.'' s'"
  using assms
proof (induction n arbitrary: k)
  case (Suc n)
  show ?case
  proof (cases "k = 65024")
    case True
    then have "counter_after k = 65535" by (simp add: counter_after_def host_number_def)
    moreover have "GenerateSingleIP (ipm_at p 65535) = Panic ''Run out of IP addresses.'' (ipm_at p 65536)"
      using GenerateSingleIP_out by (subst GenerateSingleIP_at) simp_all
    ultimately show ?thesis by (simp add: gbind_def)
  next
    case False
    then have k: "k < 65024" "65024 < Suc k + n" using Suc.prems by simp_all
    from Suc.IH [OF k(2)] k(1) obtain s' where "exposedIPs n (ipm_at p (counter_after (Suc k))) = Panic ''Run out of IP addresses.'' s'" by auto
    then show ?thesis using next_address [OF k(1)] by (simp add: gbind_def)
  qed
qed simp

lemma ip_text_inj: "ip_text p u = ip_text p v \<longleftrightarrow> u = v"
proof
  assume "ip_text p u = ip_text p v"
  then have "u div 256 = v div 256" "u mod 256 = v mod 256"
    by (auto simp: ip_text_def sep_inj)
  then show "u = v" by (metis div_mult_mod_eq)
qed simp

lemma host_number_inj: "host_number i = host_number j \<Longrightarrow> i = j"
  proof -
  assume eq: "host_number i = host_number j"
  have "i div 254 = j div 254" "i mod 254 = j mod 254"
    using host_number_fields [of i] host_number_fields [of j] unfolding eq by simp_all
  then show "i = j" by (metis div_mult_mod_eq)
qed


subsection \<open>Ports\<close>

lemma portLoop_finds:
  assumes "map_of used (1024 + int (rnd (n + j) mod 64000)) = None"
    and "\<And>i. i < j \<Longrightarrow> map_of used (1024 + int (rnd (n + i) mod 64000)) \<noteq> None"
  shows "portLoop rnd used n = Some (1024 + int (rnd (n + j) mod 64000), n + j + 1)"
  using assms
proof (induction j arbitrary: n)
  case 0
  then show ?case by (simp add: portLoop.simps Let_def)
next
  case (Suc j)
  have "portLoop rnd used (n + 1) = Some (1024 + int (rnd (n + 1 + j) mod 64000), n + 1 + j + 1)"
  proof (rule Suc.IH)
    show "map_of used (1024 + int (rnd (n + 1 + i) mod 64000)) \<noteq> None" if "i < j" for i
      using Suc.prems(2) [of "Suc i"] that by simp
  qed (use Suc.prems(1) in simp)
  then show ?case using Suc.prems(2) [of 0] by (subst portLoop.simps) (simp add: Let_def)
qed

lemma portLoop_SomeD: "portLoop rnd used n = Some r \<Longrightarrow> map_of used (fst r) = None \<and> 1024 \<le> fst r \<and> fst r < 65024"
  by (rule portLoop.raw_induct [of "\<lambda>_ used _ r. map_of used (fst r) = None \<and> 1024 \<le> fst r \<and> fst r < 65024" rnd used n r])
    (auto simp: Let_def split: if_splits)

subsection \<open>The readiness probe\<close>

definition probe_backoff :: "nat \<Rightarrow> ExponentialBackoff" where
  "probe_backoff r = \<lparr>Interval = 1 / 100, ExponentialRate = 27 / 20, RetryNumber = r, MaxDifference = 2\<rparr>"

lemma probe_Next:
  "fst (eb_Next (probe_backoff r)) < 0 \<longleftrightarrow> 22 \<le> r" and probe_Next_snd: "snd (eb_Next (probe_backoff r)) = probe_backoff (Suc r)"
proof -
  show "snd (eb_Next (probe_backoff r)) = probe_backoff (Suc r)" by (simp add: eb_Next_def Let_def probe_backoff_def)
  have sel: "RetryNumber (probe_backoff r) = r" "MaxDifference (probe_backoff r) = 2" by (simp_all add: probe_backoff_def)
  have d: "eb_calculate (probe_backoff r) (Suc r) - eb_calculate (probe_backoff r) r = 7 / 2000 * (27 / 20) ^ r"
    by (simp add: eb_calculate_def probe_backoff_def)
  have diff: "\<bar>eb_calculate (probe_backoff r) (Suc r) - eb_calculate (probe_backoff r) r\<bar> = 7 / 2000 * (27 / 20) ^ r"
    unfolding d by simp
  have pos: "\<not> eb_calculate (probe_backoff r) k < 0" for r k by (simp add: eb_calculate_def probe_backoff_def not_less)
  show "fst (eb_Next (probe_backoff r)) < 0 \<longleftrightarrow> 22 \<le> r"
  proof (cases "22 \<le> r")
    case True
    then have "(27 / 20 :: real) ^ 22 \<le> (27 / 20) ^ r" by (intro power_increasing) simp_all
    moreover have "2 < 7 / 2000 * (27 / 20 :: real) ^ 22" by (simp add: power_divide)
    ultimately have "2 < 7 / 2000 * (27 / 20 :: real) ^ r" by linarith
    with True show ?thesis unfolding eb_Next_def Let_def sel Suc_eq_plus1 [symmetric] diff by simp
  next
    case False
    then have "(27 / 20 :: real) ^ r \<le> (27 / 20) ^ 21" by (intro power_increasing) simp_all
    moreover have "7 / 2000 * (27 / 20 :: real) ^ 21 \<le> 2" by (simp add: power_divide)
    ultimately have "\<not> 2 < 7 / 2000 * (27 / 20 :: real) ^ r" by linarith
    with False show ?thesis unfolding eb_Next_def Let_def sel Suc_eq_plus1 [symmetric] diff using pos by simp
  qed
qed

lemma probeLoop_returns:
  assumes "r \<le> 22"
  shows "\<exists>tries \<le> 23. probeLoop healthy r (probe_backoff r) = Some (\<exists>i. r \<le> i \<and> i \<le> 22 \<and> healthy i, tries)"
  using assms
proof (induction "22 - r" arbitrary: r)
  case 0
  then have r: "r = 22" by simp
  obtain d eb where n: "eb_Next (probe_backoff r) = (d, eb)" by fastforce
  then have "d < 0" using probe_Next [of r] r by simp
  moreover have "(\<exists>i. r \<le> i \<and> i \<le> 22 \<and> healthy i) = healthy 22" using r by auto
  ultimately show ?case using r n by (subst probeLoop.simps) auto
next
  case (Suc k)
  then have r: "k = 22 - Suc r" "Suc r \<le> 22" by simp_all
  obtain d eb where n: "eb_Next (probe_backoff r) = (d, eb)" by fastforce
  then have d: "\<not> d < 0" "eb = probe_backoff (Suc r)" using probe_Next [of r] Suc.hyps(2) probe_Next_snd [of r] by simp_all
  from Suc.hyps(1) [OF r] obtain tries where t: "tries \<le> 23"
    "probeLoop healthy (Suc r) (probe_backoff (Suc r)) = Some (\<exists>i. Suc r \<le> i \<and> i \<le> 22 \<and> healthy i, tries)" by (elim exE conjE)
  have ex: "(\<exists>i. r \<le> i \<and> i \<le> 22 \<and> healthy i) \<longleftrightarrow> healthy r \<or> (\<exists>i. Suc r \<le> i \<and> i \<le> 22 \<and> healthy i)"
    using Suc.hyps(2) by (metis Suc_leD not_less_eq_eq order_antisym_conv r(2))
  show ?case
  proof (cases "healthy r")
    case True
    then show ?thesis using ex Suc.prems by (subst probeLoop.simps) auto
  next
    case False
    then show ?thesis using ex t d n by (subst probeLoop.simps) (simp add: exI [of _ tries])
  qed
qed

section \<open>Properties\<close>

text \<open>
  C22. The addresses of the sandboxes are well-formed and differ from each other. The first 65024 addresses that
  a manager generates are all of the form prefix.c.d with c up to 255 and d from 1 to 254, so that neither the
  network nor the broadcast address of a block is handed out, and no two of them are equal. The next request
  terminates the worker daemon; addresses are never returned.
\<close>

theorem generated_addresses_wellformed:
  "if n \<le> 65024
   then runs (exposedIPs n) (NewIPManager p) (\<lambda>ips _. length ips = n \<and> distinct ips \<and>
     (\<forall>ip \<in> set ips. \<exists>c d. ip = p @ ''.'' @ dec c @ ''.'' @ dec d \<and> c \<le> 255 \<and> 1 \<le> d \<and> d \<le> 254))
   else \<exists>s'. exposedIPs n (NewIPManager p) = Panic ''Run out of IP addresses.'' s'"
proof -
  have new: "NewIPManager p = ipm_at p (counter_after 0)" by (simp add: NewIPManager_def counter_after_def)
  show ?thesis
  proof (cases "n \<le> 65024")
    case True
    have form: "\<exists>c d. ip_text p (host_number k) = p @ ''.'' @ dec c @ ''.'' @ dec d \<and> c \<le> 255 \<and> 1 \<le> d \<and> d \<le> 254" if "k < n" for k
    proof (intro exI conjI)
      show "ip_text p (host_number k) = p @ ''.'' @ dec (k div 254) @ ''.'' @ dec (k mod 254 + 1)"
        by (simp add: ip_text_def host_number_fields)
      have "k div 254 < 256" using that True by (intro less_mult_imp_div_less) simp
      then show "k div 254 \<le> 255" by simp
      show "k mod 254 + 1 \<le> 254" using mod_less_divisor [of 254 k] by linarith
    qed simp
    have "distinct (map (\<lambda>i. ip_text p (host_number i)) [0..<n])"
      by (auto simp: distinct_map inj_on_def ip_text_inj dest: host_number_inj)
    with True form exposedIPs_from [of 0 n p] show ?thesis by (simp add: runs_def new)
  next
    case False
    then show ?thesis using exposedIPs_run_out [of 0 n p] by (simp add: new)
  qed
qed

theorem generated_addresses_wellformed_witness:
  "runs (exposedIPs 300) (NewIPManager ''10.0'') (\<lambda>ips _. length ips = 300 \<and> distinct ips)"
  using generated_addresses_wellformed [of 300 "''10.0''"] by (auto elim: runs_mono)

end
