(* ===== verification/Firecracker.thy ===== *)
theory Firecracker
  imports Worker_Managers Configuration "HOL-Library.Multiset"
begin

text \<open>
  \<^verbatim>\<open>internal/worker_node/sandbox/firecracker\<close>: the pool of networks and the runtime that creates, lists and deletes
  sandboxes. Commands to the system are kept in order; whether a command succeeds, and what the Firecracker SDK
  answers, is an argument (\<open>machine_env\<close>). The goroutine that fills the pool is an operation of its own.
\<close>

section \<open>The world around the runtime\<close>

record FirecrackerConfig =
  \<comment> \<open>what the code sets of \<^verbatim>\<open>firecracker.Config\<close>\<close>
  fc_SocketPath :: string
  fc_KernelImagePath :: string
  fc_KernelArgs :: string
  fc_LogPath :: string
  fc_LogLevel :: string
  fc_PathOnHost :: string
  fc_HostDevName :: string
  fc_MacAddress :: string
  fc_NetNS :: string

record machine_env =
  \<comment> \<open>machines are numbered in the order in which they are created; all answers tell success\<close>
  me_run :: "nat \<Rightarrow> string list \<Rightarrow> bool"
  me_NewMachine :: "nat \<Rightarrow> FirecrackerConfig \<Rightarrow> bool"
  me_Start :: "nat \<Rightarrow> bool"
  me_Resume :: "nat \<Rightarrow> bool"
  me_Pause :: "nat \<Rightarrow> bool"
  me_CreateSnapshot :: "nat \<Rightarrow> bool"
  me_PID :: "nat \<Rightarrow> uint32 option"
  me_healthy :: "nat \<Rightarrow> nat \<Rightarrow> bool"
  me_MkdirAll :: bool
  \<comment> \<open>the draws of the generators of names, of sandbox IDs and of ports\<close>
  me_names :: "nat \<Rightarrow> nat"
  me_ids :: "nat \<Rightarrow> nat"
  me_ports :: "nat \<Rightarrow> nat"

section \<open>Networks\<close>

record NetworkConfig =
  nc_NetNS :: string
  nc_TapDeviceName :: string
  nc_TapMAC :: string
  nc_TapExternalIP :: string
  nc_TapInternalIP :: string
  nc_VETHHostName :: string
  nc_VETHInternalIP :: string
  nc_VETHExternalIP :: string
  nc_ExposedIP :: string

record NetworkPoolManager =
  np_InternalIPManager :: IPManager
  np_ExposedIPManager :: IPManager
  np_InterfaceNameGenerator :: int32
  np_NetNSNameGenerator :: nat
    \<comment> \<open>the number of draws\<close>
  np_MaxNetworkPoolSize :: int
  np_pool :: "NetworkConfig option list"
    \<comment> \<open>an entry may be nil\<close>
  np_commands :: "string list list"

definition exec_fails :: "machine_env \<Rightarrow> string list \<Rightarrow> (NetworkPoolManager, bool) go" where
  \<comment> \<open>\<^verbatim>\<open>exec.Command("sudo", args).Run()\<close>, and whether there was an error\<close>
  "exec_fails env args = gbind (gget (\<lambda>s. me_run env (length (np_commands s)) args)) (\<lambda>ok.
     gthen (gmodify (\<lambda>s. s\<lparr>np_commands := np_commands s @ [args]\<rparr>)) (gret (\<not> ok)))"

definition deleteDeviceByName :: "machine_env \<Rightarrow> string \<Rightarrow> (NetworkPoolManager, unit) go" where
  "deleteDeviceByName env name = gthen (exec_fails env [''ip'', ''link'', ''del'', name]) (gret ())"

definition deleteNetworkNamespaceByName :: "machine_env \<Rightarrow> string \<Rightarrow> (NetworkPoolManager, unit) go" where
  "deleteNetworkNamespaceByName env name = gthen (exec_fails env [''ip'', ''netns'', ''delete'', name]) (gret ())"

definition exec_or :: "machine_env \<Rightarrow> (NetworkPoolManager, unit) go \<Rightarrow> string list \<Rightarrow> (NetworkPoolManager, bool) go \<Rightarrow> (NetworkPoolManager, bool) go" where
  \<comment> \<open>a command, on an error of which the function cleans up and returns the error\<close>
  "exec_or env cleanup args rest = gbind (exec_fails env args) (\<lambda>err. if err then gthen cleanup (gret True) else rest)"

definition inNamespace :: "string \<Rightarrow> string list \<Rightarrow> string list" where
  "inNamespace ns args = [''ip'', ''netns'', ''exec'', ns] @ args"

definition vethName :: "int32 \<Rightarrow> string" where
  "vethName n = ''fc-'' @ itoa (sint n) @ ''-veth''"

definition configureVETH :: "machine_env \<Rightarrow> string \<Rightarrow> string \<Rightarrow> string \<Rightarrow> string \<Rightarrow> string \<Rightarrow> string \<Rightarrow> string \<Rightarrow> (NetworkPoolManager, bool) go" where
  \<comment> \<open>the commands of \<^verbatim>\<open>createVETHPair\<close>, and whether there was an error\<close>
  "configureVETH env ns guestTAP guestSide hostSide hostIP workloadIP exposedIP =
     (let delNs = deleteNetworkNamespaceByName env ns; delBoth = gthen delNs (deleteDeviceByName env hostSide)
      in exec_or env delNs (inNamespace ns [''ip'', ''link'', ''add'', hostSide, ''type'', ''veth'', ''peer'', ''name'', guestSide])
        (exec_or env delNs (inNamespace ns [''ip'', ''link'', ''set'', hostSide, ''netns'', ''1''])
        (exec_or env delNs (inNamespace ns [''ip'', ''addr'', ''add'', workloadIP @ ''/24'', ''dev'', guestSide])
        (exec_or env delNs (inNamespace ns [''ip'', ''link'', ''set'', ''dev'', guestSide, ''up''])
        (exec_or env delBoth [''ip'', ''addr'', ''add'', hostIP @ ''/24'', ''dev'', hostSide]
        (exec_or env delBoth [''ip'', ''link'', ''set'', ''dev'', hostSide, ''up'']
        (exec_or env delBoth (inNamespace ns [''ip'', ''route'', ''add'', ''default'', ''via'', hostIP])
        (exec_or env delBoth (inNamespace ns [''iptables'', ''-t'', ''nat'', ''-A'', ''POSTROUTING'', ''-o'', guestSide, ''-s'', guestTAP,
              ''-j'', ''SNAT'', ''--to'', exposedIP])
        (exec_or env delBoth (inNamespace ns [''iptables'', ''-t'', ''nat'', ''-A'', ''PREROUTING'', ''-i'', guestSide, ''-d'', exposedIP,
              ''-j'', ''DNAT'', ''--to'', guestTAP])
        (exec_or env delBoth [''ip'', ''route'', ''add'', exposedIP, ''via'', workloadIP] (gret False)))))))))))"

definition createVETHPair :: "machine_env \<Rightarrow> string \<Rightarrow> string \<Rightarrow> (NetworkPoolManager, string \<times> string \<times> string \<times> string \<times> bool) go" where
  \<comment> \<open>of the name of the namespace; also returns the name that is stored in the configuration\<close>
  "createVETHPair env ns guestTAP =
     gbind (gget np_InterfaceNameGenerator) (\<lambda>counter.
       let (ident, counter') = VETH_Generate counter; guestSide = vethName ident; hostSide = vethName (ident + 1)
       in gthen (gmodify (\<lambda>s. s\<lparr>np_InterfaceNameGenerator := counter'\<rparr>))
      (gbind (gzoom np_InternalIPManager (\<lambda>m s. s\<lparr>np_InternalIPManager := m\<rparr>) GenerateIPMACPair) (\<lambda>(hostIP, workloadIP).
       gbind (gzoom np_ExposedIPManager (\<lambda>m s. s\<lparr>np_ExposedIPManager := m\<rparr>) GenerateSingleIP) (\<lambda>exposedIP.
         gbind (configureVETH env ns guestTAP guestSide hostSide hostIP workloadIP exposedIP) (\<lambda>err.
           gret (hostSide, exposedIP, hostIP, workloadIP, err))))))"

definition createTAP :: "machine_env \<Rightarrow> string \<Rightarrow> string \<Rightarrow> string \<Rightarrow> (NetworkPoolManager, bool) go" where
  \<comment> \<open>the namespace and its device, and whether there was an error\<close>
  "createTAP env ns gatewayIP dev =
     exec_or env (gret ()) [''ip'', ''netns'', ''add'', ns]
    (exec_or env (deleteNetworkNamespaceByName env ns) (inNamespace ns [''ip'', ''tuntap'', ''add'', ''dev'', dev, ''mode'', ''tap''])
    (exec_or env (deleteNetworkNamespaceByName env ns) (inNamespace ns [''ip'', ''addr'', ''add'', gatewayIP @ ''/30'', ''dev'', dev])
    (exec_or env (deleteNetworkNamespaceByName env ns) (inNamespace ns [''ip'', ''link'', ''set'', ''dev'', dev, ''up'']) (gret False))))"

definition createNetwork :: "machine_env \<Rightarrow> (NetworkPoolManager, NetworkConfig option) go" where
  \<comment> \<open>nothing on an error\<close>
  "createNetwork env =
     (let gatewayIP = ''169.254.0.1''; vmip = ''169.254.0.2''; mac = ''02:FC:00:00:00:00''; dev = ''fc-tap''
      in gbind (gget np_NetNSNameGenerator) (\<lambda>n.
       let ns = ''firecracker-'' @ dec (me_names env n)
       in gthen (gmodify (\<lambda>s. s\<lparr>np_NetNSNameGenerator := n + 1\<rparr>))
      (gbind (createTAP env ns gatewayIP dev)
        (\<lambda>err. if err then gret None else
          gbind (createVETHPair env ns vmip) (\<lambda>(hostName, exposedIP, vethInternalIP, vethExternalIP, err).
            gret (if err then None else Some \<lparr>nc_NetNS = ns, nc_TapDeviceName = dev, nc_TapMAC = mac, nc_TapExternalIP = gatewayIP,
              nc_TapInternalIP = vmip, nc_VETHHostName = hostName, nc_VETHInternalIP = vethInternalIP,
              nc_VETHExternalIP = vethExternalIP, nc_ExposedIP = exposedIP\<rparr>))))))"

fun populateLoop :: "machine_env \<Rightarrow> nat \<Rightarrow> (NetworkPoolManager, unit) go" where
  \<comment> \<open>a network that could not be created is in the pool as nil\<close>
  "populateLoop env 0 = gret ()"
| "populateLoop env (Suc n) = gbind (createNetwork env) (\<lambda>config.
     gthen (gmodify (\<lambda>s. s\<lparr>np_pool := np_pool s @ [config]\<rparr>)) (populateLoop env n))"

definition populate :: "machine_env \<Rightarrow> (NetworkPoolManager, unit) go" where
  "populate env = gbind (gget (\<lambda>s. nat (np_MaxNetworkPoolSize s - int (length (np_pool s))))) (populateLoop env)"

definition NewNetworkPoolManager :: "machine_env \<Rightarrow> string list list \<Rightarrow> string \<Rightarrow> string \<Rightarrow> int \<Rightarrow> (NetworkPoolManager, unit) outcome" where
  \<comment> \<open>of the commands that have been run so far\<close>
  "NewNetworkPoolManager env commands internalPrefix externalPrefix networkPoolSize =
     (let n = networkPoolSize - networkPoolSize smod 16
      in populate env \<lparr>np_InternalIPManager = NewIPManager internalPrefix, np_ExposedIPManager = NewIPManager externalPrefix,
           np_InterfaceNameGenerator = 0, np_NetNSNameGenerator = 0, np_MaxNetworkPoolSize = if n < 16 then 16 else n,
           np_pool = [], np_commands = commands\<rparr>)"

definition GiveUpNetwork :: "machine_env \<Rightarrow> NetworkConfig \<Rightarrow> (NetworkPoolManager, unit) go" where
  "GiveUpNetwork env config = gbind (gget (\<lambda>s. int (length (np_pool s)) < np_MaxNetworkPoolSize s)) (\<lambda>room.
     if room then gmodify (\<lambda>s. s\<lparr>np_pool := np_pool s @ [Some config]\<rparr>)
     else gthen (deleteNetworkNamespaceByName env (nc_NetNS config)) (deleteDeviceByName env (nc_VETHHostName config)))"

definition GetOneConfig :: "machine_env \<Rightarrow> (NetworkPoolManager, NetworkConfig option \<times> bool) go" where
  \<comment> \<open>also whether the goroutine that fills the pool is started\<close>
  "GetOneConfig env = gbind (gget np_pool) (\<lambda>pool. case pool of
       [] \<Rightarrow> gbind (createNetwork env) (\<lambda>config. gret (config, config \<noteq> None))
     | cfg # rest \<Rightarrow> gbind (gget (\<lambda>s. int (length pool) = np_MaxNetworkPoolSize s sdiv 4)) (\<lambda>low.
         gthen (gmodify (\<lambda>s. s\<lparr>np_pool := rest\<rparr>)) (gret (cfg, low))))"

definition DeleteUnusedNetworkDevices :: "machine_env \<Rightarrow> string list option \<Rightarrow> (NetworkPoolManager, bool) go" where
  \<comment> \<open>of the names of the devices, if they can be listed; whether there was an error\<close>
  "DeleteUnusedNetworkDevices env devices = (case devices of
       None \<Rightarrow> gret True
     | Some names \<Rightarrow> gthen (grange (filter (\<lambda>n. take 3 n = ''fc-'' \<and> drop (length n - 5) n = ''-veth'') names) (\<lambda>n.
           gthen (deleteDeviceByName env n) (gret (None :: unit option))))
         (exec_fails env [''ip'', ''-all'', ''netns'', ''delete'']))"

section \<open>Virtual machines\<close>

record SnapshotMetadata =
  sn_MemoryPath :: string
  sn_SnapshotPath :: string

record VMControlStructure =
  \<comment> \<open>the machine by its number\<close>
  vm_VM :: "nat option"
  vm_VMConfig :: "FirecrackerConfig option"
  vm_NetworkConfiguration :: "NetworkConfig option"
  vm_SandboxID :: string
  vm_KernelPath :: string
  vm_FileSystemPath :: string

record fc_runtime =
  fr_VMDebugMode :: bool
  fr_UseSnapshots :: bool
  fr_KernelPath :: string
  fr_FileSystemPath :: string
  fr_NetworkManager :: NetworkPoolManager
  fr_SandboxManager :: "VMControlStructure SandboxManager"
  fr_ProcessMonitor :: ProcessMonitor
  fr_SnapshotManager :: "(string, SnapshotMetadata) AtomicMap"
  fr_IPT :: "ipt_call list"
  fr_ports :: port_table
    \<comment> \<open>a variable of the package of the containerd runtime\<close>
  fr_ids :: nat
  fr_machines :: nat
  fr_channels :: nat
  fr_running :: "nat list"
    \<comment> \<open>history: the machines that have been started and not killed\<close>

abbreviation on_network :: "(NetworkPoolManager, 'a) go \<Rightarrow> (fc_runtime, 'a) go" where
  "on_network m \<equiv> gzoom fr_NetworkManager (\<lambda>t s. s\<lparr>fr_NetworkManager := t\<rparr>) m"

abbreviation on_sandboxes :: "(VMControlStructure SandboxManager, 'a) go \<Rightarrow> (fc_runtime, 'a) go" where
  "on_sandboxes m \<equiv> gzoom fr_SandboxManager (\<lambda>t s. s\<lparr>fr_SandboxManager := t\<rparr>) m"

abbreviation on_monitor :: "(ProcessMonitor, 'a) go \<Rightarrow> (fc_runtime, 'a) go" where
  "on_monitor m \<equiv> gzoom fr_ProcessMonitor (\<lambda>t s. s\<lparr>fr_ProcessMonitor := t\<rparr>) m"

abbreviation on_ipt :: "(ipt_call list, 'a) go \<Rightarrow> (fc_runtime, 'a) go" where
  "on_ipt m \<equiv> gzoom fr_IPT (\<lambda>t s. s\<lparr>fr_IPT := t\<rparr>) m"

abbreviation on_ports :: "(port_table, 'a) go \<Rightarrow> (fc_runtime, 'a) go" where
  "on_ports m \<equiv> gzoom fr_ports (\<lambda>t s. s\<lparr>fr_ports := t\<rparr>) m"

definition makeSocketPath :: "string \<Rightarrow> string" where
  "makeSocketPath vmmID = ''/tmp/'' @ vmmID"

definition kernelArgs :: "bool \<Rightarrow> string" where
  "kernelArgs vmDebugMode = (if vmDebugMode
     then ''panic=1 pci=off nomodule reboot=k tsc=reliable quiet i8042.noaux ipv6.disable=1 console=ttyS0 random.trust_cpu=on''
     else ''panic=1 pci=off nomodule reboot=k tsc=reliable quiet i8042.nokbd i8042.noaux 8250.nr_uarts=0 ipv6.disable=1'')"

definition logPath :: "string \<Rightarrow> string" where
  "logPath sandboxID = ''/tmp/'' @ sandboxID @ ''.log''"

definition makeFirecrackerConfig :: "VMControlStructure \<Rightarrow> bool \<Rightarrow> VMControlStructure" where
  "makeFirecrackerConfig vmcs vmDebugMode = (case vm_NetworkConfiguration vmcs of
       None \<Rightarrow> vmcs
     | Some net \<Rightarrow> vmcs\<lparr>vm_VMConfig := Some \<lparr>fc_SocketPath = makeSocketPath (vm_SandboxID vmcs), fc_KernelImagePath = vm_KernelPath vmcs,
         fc_KernelArgs = kernelArgs vmDebugMode @ '' ip='' @ nc_TapInternalIP net @ ''::'' @ nc_TapExternalIP net @ '':255.255.255.252::eth0:off'',
         fc_LogPath = logPath (vm_SandboxID vmcs), fc_LogLevel = ''Info'', fc_PathOnHost = vm_FileSystemPath vmcs,
         fc_HostDevName = nc_TapDeviceName net, fc_MacAddress = nc_TapMAC net, fc_NetNS = ''/var/run/netns/'' @ nc_NetNS net\<rparr>\<rparr>)"

definition snapshotConfig :: "SnapshotMetadata option \<Rightarrow> FirecrackerConfig \<Rightarrow> FirecrackerConfig" where
  \<comment> \<open>with a snapshot the other fields are left empty\<close>
  "snapshotConfig snapshot c = (case snapshot of None \<Rightarrow> c
     | Some _ \<Rightarrow> c\<lparr>fc_KernelImagePath := [], fc_KernelArgs := [], fc_LogPath := []\<rparr>)"

definition giveUp :: "machine_env \<Rightarrow> VMControlStructure \<Rightarrow> (fc_runtime, unit) go" where
  \<comment> \<open>\<^verbatim>\<open>GiveUpNetwork(vmcs.NetworkConfiguration)\<close>\<close>
  "giveUp env vmcs = (case vm_NetworkConfiguration vmcs of
       None \<Rightarrow> on_network (gmodify (\<lambda>s. s\<lparr>np_pool := np_pool s @ [None]\<rparr>))
     | Some net \<Rightarrow> on_network (GiveUpNetwork env net))"

definition StartFirecrackerVM ::
  "machine_env \<Rightarrow> VMControlStructure \<Rightarrow> SnapshotMetadata option \<Rightarrow> (fc_runtime, string option \<times> VMControlStructure) go" where
  "StartFirecrackerVM env vmcs snapshotMetadata =
     gbind (on_network (GetOneConfig env)) (\<lambda>(net, _).
       if net = None then gret (Some ''error getting a network interface'', vmcs)
       else gbind (gget fr_VMDebugMode) (\<lambda>debug.
         let vmcs1 = makeFirecrackerConfig (vmcs\<lparr>vm_NetworkConfiguration := net\<rparr>) debug;
             config = snapshotConfig snapshotMetadata (the (vm_VMConfig vmcs1));
             vmcs2 = vmcs1\<lparr>vm_VMConfig := Some config\<rparr>
         in gbind (gget fr_machines) (\<lambda>m.
            gthen (gmodify (\<lambda>s. s\<lparr>fr_machines := m + 1\<rparr>))
              (if \<not> me_NewMachine env m config then gthen (giveUp env vmcs2) (gret (Some ''create'', vmcs2))
               else let vmcs3 = vmcs2\<lparr>vm_VM := Some m\<rparr>
                 in if \<not> me_Start env m then gthen (giveUp env vmcs3) (gret (Some ''start'', vmcs3))
                    else gthen (gmodify (\<lambda>s. s\<lparr>fr_running := fr_running s @ [m]\<rparr>))
                      (if snapshotMetadata \<noteq> None \<and> \<not> me_Resume env m
                       then gthen (giveUp env vmcs3) (gret (Some ''resume'', vmcs3))
                       else gret (None, vmcs3))))))"

definition StopFirecrackerVM :: "machine_env \<Rightarrow> VMControlStructure \<Rightarrow> (fc_runtime, string option) go" where
  \<comment> \<open>the machine is killed by its process id\<close>
  "StopFirecrackerVM env vmcs = (case vm_VM vmcs of
       None \<Rightarrow> gpanic ''nil pointer dereference''
     | Some m \<Rightarrow> (case me_PID env m of
         None \<Rightarrow> gret (Some ''pid'')
       | Some _ \<Rightarrow> gthen (gmodify (\<lambda>s. s\<lparr>fr_running := remove1 m (fr_running s)\<rparr>)) (gret None)))"

section \<open>The runtime\<close>

definition createVMCS :: "machine_env \<Rightarrow> (fc_runtime, VMControlStructure) go" where
  "createVMCS env = gbind (gget (\<lambda>s. (fr_ids s, fr_KernelPath s, fr_FileSystemPath s))) (\<lambda>(n, kernel, fs).
     gthen (gmodify (\<lambda>s. s\<lparr>fr_ids := n + 1\<rparr>))
       (gret \<lparr>vm_VM = None, vm_VMConfig = None, vm_NetworkConfiguration = None, vm_SandboxID = ''firecracker-'' @ dec (me_ids env n),
          vm_KernelPath = kernel, vm_FileSystemPath = fs\<rparr>))"

definition createMetadata :: "ServiceInfo \<Rightarrow> VMControlStructure \<Rightarrow> nat \<Rightarrow> VMControlStructure Metadata" where
  "createMetadata inp vmcs channel = \<lparr>md_ServiceName = si_Name inp, md_RuntimeMetadata = vmcs, md_HostPort = 0,
     md_IP = (case vm_NetworkConfiguration vmcs of None \<Rightarrow> [] | Some net \<Rightarrow> nc_TapInternalIP net),
     md_GuestPort = pm_GuestPort (si_PortForwarding inp), md_NetNs = [], md_ExitStatusChannel = channel\<rparr>"

definition CreateVMSnapshot :: "machine_env \<Rightarrow> VMControlStructure \<Rightarrow> nat \<Rightarrow> SnapshotMetadata option" where
  "CreateVMSnapshot env vmcs m =
     (if \<not> me_Pause env m then None
      else if \<not> me_MkdirAll env then None
      else if \<not> me_CreateSnapshot env m then None
      else Some \<lparr>sn_MemoryPath = ''/tmp/snapshots/memory-firecracker-'' @ vm_SandboxID vmcs,
                 sn_SnapshotPath = ''/tmp/snapshots/snapshot-firecracker-'' @ vm_SandboxID vmcs\<rparr>)"

definition FC_DeleteSandbox :: "machine_env \<Rightarrow> string \<Rightarrow> (fc_runtime, ActionStatus) go" where
  \<comment> \<open>an error of the last steps is only logged; the log file of the machine is not modelled\<close>
  "FC_DeleteSandbox env ident =
     gbind (on_sandboxes (SM_DeleteSandbox ident)) (\<lambda>metadata. case metadata of
         None \<Rightarrow> gret Failed
       | Some md \<Rightarrow>
           gthen (on_ipt (DeleteRules (md_HostPort md) (md_IP md) (md_GuestPort md)))
          (gthen (on_ports (UnassignPort (md_HostPort md)))
          (gthen (StopFirecrackerVM env (md_RuntimeMetadata md))
          (gthen (giveUp env (md_RuntimeMetadata md)) (gret Success)))))"

definition Snapshot_Exists :: "string \<Rightarrow> (string, SnapshotMetadata) AtomicMap \<Rightarrow> bool" where
  "Snapshot_Exists name sm = (AtomicMap_Get sm name \<noteq> None)"

definition AddSnapshot :: "string \<Rightarrow> SnapshotMetadata \<Rightarrow> (string, SnapshotMetadata) AtomicMap \<Rightarrow> (string, SnapshotMetadata) AtomicMap" where
  "AddSnapshot ident metadata sm = snd (AtomicMap_LoadOrStore ident metadata sm)"

definition FindSnapshot :: "string \<Rightarrow> (string, SnapshotMetadata) AtomicMap \<Rightarrow> SnapshotMetadata option" where
  "FindSnapshot name sm = AtomicMap_Get sm name"

definition takeSnapshot :: "machine_env \<Rightarrow> ServiceInfo \<Rightarrow> VMControlStructure \<Rightarrow> nat \<Rightarrow> bool \<Rightarrow> (fc_runtime, bool) go" where
  \<comment> \<open>whether the sandbox still counts as ready\<close>
  "takeSnapshot env inp vmcs m passed =
     gbind (gget (\<lambda>s. fr_UseSnapshots s \<and> \<not> Snapshot_Exists (si_Image inp) (fr_SnapshotManager s))) (\<lambda>new.
       if passed \<and> new then
         gthen (case CreateVMSnapshot env vmcs m of
               None \<Rightarrow> gret ()
             | Some paths \<Rightarrow> gmodify (\<lambda>s. s\<lparr>fr_SnapshotManager := AddSnapshot (si_Image inp) paths (fr_SnapshotManager s)\<rparr>))
           (gret (me_Resume env m))
       else gret passed)"

definition FC_CreateSandbox :: "machine_env \<Rightarrow> ServiceInfo \<Rightarrow> (fc_runtime, SandboxCreationStatus \<times> string option) go" where
  "FC_CreateSandbox env inp =
     gbind (createVMCS env) (\<lambda>vmcs0.
     gbind (gget (\<lambda>s. FindSnapshot (si_Image inp) (fr_SnapshotManager s))) (\<lambda>snapshot.
     gbind (StartFirecrackerVM env vmcs0 snapshot) (\<lambda>(err, vmcs).
       if err \<noteq> None then gret (\<lparr>sc_Success = False, sc_ID = [], sc_PortMappings = None\<rparr>, err)
       else gbind (gget fr_channels) (\<lambda>channel.
         gthen (gmodify (\<lambda>s. s\<lparr>fr_channels := channel + 1\<rparr>))
        (gbind (on_ports (AssignRandomPort (me_ports env))) (\<lambda>port.
           let m = the (vm_VM vmcs); net = the (vm_NetworkConfiguration vmcs);
               md = (createMetadata inp vmcs channel)\<lparr>md_HostPort := port, md_IP := nc_ExposedIP net\<rparr>
           in case me_PID env m of
               None \<Rightarrow> gthen (giveUp env vmcs) (gthen (on_ports (UnassignPort port))
                 (gret (\<lparr>sc_Success = False, sc_ID = [], sc_PortMappings = None\<rparr>, Some ''pid'')))
             | Some pid \<Rightarrow>
                 gthen (on_sandboxes (gmodify (AddSandbox (vm_SandboxID vmcs) md)))
                (gthen (on_monitor (AddChannel pid channel))
                (gthen (on_ipt (AddRules port (nc_ExposedIP net) (md_GuestPort md)))
                (gthen (on_monitor (gmodify (\<lambda>s. s\<lparr>pm_watching := channel # pm_watching s\<rparr>)))
                (case SendReadinessProbe (me_healthy env m) of
                   None \<Rightarrow> gblock ''readiness probe''
                 | Some (passed, _) \<Rightarrow> gbind (takeSnapshot env inp vmcs m passed) (\<lambda>passed.
                     if passed then gret (\<lparr>sc_Success = True, sc_ID = vm_SandboxID vmcs,
                         sc_PortMappings = Some ((si_PortForwarding inp)\<lparr>pm_HostPort := port\<rparr>)\<rparr>, None)
                     else gthen (FC_DeleteSandbox env (vm_SandboxID vmcs))
                       (gret (\<lparr>sc_Success = False, sc_ID = vm_SandboxID vmcs, sc_PortMappings = None\<rparr>, None)))))))))))))"

definition FC_ListEndpoints :: "fc_runtime \<Rightarrow> ProtoEndpoint list" where
  "FC_ListEndpoints s = SM_ListEndpoints (fr_SandboxManager s)"

definition NewFirecrackerRuntime ::
  "machine_env \<Rightarrow> string list option \<Rightarrow> bool \<Rightarrow> ProcessMonitor \<Rightarrow> string \<Rightarrow> WorkerNodeConfig \<Rightarrow> (fc_runtime, unit) outcome" where
  \<comment> \<open>of the devices that are there, whether iptables can be used, the process monitor and the name of the node\<close>
  "NewFirecrackerRuntime env devices ipt pm nodeName cfg =
     (let runtime = (\<lambda>np. \<lparr>fr_VMDebugMode = wnc_FirecrackerVMDebugMode cfg, fr_UseSnapshots = wnc_FirecrackerUseSnapshots cfg,
          fr_KernelPath = wnc_FirecrackerKernel cfg, fr_FileSystemPath = wnc_FirecrackerFileSystem cfg, fr_NetworkManager = np,
          fr_SandboxManager = NewSandboxManager nodeName, fr_ProcessMonitor = pm, fr_SnapshotManager = NewAtomicMap, fr_IPT = [],
          fr_ports = \<lparr>portsInUse = [], ports_drawn = 0\<rparr>, fr_ids = 0, fr_machines = 0, fr_channels = 0, fr_running = []\<rparr>);
          empty = \<lparr>np_InternalIPManager = NewIPManager [], np_ExposedIPManager = NewIPManager [], np_InterfaceNameGenerator = 0,
            np_NetNSNameGenerator = 0, np_MaxNetworkPoolSize = 0, np_pool = [], np_commands = []\<rparr>;
          commands = np_commands (out_state (DeleteUnusedNetworkDevices env devices empty))
      in if \<not> ipt then Panic ''Failed to start iptables utility. Terminating worker daemon.'' (runtime empty)
         else case NewNetworkPoolManager env commands (wnc_FirecrackerInternalIPPrefix cfg) (wnc_FirecrackerExposedIPPrefix cfg)
                (wnc_FirecrackerNetworkPoolSize cfg) of
           Ret _ np \<Rightarrow> Ret () (runtime np)
         | Panic e np \<Rightarrow> Panic e (runtime np)
         | Blocked e np \<Rightarrow> Blocked e (runtime np))"



section \<open>Resources that are held\<close>

text \<open>
  Ports and networks are handed out and given back. The contract: a resource that is acquired is held by nobody else, and a
  resource that is given back can be handed out again. \<open>ok s held\<close> says that the manager in state \<open>s\<close> has
  handed out the resources \<open>held\<close>.
\<close>

locale resource_manager =
  fixes ok :: "'s \<Rightarrow> 'r list \<Rightarrow> bool" and acquire :: "('s, 'r option) go" and release :: "'r \<Rightarrow> ('s, unit) go"
  assumes ok_mset: "ok s held \<Longrightarrow> mset held = mset held' \<Longrightarrow> ok s held'"
    and ok_distinct: "ok s held \<Longrightarrow> distinct held"
    and acquire: "ok s held \<Longrightarrow> rets acquire s (\<lambda>r s'. case r of None \<Rightarrow> ok s' held | Some x \<Rightarrow> ok s' (x # held))"
    and release: "ok s (x # held) \<Longrightarrow> rets (release x) s (\<lambda>_ s'. ok s' held)"
begin

lemma acquired_new: "ok s held \<Longrightarrow> rets acquire s (\<lambda>r _. \<forall>x. r = Some x \<longrightarrow> x \<notin> set held)"
proof -
  assume "ok s held"
  have "x \<notin> set held" if "ok s' (x # held)" for s' x using ok_distinct [OF that] by simp
  then show ?thesis using rets_mono [OF acquire [OF \<open>ok s held\<close>]] by (auto split: option.splits)
qed

lemma release_any:
  assumes "ok s held" and "x \<in> set held"
  shows "rets (release x) s (\<lambda>_ s'. ok s' (remove1 x held))"
proof (rule release)
  show "ok s (x # remove1 x held)" by (rule ok_mset [OF assms(1)]) (use assms(2) in simp)
qed

lemma acquire_release:
  assumes "ok s held"
  shows "rets (gbind acquire (\<lambda>r. case r of None \<Rightarrow> gret () | Some x \<Rightarrow> release x)) s (\<lambda>_ s'. ok s' held)"
  unfolding rets_simps
proof (rule rets_mono [OF acquire [OF assms]])
  fix r s'
  assume "case r of None \<Rightarrow> ok s' held | Some x \<Rightarrow> ok s' (x # held)"
  then show "rets (case r of None \<Rightarrow> gret () | Some x \<Rightarrow> release x) s' (\<lambda>_ s'. ok s' held)"
    by (cases r) (auto simp: rets_simps intro: release)
qed

end

subsection \<open>Ports\<close>

definition ports_ok :: "port_table \<Rightarrow> int list \<Rightarrow> bool" where
  "ports_ok st held \<longleftrightarrow> gm_wf (portsInUse st) \<and> distinct held \<and> set held = fst ` set (portsInUse st)"

lemma AssignRandomPort_ok: "ports_ok st held \<Longrightarrow> rets (AssignRandomPort rnd) st (\<lambda>port st'. ports_ok st' (port # held))"
proof (unfold rets_def, intro allI impI)
  fix port st'
  assume ok: "ports_ok st held" and "AssignRandomPort rnd st = Ret port st'"
  then obtain n where "portLoop rnd (portsInUse st) (ports_drawn st) = Some (port, n)"
    and st': "st' = \<lparr>portsInUse = gm_set port () (portsInUse st), ports_drawn = n\<rparr>"
    by (auto simp: AssignRandomPort_def split: option.splits)
  then have "map_of (portsInUse st) port = None" using portLoop_SomeD by fastforce
  then have "port \<notin> fst ` set (portsInUse st)" by (simp add: map_of_eq_None_iff)
  with ok show "ports_ok st' (port # held)" by (simp add: ports_ok_def st' gm_set_fresh gm_wf_def)
qed

lemma UnassignPort_ok: "ports_ok st (port # held) \<Longrightarrow> rets (UnassignPort port) st (\<lambda>_ st'. ports_ok st' held)"
  unfolding UnassignPort_def rets_simps by (auto simp: ports_ok_def set_gm_del)

interpretation ports: resource_manager ports_ok "gbind (AssignRandomPort rnd) (\<lambda>p. gret (Some p))" UnassignPort
proof
  show "ports_ok s held'" if "ports_ok s held" "mset held = mset held'" for s held held'
    using that by (metis ports_ok_def mset_eq_imp_distinct_iff set_mset_mset)
  show "distinct held" if "ports_ok s held" for s held using that by (simp add: ports_ok_def)
  show "rets (gbind (AssignRandomPort rnd) (\<lambda>p. gret (Some p))) s (\<lambda>r s'. case r of None \<Rightarrow> ports_ok s' held | Some x \<Rightarrow> ports_ok s' (x # held))"
    if "ports_ok s held" for s held using AssignRandomPort_ok [OF that] by (simp add: rets_simps)
qed (rule UnassignPort_ok)

subsection \<open>Networks\<close>

abbreviation cnt :: "NetworkPoolManager \<Rightarrow> nat" where
  "cnt np \<equiv> unat (allocationCounter (np_ExposedIPManager np))"

abbreviation pre :: "NetworkPoolManager \<Rightarrow> string" where
  "pre np \<equiv> networkPrefix (np_ExposedIPManager np)"

definition pool_nets :: "NetworkPoolManager \<Rightarrow> NetworkConfig list" where
  "pool_nets np = map the (filter (\<lambda>x. x \<noteq> None) (np_pool np))"

definition nets_ok :: "NetworkPoolManager \<Rightarrow> NetworkConfig list \<Rightarrow> bool" where
  \<comment> \<open>the addresses of the networks in the pool and of those that are held have been generated, each one for one network\<close>
  "nets_ok np held \<longleftrightarrow> distinct (map nc_ExposedIP (pool_nets np @ held)) \<and>
     (\<forall>net \<in> set (pool_nets np @ held). \<exists>u < cnt np. nc_ExposedIP net = ip_text (pre np) u)"

definition later :: "NetworkPoolManager \<Rightarrow> NetworkPoolManager \<Rightarrow> bool" where
  \<comment> \<open>only addresses have been generated\<close>
  "later np np' \<longleftrightarrow> np_pool np' = np_pool np \<and> pre np' = pre np \<and> cnt np \<le> cnt np'"

lemma later_refl [simp]: "later np np" and later_trans: "later a b \<Longrightarrow> later b c \<Longrightarrow> later a c"
  by (simp_all add: later_def)

lemma nets_ok_later: "nets_ok np held \<Longrightarrow> later np np' \<Longrightarrow> nets_ok np' held"
  unfolding nets_ok_def pool_nets_def later_def by (metis order_less_le_trans)

lemma singleIPLoop_next:
  "singleIPLoop s = Ret (c, d) s' \<Longrightarrow> networkPrefix s' = networkPrefix s \<and> (\<exists>u. unat (allocationCounter s) \<le> u \<and> u < unat (allocationCounter s') \<and>
     unat c = u div 256 \<and> unat d = u mod 256)"
proof (induction s rule: singleIPLoop.induct)
  case (1 s)
  from "1.prems" obtain c1 d1 s1 where r: "generateRawGatewayIP s = Ret (c1, d1) s1"
    by (subst (asm) singleIPLoop.simps) (auto split: outcome.splits)
  note cnt = generateRaw_counts [OF r]
  have "generateRawGatewayIP s = generateRawGatewayIP (ipm_at (networkPrefix s) (unat (allocationCounter s)))" by (cases s) simp
  from r [unfolded this] raw_at [OF cnt(2), of "networkPrefix s"]
  have r1: "c1 = of_nat (unat (allocationCounter s) div 256)" "d1 = of_nat (unat (allocationCounter s) mod 256)" "networkPrefix s1 = networkPrefix s"
    by simp_all
  show ?case
  proof (cases "d1 = 0 \<or> d1 = 255")
    case True
    then have "singleIPLoop s1 = Ret (c, d) s'" using "1.prems" r by (subst (asm) singleIPLoop.simps) simp
    from "1.IH" [OF r refl True this] obtain u where "networkPrefix s' = networkPrefix s1" "unat (allocationCounter s1) \<le> u"
      "u < unat (allocationCounter s')" "unat c = u div 256" "unat d = u mod 256" by (elim exE conjE)
    then show ?thesis using r1(3) cnt(1) by (intro conjI exI [of _ u]) simp_all
  next
    case False
    then have "c = c1" "d = d1" "s' = s1" using "1.prems" r by (subst (asm) singleIPLoop.simps, simp)+
    then show ?thesis using r1 cnt by (auto simp: unat_small intro!: exI [of _ "unat (allocationCounter s)"])
  qed
qed

lemma GenerateSingleIP_new:
  "rets GenerateSingleIP s (\<lambda>ip s'. networkPrefix s' = networkPrefix s \<and> unat (allocationCounter s) \<le> unat (allocationCounter s') \<and>
     (\<exists>u. unat (allocationCounter s) \<le> u \<and> u < unat (allocationCounter s') \<and> ip = ip_text (networkPrefix s) u))"
proof -
  have "rets singleIPLoop s (\<lambda>(c, d) s'. networkPrefix s' = networkPrefix s \<and> (\<exists>u. unat (allocationCounter s) \<le> u \<and>
     u < unat (allocationCounter s') \<and> unat c = u div 256 \<and> unat d = u mod 256))"
    using singleIPLoop_next by (auto simp: rets_def)
  then show ?thesis unfolding GenerateSingleIP_def rets_simps
    by (rule rets_mono) (auto simp: rets_simps ip_text_def)
qed


definition tidy :: "(NetworkPoolManager, 'a) go \<Rightarrow> bool" where
  \<comment> \<open>code that leaves the pool and the addresses alone\<close>
  "tidy m \<longleftrightarrow> (\<forall>np. rets m np (\<lambda>_ np'. \<exists>cs. np' = np\<lparr>np_commands := cs\<rparr>))"

lemma tidy_exec: "tidy (exec_fails env args)" "tidy (deleteDeviceByName env name)" "tidy (deleteNetworkNamespaceByName env name)" "tidy (gret x)"
proof -
  show "tidy (exec_fails env args)" for args unfolding tidy_def exec_fails_def by (auto simp: rets_simps)
  then show "tidy (deleteDeviceByName env name)" "tidy (deleteNetworkNamespaceByName env name)"
    by (auto simp: tidy_def deleteDeviceByName_def deleteNetworkNamespaceByName_def rets_simps)
  have "np = np\<lparr>np_commands := np_commands np\<rparr>" for np :: NetworkPoolManager by simp
  then show "tidy (gret x)" unfolding tidy_def rets_simps by blast
qed

lemma tidy_gbind:
  assumes "tidy m" and "\<And>x. tidy (f x)"
  shows "tidy (gbind m f)"
  unfolding tidy_def rets_simps
proof
  fix np
  show "rets m np (\<lambda>x np'. rets (f x) np' (\<lambda>_ np''. \<exists>cs. np'' = np\<lparr>np_commands := cs\<rparr>))"
  proof (rule rets_mono [OF assms(1) [unfolded tidy_def, rule_format]], elim exE)
    fix x np' cs
    assume np': "np' = np\<lparr>np_commands := cs\<rparr>"
    show "rets (f x) np' (\<lambda>_ np''. \<exists>cs. np'' = np\<lparr>np_commands := cs\<rparr>)"
    proof (rule rets_mono [OF assms(2) [unfolded tidy_def, rule_format]], elim exE)
      fix y np'' cs'
      assume "np'' = np'\<lparr>np_commands := cs'\<rparr>"
      then show "\<exists>cs. np'' = np\<lparr>np_commands := cs\<rparr>" by (intro exI [of _ cs']) (simp add: np')
    qed
  qed
qed

lemma tidy_gthen: "tidy m \<Longrightarrow> tidy n \<Longrightarrow> tidy (gthen m n)"
  unfolding gthen_def by (rule tidy_gbind)

lemma tidy_exec_or: "tidy cleanup \<Longrightarrow> tidy rest \<Longrightarrow> tidy (exec_or env cleanup args rest)"
  unfolding exec_or_def by (intro tidy_gbind tidy_exec) (simp add: tidy_gthen tidy_exec)

lemma tidyD: "tidy m \<Longrightarrow> rets m np (\<lambda>_ np'. later np np')"
  unfolding tidy_def by (erule allE, erule rets_mono) (auto simp: later_def)

lemmas tidy_intros = tidy_exec_or tidy_exec tidy_gthen

definition new_net :: "NetworkPoolManager \<Rightarrow> string \<Rightarrow> NetworkPoolManager \<Rightarrow> bool" where
  "new_net np ip np' \<longleftrightarrow> later np np' \<and> (\<exists>u. cnt np \<le> u \<and> u < cnt np' \<and> ip = ip_text (pre np) u)"

lemma new_net_later: "later a b \<Longrightarrow> new_net b ip c \<Longrightarrow> new_net a ip c" "new_net a ip b \<Longrightarrow> later b c \<Longrightarrow> new_net a ip c"
  unfolding new_net_def later_def by (metis order_trans, metis order_less_le_trans order_trans)

lemma tidy_configureVETH: "tidy (configureVETH env ns tap guestSide hostSide hostIP workloadIP exposedIP)"
  unfolding configureVETH_def Let_def by (intro tidy_intros)

lemma tidy_createTAP: "tidy (createTAP env ns ip dev)"
  unfolding createTAP_def by (intro tidy_intros)

lemma createVETHPair_new: "rets (createVETHPair env ns tap) np (\<lambda>r np'. new_net np (fst (snd r)) np')"
  unfolding createVETHPair_def VETH_Generate_def Let_def prod.case rets_simps case_prod_unfold fst_conv snd_conv
proof (rule rets_mono [where P = "\<lambda>_ _. True"], goal_cases)
  case (2 pair m)
  define np1 where "np1 = np\<lparr>np_InterfaceNameGenerator := np_InterfaceNameGenerator np + 2, np_InternalIPManager := m\<rparr>"
  have sel: "np_ExposedIPManager np1 = np_ExposedIPManager np" by (simp add: np1_def)
  show ?case
    unfolding np1_def [symmetric]
  proof (rule rets_mono [OF GenerateSingleIP_new], elim conjE exE, goal_cases)
    case (1 ip m' u)
    let ?np = "np1\<lparr>np_ExposedIPManager := m'\<rparr>"
    have new: "new_net np ip ?np" unfolding new_net_def later_def by (intro conjI exI [of _ u]) (use 1 sel in \<open>simp_all add: np1_def\<close>)
    show ?case by (rule rets_mono [OF tidyD [OF tidy_configureVETH]]) (rule new_net_later(2) [OF new])
  qed
qed (simp add: rets_def)

lemma createNetwork_new:
  "rets (createNetwork env) np (\<lambda>cfg np'. later np np' \<and> (\<forall>net. cfg = Some net \<longrightarrow> new_net np (nc_ExposedIP net) np'))"
  unfolding createNetwork_def Let_def rets_simps
proof (rule rets_mono [OF tidyD [OF tidy_createTAP]], goal_cases)
  case (1 err np1)
  then have l: "later np np1" by (simp add: later_def)
  show ?case
  proof (cases err)
    case True
    then show ?thesis using l by (simp add: rets_simps)
  next
    case False
    show ?thesis unfolding if_not_P [OF False] rets_simps
    proof (rule rets_mono [OF createVETHPair_new], goal_cases)
      case (1 r np2)
      then have "new_net np (fst (snd r)) np2" "later np np2" using l new_net_later(1) by (auto simp: new_net_def intro: later_trans)
      then show ?case by (simp add: case_prod_unfold rets_simps)
    qed
  qed
qed

lemma createNetwork_ok:
  assumes "nets_ok np held"
  shows "rets (createNetwork env) np (\<lambda>cfg np'. np_pool np' = np_pool np \<and> (case cfg of None \<Rightarrow> nets_ok np' held | Some net \<Rightarrow> nets_ok np' (net # held)))"
proof (rule rets_mono [OF createNetwork_new], elim conjE)
  fix cfg :: "NetworkConfig option" and np'
  assume l: "later np np'" and new: "\<forall>net. cfg = Some net \<longrightarrow> new_net np (nc_ExposedIP net) np'"
  have ok: "nets_ok np' held" by (rule nets_ok_later [OF assms l])
  show "np_pool np' = np_pool np \<and> (case cfg of None \<Rightarrow> nets_ok np' held | Some net \<Rightarrow> nets_ok np' (net # held))"
  proof (cases cfg)
    case None
    then show ?thesis using ok l by (simp add: later_def)
  next
    case (Some net)
    then obtain u where u: "cnt np \<le> u" "u < cnt np'" "nc_ExposedIP net = ip_text (pre np) u" using new by (auto simp: new_net_def)
    have "nc_ExposedIP net \<notin> nc_ExposedIP ` set (pool_nets np @ held)"
    proof
      assume "nc_ExposedIP net \<in> nc_ExposedIP ` set (pool_nets np @ held)"
      then obtain v where "v < cnt np" "ip_text (pre np) u = ip_text (pre np) v" using assms u(3) unfolding nets_ok_def by (metis (no_types, lifting) imageE)
      then show False using u(1) by (simp add: ip_text_inj)
    qed
    with ok u l have "nets_ok np' (net # held)" unfolding nets_ok_def pool_nets_def later_def by auto
    then show ?thesis using Some l by (simp add: later_def)
  qed
qed


lemma pool_nets_append [simp]: "pool_nets (np\<lparr>np_pool := np_pool np @ [cfg]\<rparr>) = pool_nets np @ (case cfg of None \<Rightarrow> [] | Some net \<Rightarrow> [net])"
  by (simp add: pool_nets_def split: option.splits)

lemma nets_ok_append:
  "nets_ok (np\<lparr>np_pool := np_pool np @ [None]\<rparr>) held = nets_ok np held"
  "nets_ok np (net # held) \<Longrightarrow> nets_ok (np\<lparr>np_pool := np_pool np @ [Some net]\<rparr>) held"
  unfolding nets_ok_def by auto

lemma nets_ok_drop: "nets_ok np (net # held) \<Longrightarrow> nets_ok np held"
  unfolding nets_ok_def by auto

lemma populateLoop_ok: "nets_ok np held \<Longrightarrow> rets (populateLoop env n) np (\<lambda>_ np'. nets_ok np' held)"
proof (induction n arbitrary: np)
  case 0
  then show ?case by (simp add: rets_simps)
next
  case (Suc n)
  show ?case unfolding populateLoop.simps rets_simps
  proof (rule rets_mono [OF createNetwork_ok [OF Suc.prems]], elim conjE, rule Suc.IH)
    fix cfg :: "NetworkConfig option" and np'
    assume "case cfg of None \<Rightarrow> nets_ok np' held | Some net \<Rightarrow> nets_ok np' (net # held)"
    then show "nets_ok (np'\<lparr>np_pool := np_pool np' @ [cfg]\<rparr>) held" by (cases cfg) (auto simp: nets_ok_append)
  qed
qed

lemma populate_ok: "nets_ok np held \<Longrightarrow> rets (populate env) np (\<lambda>_ np'. nets_ok np' held)"
  unfolding populate_def rets_simps by (rule populateLoop_ok)

lemma GiveUpNetwork_ok: "nets_ok np (net # held) \<Longrightarrow> rets (GiveUpNetwork env net) np (\<lambda>_ np'. nets_ok np' held)"
proof -
  assume ok: "nets_ok np (net # held)"
  have "tidy (gthen (deleteNetworkNamespaceByName env (nc_NetNS net)) (deleteDeviceByName env (nc_VETHHostName net)))"
    by (intro tidy_intros)
  then have "rets (gthen (deleteNetworkNamespaceByName env (nc_NetNS net)) (deleteDeviceByName env (nc_VETHHostName net))) np (\<lambda>_ np'. nets_ok np' held)"
    by (intro rets_mono [OF tidyD]) (auto intro: nets_ok_later [OF nets_ok_drop [OF ok]])
  then show ?thesis using ok unfolding GiveUpNetwork_def by (auto simp: rets_simps nets_ok_append)
qed

lemma GetOneConfig_ok:
  assumes "nets_ok np held"
  shows "rets (GetOneConfig env) np (\<lambda>r np'. case fst r of None \<Rightarrow> nets_ok np' held | Some net \<Rightarrow> nets_ok np' (net # held))"
proof (cases "np_pool np")
  case Nil
  show ?thesis unfolding GetOneConfig_def rets_simps Nil list.case by (rule rets_mono [OF createNetwork_ok [OF assms]]) simp
next
  case (Cons cfg rest)
  have "case cfg of None \<Rightarrow> nets_ok (np\<lparr>np_pool := rest\<rparr>) held | Some net \<Rightarrow> nets_ok (np\<lparr>np_pool := rest\<rparr>) (net # held)"
    using assms Cons by (cases cfg) (auto simp: nets_ok_def pool_nets_def)
  then show ?thesis using Cons by (simp add: GetOneConfig_def rets_simps)
qed

interpretation networks: resource_manager nets_ok "gbind (GetOneConfig env) (\<lambda>r. gret (fst r))" "GiveUpNetwork env"
proof
  show "nets_ok s held'" if "nets_ok s held" "mset held = mset held'" for s held held'
  proof -
    have "mset (map nc_ExposedIP (pool_nets s @ held)) = mset (map nc_ExposedIP (pool_nets s @ held'))" using that(2) by simp
    then have "distinct (map nc_ExposedIP (pool_nets s @ held')) = distinct (map nc_ExposedIP (pool_nets s @ held))" by (metis mset_eq_imp_distinct_iff)
    moreover have "set held' = set held" using that(2) by (metis set_mset_mset)
    ultimately show ?thesis using that(1) unfolding nets_ok_def by simp
  qed
  show "distinct held" if "nets_ok s held" for s held using that by (auto simp: nets_ok_def distinct_map)
  show "rets (gbind (GetOneConfig env) (\<lambda>r. gret (fst r))) s (\<lambda>r s'. case r of None \<Rightarrow> nets_ok s' held | Some x \<Rightarrow> nets_ok s' (x # held))"
    if "nets_ok s held" for s held using GetOneConfig_ok [OF that] by (simp add: rets_simps)
qed (rule GiveUpNetwork_ok)


section \<open>The books of the runtime\<close>

abbreviation sandboxes :: "fc_runtime \<Rightarrow> (string \<times> VMControlStructure Metadata) list" where
  "sandboxes s \<equiv> entries (sm_Metadata (fr_SandboxManager s))"

definition net_of :: "VMControlStructure Metadata \<Rightarrow> NetworkConfig" where
  "net_of md = the (vm_NetworkConfiguration (md_RuntimeMetadata md))"

definition machine_of :: "VMControlStructure Metadata \<Rightarrow> nat" where
  "machine_of md = the (vm_VM (md_RuntimeMetadata md))"

definition forwards :: "ipt_call list \<Rightarrow> string \<Rightarrow> string list \<Rightarrow> int" where
  \<comment> \<open>how often a rule has been added more than deleted\<close>
  "forwards calls chain r = int (count_list calls (IptAppend chain r)) - int (count_list calls (IptDelete chain r))"

definition forwarding :: "int \<Rightarrow> string \<Rightarrow> int \<Rightarrow> 'm Metadata list \<Rightarrow> int" where
  "forwarding p ip g ms = int (length (filter (\<lambda>md. md_HostPort md = p \<and> md_IP md = ip \<and> md_GuestPort md = g) ms))"

definition rules_ok :: "ipt_call list \<Rightarrow> 'm Metadata list \<Rightarrow> bool" where
  "rules_ok calls ms \<longleftrightarrow> (\<forall>p ip g. forwards calls ''PREROUTING'' (preroutingRule p ip g) = forwarding p ip g ms \<and>
     forwards calls ''OUTPUT'' (outputRule p ip g) = forwarding p ip g ms)"

definition reliable :: "machine_env \<Rightarrow> bool" where
  \<comment> \<open>a machine that has been started can be asked for its process and resumed\<close>
  "reliable env \<longleftrightarrow> (\<forall>m. me_PID env m \<noteq> None) \<and> (\<forall>m. me_Resume env m)"

definition books_of :: "machine_env \<Rightarrow> fc_runtime \<Rightarrow> VMControlStructure Metadata list \<Rightarrow> bool" where
  "books_of env s ms \<longleftrightarrow> ports_ok (fr_ports s) (map md_HostPort ms) \<and> nets_ok (fr_NetworkManager s) (map net_of ms) \<and>
     rules_ok (fr_IPT s) ms \<and> (reliable env \<longrightarrow> mset (fr_running s) = mset (map machine_of ms)) \<and>
     (\<forall>md \<in> set ms. vm_NetworkConfiguration (md_RuntimeMetadata md) = Some (net_of md) \<and> vm_VM (md_RuntimeMetadata md) = Some (machine_of md) \<and>
        md_IP md = nc_ExposedIP (net_of md))"

definition sandboxName :: "machine_env \<Rightarrow> nat \<Rightarrow> string" where
  "sandboxName env i = ''firecracker-'' @ dec (me_ids env i)"

definition fc_books :: "machine_env \<Rightarrow> fc_runtime \<Rightarrow> bool" where
  "fc_books env s \<longleftrightarrow> books_of env s (map snd (sandboxes s)) \<and> gm_wf (sandboxes s) \<and>
     (\<forall>k \<in> fst ` set (sandboxes s). \<exists>i < fr_ids s. k = sandboxName env i)"

lemma colon_inj: "ip @ '':'' @ itoa g = ip' @ '':'' @ itoa g' \<longleftrightarrow> ip = ip' \<and> g = g'"
proof
  assume "ip @ '':'' @ itoa g = ip' @ '':'' @ itoa g'"
  then have "rev (ip @ '':'' @ itoa g) = rev (ip' @ '':'' @ itoa g')" by simp
  then have "rev (itoa g) @ CHR '':'' # rev ip = rev (itoa g') @ CHR '':'' # rev ip'" by simp
  then show "ip = ip' \<and> g = g'" by (subst (asm) sep_inj) simp_all
qed simp

lemma rule_inj:
  "preroutingRule p ip g = preroutingRule p' ip' g' \<longleftrightarrow> p = p' \<and> ip = ip' \<and> g = g'"
  "outputRule p ip g = outputRule p' ip' g' \<longleftrightarrow> p = p' \<and> ip = ip' \<and> g = g'"
  using colon_inj [of ip g ip' g'] by (auto simp: preroutingRule_def outputRule_def)

lemma forwards_simps:
  "forwards (calls @ calls') chain r = forwards calls chain r + forwards calls' chain r" "forwards [] chain r = 0"
  "forwards (c # calls) chain r = (if c = IptAppend chain r then 1 else 0) - (if c = IptDelete chain r then 1 else 0) + forwards calls chain r"
  by (simp_all add: forwards_def)

lemma forwarding_Cons:
  "forwarding p ip g (md # ms) = (if md_HostPort md = p \<and> md_IP md = ip \<and> md_GuestPort md = g then 1 else 0) + forwarding p ip g ms"
  by (simp add: forwarding_def)

lemma rules_ok_add:
  assumes "rules_ok calls ms" and "md_HostPort md = p" "md_IP md = ip" "md_GuestPort md = g"
  shows "rules_ok (calls @ [IptAppend ''PREROUTING'' (preroutingRule p ip g), IptAppend ''OUTPUT'' (outputRule p ip g),
      IptAppendUnique ''POSTROUTING'' [''-j'', ''MASQUERADE''], IptForwardAccept]) (md # ms)"
  using assms by (simp add: rules_ok_def forwards_simps forwarding_Cons rule_inj)

lemma rules_ok_delete:
  assumes "rules_ok calls (md # ms)" and "md_HostPort md = p" "md_IP md = ip" "md_GuestPort md = g"
  shows "rules_ok (calls @ [IptDelete ''PREROUTING'' (preroutingRule p ip g), IptDelete ''OUTPUT'' (outputRule p ip g)]) ms"
  using assms by (simp add: rules_ok_def forwards_simps forwarding_Cons rule_inj)

lemma forwarding_mset: "mset ms = mset ms' \<Longrightarrow> forwarding p ip g ms = forwarding p ip g ms'"
proof -
  assume eq: "mset ms = mset ms'"
  have "length (filter P ms) = size (filter_mset P (mset ms))" for P :: "'a Metadata \<Rightarrow> bool" and ms
    by (simp only: mset_filter [symmetric] size_mset)
  then show ?thesis by (simp only: forwarding_def eq)
qed

lemma books_of_mset:
  assumes "books_of env s ms" and "mset ms = mset ms'"
  shows "books_of env s ms'"
proof -
  have b: "ports_ok (fr_ports s) (map md_HostPort ms)" "nets_ok (fr_NetworkManager s) (map net_of ms)" "rules_ok (fr_IPT s) ms"
    using assms(1) by (simp_all add: books_of_def)
  have "ports_ok (fr_ports s) (map md_HostPort ms')" by (rule ports.ok_mset [OF b(1)]) (simp add: assms(2))
  moreover have "nets_ok (fr_NetworkManager s) (map net_of ms')" by (rule networks.ok_mset [OF b(2)]) (simp add: assms(2))
  moreover have "rules_ok (fr_IPT s) ms'" using b(3) by (simp add: rules_ok_def forwarding_mset [OF assms(2)])
  moreover have "set ms' = set ms" by (rule mset_eq_setD [OF assms(2) [symmetric]])
  ultimately show ?thesis using assms(1) by (simp add: books_of_def assms(2))
qed

lemma release_sandbox:
  assumes "books_of env s (md # ms)"
  shows "rets (gthen (on_ipt (DeleteRules (md_HostPort md) (md_IP md) (md_GuestPort md)))
          (gthen (on_ports (UnassignPort (md_HostPort md)))
          (gthen (StopFirecrackerVM env (md_RuntimeMetadata md))
          (gthen (giveUp env (md_RuntimeMetadata md)) (gret Success))))) s
     (\<lambda>_ s'. books_of env s' ms \<and> fr_SandboxManager s' = fr_SandboxManager s \<and> fr_ids s' = fr_ids s)"
proof -
  have b: "ports_ok (fr_ports s) (md_HostPort md # map md_HostPort ms)" "nets_ok (fr_NetworkManager s) (net_of md # map net_of ms)"
    "rules_ok (fr_IPT s) (md # ms)" "reliable env \<longrightarrow> mset (fr_running s) = mset (machine_of md # map machine_of ms)"
    "vm_NetworkConfiguration (md_RuntimeMetadata md) = Some (net_of md)" "vm_VM (md_RuntimeMetadata md) = Some (machine_of md)"
    "\<forall>md \<in> set ms. vm_NetworkConfiguration (md_RuntimeMetadata md) = Some (net_of md) \<and> vm_VM (md_RuntimeMetadata md) = Some (machine_of md) \<and>
        md_IP md = nc_ExposedIP (net_of md)"
    using assms by (simp_all add: books_of_def)
  have ports: "ports_ok ((fr_ports s)\<lparr>portsInUse := gm_del (md_HostPort md) (portsInUse (fr_ports s))\<rparr>) (map md_HostPort ms)"
    using UnassignPort_ok [OF b(1)] by (simp add: UnassignPort_def rets_simps)
  have run: "reliable env \<longrightarrow> mset (fr_running s) - {#machine_of md#} = image_mset machine_of (mset ms)" using b(4) by simp
  have pid: "reliable env \<Longrightarrow> me_PID env (machine_of md) \<noteq> None" by (simp add: reliable_def)
  note back_to_pool = rets_mono [OF GiveUpNetwork_ok [OF b(2)]]
  show ?thesis
  proof (cases "me_PID env (machine_of md)")
    case None
    then have "\<not> reliable env" using pid by blast
    with None show ?thesis
      apply (simp add: DeleteRules_def UnassignPort_def StopFirecrackerVM_def giveUp_def b(5,6) rets_simps)
      apply (rule back_to_pool)
      apply (simp add: books_of_def ports rules_ok_delete [OF b(3)] b(7))
      done
  next
    case (Some pid)
    then show ?thesis
      apply (simp add: DeleteRules_def UnassignPort_def StopFirecrackerVM_def giveUp_def b(5,6) rets_simps)
      apply (rule back_to_pool)
      apply (simp add: books_of_def ports rules_ok_delete [OF b(3)] b(7) run)
      done
  qed
qed


lemma mset_gm_del: "gm_wf m \<Longrightarrow> map_of m k = Some v \<Longrightarrow> mset (map snd m) = mset (v # map snd (gm_del k m))"
proof (induction m)
  case (Cons p m)
  then show ?case by (cases p) (auto split: if_splits)
qed simp

lemma rets_any: "(\<And>x s'. Q x s') \<Longrightarrow> rets m s Q"
  by (simp add: rets_def)

lemma FC_DeleteSandbox_books:
  assumes "fc_books env s"
  shows "rets (FC_DeleteSandbox env k) s (\<lambda>_ s'. fc_books env s' \<and> sandboxes s' = gm_del k (sandboxes s))"
proof (cases "map_of (sandboxes s) k")
  case None
  then have "gm_del k (sandboxes s) = sandboxes s" by (simp add: map_of_eq_None_iff)
  with None assms show ?thesis by (simp add: FC_DeleteSandbox_def SM_DeleteSandbox_def AtomicMap_defs rets_simps)
next
  case (Some md)
  let ?s = "s\<lparr>fr_SandboxManager := fr_SandboxManager s\<lparr>sm_Metadata := AtomicMap_RemoveKey k (sm_Metadata (fr_SandboxManager s))\<rparr>\<rparr>"
  have wf: "gm_wf (sandboxes s)" and keys: "\<forall>k \<in> fst ` set (sandboxes s). \<exists>i < fr_ids s. k = sandboxName env i"
    and b: "books_of env s (map snd (sandboxes s))" using assms by (simp_all add: fc_books_def)
  have b': "books_of env ?s (md # map snd (gm_del k (sandboxes s)))"
    using books_of_mset [OF b mset_gm_del [OF wf Some]] by (simp add: books_of_def)
  have del: "sandboxes ?s = gm_del k (sandboxes s)" by (simp add: AtomicMap_defs)
  have "rets (FC_DeleteSandbox env k) s Q" if "rets (gthen (on_ipt (DeleteRules (md_HostPort md) (md_IP md) (md_GuestPort md)))
          (gthen (on_ports (UnassignPort (md_HostPort md)))
          (gthen (StopFirecrackerVM env (md_RuntimeMetadata md))
          (gthen (giveUp env (md_RuntimeMetadata md)) (gret Success))))) ?s Q" for Q
    using that Some by (simp add: FC_DeleteSandbox_def SM_DeleteSandbox_def AtomicMap_Get_def rets_simps)
  note run = this
  show ?thesis
  proof (rule run, goal_cases)
    case 1
    show ?case by (rule rets_mono [OF release_sandbox [OF b']]) (use wf keys del in \<open>auto simp: fc_books_def set_gm_del\<close>)
  qed
qed

definition pending :: "machine_env \<Rightarrow> fc_runtime \<Rightarrow> VMControlStructure Metadata list \<Rightarrow> int list \<Rightarrow> NetworkConfig list \<Rightarrow> nat list \<Rightarrow> bool" where
  \<comment> \<open>the books, with ports, networks and machines of a sandbox that is being created\<close>
  "pending env s ms ps ns vs \<longleftrightarrow> ports_ok (fr_ports s) (ps @ map md_HostPort ms) \<and> nets_ok (fr_NetworkManager s) (ns @ map net_of ms) \<and>
     rules_ok (fr_IPT s) ms \<and> (reliable env \<longrightarrow> mset (fr_running s) = mset (vs @ map machine_of ms)) \<and>
     (\<forall>md \<in> set ms. vm_NetworkConfiguration (md_RuntimeMetadata md) = Some (net_of md) \<and> vm_VM (md_RuntimeMetadata md) = Some (machine_of md) \<and>
        md_IP md = nc_ExposedIP (net_of md))"

lemma books_of_pending: "books_of env s ms \<longleftrightarrow> pending env s ms [] [] []"
  by (simp add: books_of_def pending_def)

lemma giveUp_pending:
  assumes "pending env s ms ps [net] vs" and "vm_NetworkConfiguration vmcs = Some net" and "reliable env \<Longrightarrow> vs' = vs"
  shows "rets (giveUp env vmcs) s (\<lambda>_ s'. pending env s' ms ps [] vs' \<and> fr_SandboxManager s' = fr_SandboxManager s \<and> fr_ids s' = fr_ids s)"
proof -
  have "nets_ok (fr_NetworkManager s) (net # map net_of ms)" using assms(1) by (simp add: pending_def)
  then have "rets (GiveUpNetwork env net) (fr_NetworkManager s) (\<lambda>_ np. nets_ok np (map net_of ms))" by (rule GiveUpNetwork_ok)
  then show ?thesis unfolding giveUp_def assms(2) option.case rets_simps
    by (rule rets_mono) (use assms(1,3) in \<open>auto simp: pending_def\<close>)
qed

lemma makeFirecrackerConfig_simps [simp]:
  "vm_NetworkConfiguration (makeFirecrackerConfig vmcs debug) = vm_NetworkConfiguration vmcs"
  "vm_SandboxID (makeFirecrackerConfig vmcs debug) = vm_SandboxID vmcs" "vm_VM (makeFirecrackerConfig vmcs debug) = vm_VM vmcs"
  by (simp_all add: makeFirecrackerConfig_def split: option.splits)

lemma StartFirecrackerVM_pending:
  assumes "pending env s ms [] [] []"
  shows "rets (StartFirecrackerVM env vmcs snapshot) s (\<lambda>r s'. fr_SandboxManager s' = fr_SandboxManager s \<and> fr_ids s' = fr_ids s \<and>
     (if fst r \<noteq> None then pending env s' ms [] [] []
      else \<exists>net m. vm_NetworkConfiguration (snd r) = Some net \<and> vm_VM (snd r) = Some m \<and> vm_SandboxID (snd r) = vm_SandboxID vmcs \<and>
        pending env s' ms [] [net] [m]))"
proof -
  have nets: "nets_ok (fr_NetworkManager s) (map net_of ms)" using assms by (simp add: pending_def)
  show ?thesis
    unfolding StartFirecrackerVM_def rets_simps case_prod_unfold
  proof (rule rets_mono [OF GetOneConfig_ok [OF nets]], goal_cases)
    case (1 r np)
    show ?case
    proof (cases "fst r")
      case None
      then show ?thesis using 1 assms by (simp add: pending_def rets_simps)
    next
      case (Some net)
      define s1 where "s1 = s\<lparr>fr_NetworkManager := np, fr_machines := Suc (fr_machines s)\<rparr>"
      have p: "pending env s1 ms [] [net] []" using 1 Some assms by (simp add: pending_def s1_def)
      have q: "pending env (s1\<lparr>fr_running := fr_running s @ [fr_machines s]\<rparr>) ms [] [net] [fr_machines s]"
        using p by (simp add: pending_def s1_def)
      let ?config = "snapshotConfig snapshot (the (vm_VMConfig (makeFirecrackerConfig (vmcs\<lparr>vm_NetworkConfiguration := Some net\<rparr>) (fr_VMDebugMode s))))"
      have given: "rets (giveUp env vmcs') s2 (\<lambda>_ s'. fr_SandboxManager s' = fr_SandboxManager s \<and> fr_ids s' = fr_ids s \<and> pending env s' ms [] [] [])"
        if "pending env s2 ms [] [net] vs" "vm_NetworkConfiguration vmcs' = Some net" "fr_SandboxManager s2 = fr_SandboxManager s" "fr_ids s2 = fr_ids s"
          "reliable env \<Longrightarrow> [] = vs" for vmcs' s2 vs
        by (rule rets_mono [OF giveUp_pending [OF that(1,2,5)]]) (simp_all add: that)
      show ?thesis
      proof (cases "me_NewMachine env (fr_machines s) ?config \<and> me_Start env (fr_machines s)")
        case False
        then show ?thesis using Some
          by (auto simp: rets_simps Let_def intro!: given [OF p [unfolded s1_def]])
      next
        case True
        have "\<not> reliable env" if "\<not> me_Resume env (fr_machines s)" using that by (auto simp: reliable_def)
        with True show ?thesis using Some
          by (cases "snapshot \<noteq> None \<and> \<not> me_Resume env (fr_machines s)")
            (auto simp: rets_simps Let_def q [unfolded s1_def] intro!: given [OF q [unfolded s1_def]])
      qed
    qed
  qed
qed


lemma takeSnapshot_keeps: "rets (takeSnapshot env inp vmcs m passed) s (\<lambda>_ s'. \<exists>sn. s' = s\<lparr>fr_SnapshotManager := sn\<rparr>)"
proof -
  have "\<exists>sn. s = s\<lparr>fr_SnapshotManager := sn\<rparr>" by (rule exI [of _ "fr_SnapshotManager s"]) simp
  then show ?thesis by (auto simp: takeSnapshot_def rets_simps split: option.splits)
qed

definition inherits :: "fc_runtime \<Rightarrow> fc_runtime \<Rightarrow> bool" where
  \<comment> \<open>the parts that the books read\<close>
  "inherits s s' \<longleftrightarrow> fr_SandboxManager s' = fr_SandboxManager s \<and> fr_ids s' = fr_ids s \<and> fr_ports s' = fr_ports s \<and>
     fr_NetworkManager s' = fr_NetworkManager s \<and> fr_IPT s' = fr_IPT s \<and> fr_running s' = fr_running s"

lemma books_inherits: "fc_books env s \<Longrightarrow> inherits s s' \<Longrightarrow> fc_books env s'"
  by (simp add: fc_books_def books_of_def inherits_def)

lemma AssignRandomPort_pending:
  assumes "pending env s ms [] ns vs"
  shows "rets (on_ports (AssignRandomPort rnd)) s (\<lambda>port s'. pending env s' ms [port] ns vs \<and>
    fr_SandboxManager s' = fr_SandboxManager s \<and> fr_ids s' = fr_ids s)"
proof -
  have "ports_ok (fr_ports s) (map md_HostPort ms)" using assms by (simp add: pending_def)
  from AssignRandomPort_ok [OF this] show ?thesis
    unfolding rets_simps by (rule rets_mono) (use assms in \<open>simp add: pending_def\<close>)
qed

lemma UnassignPort_pending:
  assumes "pending env s ms [port] ns vs"
  shows "rets (on_ports (UnassignPort port)) s (\<lambda>_ s'. pending env s' ms [] ns vs \<and>
    fr_SandboxManager s' = fr_SandboxManager s \<and> fr_ids s' = fr_ids s)"
proof -
  have "ports_ok (fr_ports s) (port # map md_HostPort ms)" using assms by (simp add: pending_def)
  from UnassignPort_ok [OF this] show ?thesis
    unfolding rets_simps by (rule rets_mono) (use assms in \<open>simp add: pending_def\<close>)
qed

lemma pending_added:
  assumes "pending env s ms [md_HostPort md] [net] [m]"
    and "vm_NetworkConfiguration (md_RuntimeMetadata md) = Some net" "vm_VM (md_RuntimeMetadata md) = Some m" "md_IP md = nc_ExposedIP net"
    and "fr_IPT s' = fr_IPT s @ [IptAppend ''PREROUTING'' (preroutingRule (md_HostPort md) (md_IP md) (md_GuestPort md)),
       IptAppend ''OUTPUT'' (outputRule (md_HostPort md) (md_IP md) (md_GuestPort md)),
       IptAppendUnique ''POSTROUTING'' [''-j'', ''MASQUERADE''], IptForwardAccept]"
    and "fr_ports s' = fr_ports s" "fr_NetworkManager s' = fr_NetworkManager s" "fr_running s' = fr_running s"
  shows "books_of env s' (md # ms)"
proof -
  have "net_of md = net" "machine_of md = m" using assms(2,3) by (simp_all add: net_of_def machine_of_def)
  moreover have "rules_ok (fr_IPT s') (md # ms)" unfolding assms(5)
    by (rule rules_ok_add) (use assms(1) in \<open>simp_all add: pending_def\<close>)
  ultimately show ?thesis using assms by (simp add: books_of_def pending_def)
qed

lemma books_added:
  assumes "books_of env s (md # map snd old)" and "sandboxes s = gm_set k md old" and "gm_wf old"
    and "\<forall>k \<in> fst ` set old. \<exists>i < n. k = sandboxName env i" and "k = sandboxName env n" and "fr_ids s = Suc n" and "inj (me_ids env)"
  shows "fc_books env s" and "sandboxes s = old @ [(k, md)]" and "gm_del k (sandboxes s) = old"
proof -
  have new: "k \<notin> fst ` set old"
  proof
    assume "k \<in> fst ` set old"
    then obtain i where "i < n" "me_ids env i = me_ids env n" using assms(4,5) by (auto simp: sandboxName_def)
    then show False using injD [OF assms(7)] by blast
  qed
  then show set: "sandboxes s = old @ [(k, md)]" using assms(2) by (simp add: gm_set_fresh)
  show "gm_del k (sandboxes s) = old" using new assms(2) by (simp add: gm_del_set_fresh)
  have "books_of env s (map snd (sandboxes s))" by (rule books_of_mset [OF assms(1)]) (simp add: set)
  moreover have "gm_wf (sandboxes s)" using assms(2,3) by simp
  moreover have "\<exists>i < fr_ids s. k' = sandboxName env i" if "k' \<in> fst ` set (sandboxes s)" for k'
    using that assms(4-6) set by (auto intro: less_SucI)
  ultimately show "fc_books env s" by (simp add: fc_books_def)
qed


definition created ::
  "machine_env \<Rightarrow> ServiceInfo \<Rightarrow> (string \<times> VMControlStructure Metadata) list \<Rightarrow> SandboxCreationStatus \<times> string option \<Rightarrow> fc_runtime \<Rightarrow> bool" where
  \<comment> \<open>the books after a creation from the sandboxes \<open>old\<close>: the new sandbox is there exactly when success is reported\<close>
  "created env inp old r s \<longleftrightarrow> fc_books env s \<and>
     (if sc_Success (fst r) then \<exists>md. sandboxes s = old @ [(sc_ID (fst r), md)] \<and>
        sc_PortMappings (fst r) = Some ((si_PortForwarding inp)\<lparr>pm_HostPort := md_HostPort md\<rparr>)
      else sandboxes s = old)"

lemma probe_books:
  assumes "fc_books env s" and "sandboxes s = old @ [(k, md)]" and "gm_del k (sandboxes s) = old" and "port = md_HostPort md"
  shows "rets (case SendReadinessProbe healthy of None \<Rightarrow> gblock ''readiness probe''
       | Some p \<Rightarrow> gbind (takeSnapshot env inp vmcs m (fst p)) (\<lambda>passed.
           if passed then gret (\<lparr>sc_Success = True, sc_ID = k, sc_PortMappings = Some ((si_PortForwarding inp)\<lparr>pm_HostPort := port\<rparr>)\<rparr>, None)
           else gthen (FC_DeleteSandbox env k) (gret (\<lparr>sc_Success = False, sc_ID = k, sc_PortMappings = None\<rparr>, None)))) s
     (created env inp old)"
proof (cases "SendReadinessProbe healthy")
  case None
  then show ?thesis by (simp add: rets_def gblock_def)
next
  case (Some p)
  show ?thesis unfolding Some option.case rets_simps
  proof (rule rets_mono [OF takeSnapshot_keeps], goal_cases)
    case (1 passed s')
    then have s': "fc_books env s'" "sandboxes s' = sandboxes s" using books_inherits [OF assms(1)] by (auto simp: inherits_def)
    then show ?case using assms(2-4)
      by (cases passed) (auto simp: rets_simps created_def intro!: rets_mono [OF FC_DeleteSandbox_books [OF s'(1)]])
  qed
qed

lemma unregistered_books:
  assumes "pending env s (map snd old) [port] [net] [m]" and "sandboxes s = old" and "gm_wf old"
    and keys: "\<forall>k \<in> fst ` set old. \<exists>i < n. k = sandboxName env i" and "fr_ids s = Suc n"
    and "me_PID env m = None" and net: "vm_NetworkConfiguration vmcs = Some net"
  shows "rets (gthen (giveUp env vmcs) (gthen (on_ports (UnassignPort port))
     (gret (\<lparr>sc_Success = False, sc_ID = [], sc_PortMappings = None\<rparr>, Some ''pid'')))) s (created env inp old)"
proof -
  have "\<not> reliable env" using assms(6) by (auto simp: reliable_def)
  then have "rets (giveUp env vmcs) s (\<lambda>_ s'. pending env s' (map snd old) [port] [] [] \<and>
      fr_SandboxManager s' = fr_SandboxManager s \<and> fr_ids s' = fr_ids s)" by (intro giveUp_pending [OF assms(1) net]) simp
  then show ?thesis unfolding rets_simps(3)
  proof (rule rets_mono, goal_cases)
    case (1 x s')
    then have p: "pending env s' (map snd old) [port] [] []" by blast
    show ?case by (rule rets_mono [OF UnassignPort_pending [OF p]])
      (use 1 assms(2,3,5) keys in \<open>auto simp: rets_simps created_def fc_books_def books_of_pending intro: less_SucI\<close>)
  qed
qed

lemma registered_books:
  assumes p: "pending env s (map snd old) [port] [net] [m]" and old: "sandboxes s = old" "gm_wf old"
    "\<forall>k \<in> fst ` set old. \<exists>i < n. k = sandboxName env i" and k: "k = sandboxName env n" "fr_ids s = Suc n" "inj (me_ids env)"
    and md: "vm_NetworkConfiguration (md_RuntimeMetadata md) = Some net" "vm_VM (md_RuntimeMetadata md) = Some m"
      "md_IP md = nc_ExposedIP net" "md_HostPort md = port"
    and probe: "\<And>s'. fc_books env s' \<Longrightarrow> sandboxes s' = old @ [(k, md)] \<Longrightarrow> gm_del k (sandboxes s') = old \<Longrightarrow>
      rets probe s' (created env inp old)"
  shows "rets (gthen (on_sandboxes (gmodify (AddSandbox k md)))
     (gthen (on_monitor (AddChannel pid channel))
     (gthen (on_ipt (AddRules port (nc_ExposedIP net) (md_GuestPort md)))
     (gthen (on_monitor (gmodify watch)) probe)))) s (created env inp old)"
  unfolding rets_simps
proof (rule rets_any)
  fix x t
  let ?s = "s\<lparr>fr_SandboxManager := AddSandbox k md (fr_SandboxManager s), fr_ProcessMonitor := t\<rparr>"
  let ?calls = "fr_IPT s @ [IptAppend ''PREROUTING'' (preroutingRule port (nc_ExposedIP net) (md_GuestPort md)),
    IptAppend ''OUTPUT'' (outputRule port (nc_ExposedIP net) (md_GuestPort md)), IptAppendUnique ''POSTROUTING'' [''-j'', ''MASQUERADE''], IptForwardAccept]"
  let ?s' = "s\<lparr>fr_SandboxManager := AddSandbox k md (fr_SandboxManager s), fr_IPT := ?calls, fr_ProcessMonitor := watch t\<rparr>"
  have b: "books_of env ?s' (md # map snd old)" by (rule pending_added [OF _ md(1,2)]) (use p md in simp_all)
  have set: "sandboxes ?s' = gm_set k md old" using old(1) by (simp add: AddSandbox_def AtomicMap_defs)
  have "fr_ids ?s' = Suc n" using k(2) by simp
  note new = books_added [OF b set old(2,3) k(1) this k(3)]
  show "rets (AddRules port (nc_ExposedIP net) (md_GuestPort md)) (fr_IPT ?s)
     (\<lambda>x ta. rets probe (?s\<lparr>fr_IPT := ta, fr_ProcessMonitor := watch (fr_ProcessMonitor (?s\<lparr>fr_IPT := ta\<rparr>))\<rparr>) (created env inp old))"
    using probe [OF new] by (simp add: AddRules_def rets_simps)
qed

lemma FC_CreateSandbox_books:
  assumes inj: "inj (me_ids env)" and "fc_books env s"
  shows "rets (FC_CreateSandbox env inp) s (created env inp (sandboxes s))"
proof -
  let ?old = "sandboxes s" and ?k = "sandboxName env (fr_ids s)"
  have b: "books_of env s (map snd ?old)" and wf: "gm_wf ?old" and keys: "\<forall>k \<in> fst ` set ?old. \<exists>i < fr_ids s. k = sandboxName env i"
    using assms(2) by (simp_all add: fc_books_def)
  have p0: "pending env (s\<lparr>fr_ids := Suc (fr_ids s)\<rparr>) (map snd ?old) [] [] []" using b by (simp add: books_of_def pending_def)
  show ?thesis
    unfolding FC_CreateSandbox_def createVMCS_def rets_simps case_prod_unfold Suc_eq_plus1 [symmetric] fst_conv snd_conv
  proof (rule rets_mono [OF StartFirecrackerVM_pending [OF p0]], goal_cases)
    case (1 r s1)
    show ?case
    proof (cases "fst r")
      case (Some e)
      then show ?thesis using 1 wf keys by (auto simp: rets_simps created_def fc_books_def books_of_pending intro: less_SucI)
    next
      case None
      then obtain net m where vm: "vm_NetworkConfiguration (snd r) = Some net" "vm_VM (snd r) = Some m" "vm_SandboxID (snd r) = ?k"
        and p1: "pending env s1 (map snd ?old) [] [net] [m]" and s1: "fr_SandboxManager s1 = fr_SandboxManager s" "fr_ids s1 = Suc (fr_ids s)"
        using 1 by (auto simp: sandboxName_def)
      have p1': "pending env (s1\<lparr>fr_channels := Suc (fr_channels s1)\<rparr>) (map snd ?old) [] [net] [m]" using p1 by (simp add: pending_def)
      show ?thesis
        unfolding None vm option.sel rets_simps Let_def simp_thms if_False not_not Suc_eq_plus1 [symmetric]
      proof (rule rets_mono [OF AssignRandomPort_pending [OF p1', unfolded rets_simps]], goal_cases)
        case (1 port t)
        let ?s2 = "s1\<lparr>fr_channels := Suc (fr_channels s1), fr_ports := t\<rparr>"
        have p2: "pending env ?s2 (map snd ?old) [port] [net] [m]" and s2: "sandboxes ?s2 = ?old" "fr_ids ?s2 = Suc (fr_ids s)"
          using 1 s1 by simp_all
        note unregistered = unregistered_books [OF p2 s2(1) wf keys s2(2) _ vm(1)]
        show ?case
          by (cases "me_PID env m", simp only: option.case, rule unregistered, assumption, simp only: option.case,
              rule registered_books [OF p2 s2(1) wf keys refl s2(2) inj], (simp_all add: createMetadata_def vm)[4])
            (rule probe_books, assumption+, simp)
      qed
    qed
  qed
qed


section \<open>Every sandbox holds what it uses, and nothing else is held\<close>

inductive fc_step :: "machine_env \<Rightarrow> fc_runtime \<Rightarrow> fc_runtime \<Rightarrow> bool" for env where
  create_step: "FC_CreateSandbox env inp s = Ret r s' \<Longrightarrow> fc_step env s s'"
| delete_step: "FC_DeleteSandbox env k s = Ret r s' \<Longrightarrow> fc_step env s s'"
| fill_step: "on_network (populate env) s = Ret () s' \<Longrightarrow> fc_step env s s'"
| monitor_step: "on_monitor (monitorRound events) s = Ret () s' \<Longrightarrow> fc_step env s s'"

inductive fc_reachable :: "machine_env \<Rightarrow> fc_runtime \<Rightarrow> bool" for env where
  fc_started: "NewFirecrackerRuntime env devices ipt pm nodeName cfg = Ret () s \<Longrightarrow> fc_reachable env s"
| fc_continued: "fc_reachable env s \<Longrightarrow> fc_step env s s' \<Longrightarrow> fc_reachable env s'"

lemma rets_Ret: "rets m s Q \<Longrightarrow> m s = Ret x s' \<Longrightarrow> Q x s'"
  by (simp add: rets_def)

lemma fc_step_books:
  assumes "fc_step env s s'" and "inj (me_ids env)" and "fc_books env s"
  shows "fc_books env s'"
  using assms(1)
proof cases
  case (create_step inp r)
  then show ?thesis using rets_Ret [OF FC_CreateSandbox_books [OF assms(2,3)]] by (simp add: created_def)
next
  case (delete_step k r)
  then show ?thesis using rets_Ret [OF FC_DeleteSandbox_books [OF assms(3)]] by blast
next
  case fill_step
  have "nets_ok (fr_NetworkManager s) (map net_of (map snd (sandboxes s)))" using assms(3) by (simp only: fc_books_def books_of_def)
  from populate_ok [OF this] have "rets (on_network (populate env)) s (\<lambda>_ s'. fc_books env s')"
    unfolding rets_simps by (rule rets_mono) (use assms(3) in \<open>simp add: fc_books_def books_of_def\<close>)
  then show ?thesis using fill_step by (rule rets_Ret)
next
  case (monitor_step events)
  have "rets (on_monitor (monitorRound events)) s (\<lambda>_ s'. fc_books env s')"
    unfolding rets_simps by (rule rets_any) (use assms(3) in \<open>simp add: fc_books_def books_of_def\<close>)
  then show ?thesis using monitor_step by (rule rets_Ret)
qed

lemma books_started:
  assumes "NewFirecrackerRuntime env devices ipt pm nodeName cfg = Ret () s"
  shows "fc_books env s"
proof -
  obtain np commands where np: "NewNetworkPoolManager env commands (wnc_FirecrackerInternalIPPrefix cfg) (wnc_FirecrackerExposedIPPrefix cfg)
      (wnc_FirecrackerNetworkPoolSize cfg) = Ret () np"
    and s: "fr_NetworkManager s = np" "sandboxes s = []" "fr_IPT s = []" "fr_ports s = \<lparr>portsInUse = [], ports_drawn = 0\<rparr>" "fr_running s = []"
    using assms by (auto simp: NewFirecrackerRuntime_def Let_def NewSandboxManager_def AtomicMap_defs split: if_splits outcome.splits)
  have "nets_ok np []" by (rule rets_Ret [OF populate_ok np [unfolded NewNetworkPoolManager_def Let_def]])
    (simp add: nets_ok_def pool_nets_def)
  then show ?thesis by (simp add: fc_books_def books_of_def s ports_ok_def rules_ok_def forwards_simps forwarding_def)
qed

lemma reachable_books: "fc_reachable env s \<Longrightarrow> inj (me_ids env) \<Longrightarrow> fc_books env s"
  by (induction rule: fc_reachable.induct) (blast intro: books_started fc_step_books)+

text \<open>
  C8. The books of the Firecracker runtime balance. Whatever sandboxes have been created and deleted, by whatever schedule of
  operations that return: the host ports in use are exactly those of the sandboxes that are listed, no two of these share a port,
  no two networks share an address, whether they are used by a sandbox or wait in the pool, the rules that forward a port have
  been added once more than deleted for the sandboxes that are listed and are gone for all others, and the machines that run
  are those of the sandboxes, provided that a started machine can be asked for its process and be resumed. The sandbox IDs drawn
  at random are assumed to differ.
\<close>
theorem sandbox_books_balance:
  assumes "inj (me_ids env)" and "fc_reachable env s"
  shows "distinct (map (md_HostPort \<circ> snd) (sandboxes s)) \<and>
     fst ` set (portsInUse (fr_ports s)) = (md_HostPort \<circ> snd) ` set (sandboxes s) \<and>
     distinct (map nc_ExposedIP (pool_nets (fr_NetworkManager s)) @ map (md_IP \<circ> snd) (sandboxes s)) \<and>
     (\<forall>p ip g. forwards (fr_IPT s) ''PREROUTING'' (preroutingRule p ip g) = forwarding p ip g (map snd (sandboxes s)) \<and>
        forwards (fr_IPT s) ''OUTPUT'' (outputRule p ip g) = forwarding p ip g (map snd (sandboxes s))) \<and>
     (reliable env \<longrightarrow> mset (fr_running s) = mset (map (machine_of \<circ> snd) (sandboxes s)))"
proof -
  have "books_of env s (map snd (sandboxes s))" using reachable_books [OF assms(2,1)] by (simp add: fc_books_def)
  then have b: "ports_ok (fr_ports s) (map md_HostPort (map snd (sandboxes s)))"
    "nets_ok (fr_NetworkManager s) (map net_of (map snd (sandboxes s)))" "rules_ok (fr_IPT s) (map snd (sandboxes s))"
    "reliable env \<longrightarrow> mset (fr_running s) = mset (map machine_of (map snd (sandboxes s)))"
    "\<forall>md \<in> set (map snd (sandboxes s)). md_IP md = nc_ExposedIP (net_of md)" by (auto simp only: books_of_def)
  have ip: "map (md_IP \<circ> snd) (sandboxes s) = map nc_ExposedIP (map net_of (map snd (sandboxes s)))" using b(5) by simp
  show ?thesis unfolding ip
  proof (intro conjI)
    show "distinct (map (md_HostPort \<circ> snd) (sandboxes s))" "fst ` set (portsInUse (fr_ports s)) = (md_HostPort \<circ> snd) ` set (sandboxes s)"
      using b(1) by (simp_all add: ports_ok_def image_comp)
    show "distinct (map nc_ExposedIP (pool_nets (fr_NetworkManager s)) @ map nc_ExposedIP (map net_of (map snd (sandboxes s))))"
      using b(2) by (simp only: nets_ok_def map_append)
  qed (use b(3,4) in \<open>simp_all add: rules_ok_def\<close>)
qed


section \<open>A machine that works gives a sandbox\<close>

definition works :: "machine_env \<Rightarrow> bool" where
  \<comment> \<open>commands succeed, machines start, and each is healthy at one of the attempts of the readiness probe\<close>
  "works env \<longleftrightarrow> (\<forall>n c. me_run env n c) \<and> (\<forall>m c. me_NewMachine env m c) \<and> (\<forall>m. me_Start env m \<and> me_Resume env m \<and>
     me_PID env m \<noteq> None \<and> (\<exists>i \<le> 22. me_healthy env m i))"

definition roomy :: "nat \<Rightarrow> NetworkPoolManager \<Rightarrow> bool" where
  \<comment> \<open>there are addresses for a number of networks\<close>
  "roomy k np \<longleftrightarrow> unat (allocationCounter (np_InternalIPManager np)) + k \<le> 65536 \<and> cnt np + 3 * k \<le> 65536"

lemma GenerateSingleIP_runs:
  assumes "unat (allocationCounter s) + 3 \<le> 65536"
  shows "runs GenerateSingleIP s (\<lambda>_ s'. unat (allocationCounter s') \<le> unat (allocationCounter s) + 3)"
proof -
  define p u where "p = networkPrefix s" and "u = unat (allocationCounter s)"
  have s: "s = ipm_at p u" by (cases s) (simp add: p_def u_def)
  have u: "u + 3 \<le> 65536" using assms by (simp add: u_def)
  have small: "unat (of_nat (Suc v) :: uint32) = Suc v" if "v < 65536" for v using that by (intro unat_small) simp
  have direct: "runs GenerateSingleIP (ipm_at p v) (\<lambda>_ s'. unat (allocationCounter s') \<le> u + 3)"
    if "v mod 256 \<notin> {0, 255}" "v \<le> u + 2" for v
    using that u small [of v] unfolding runs_def by (subst GenerateSingleIP_at) auto
  have zero: "runs GenerateSingleIP (ipm_at p v) (\<lambda>_ s'. unat (allocationCounter s') \<le> u + 3)" if "v mod 256 = 0" "v \<le> u + 1" for v
  proof -
    have "Suc v mod 256 = 1" using that(1) by (simp add: mod_Suc)
    then have "runs GenerateSingleIP (ipm_at p (Suc v)) (\<lambda>_ s'. unat (allocationCounter s') \<le> u + 3)" using that by (intro direct) simp_all
    then show ?thesis using that u unfolding runs_def by (subst GenerateSingleIP_at) auto
  qed
  consider "u mod 256 = 0" | "u mod 256 = 255" | "u mod 256 \<notin> {0, 255}" by auto
  then have "runs GenerateSingleIP (ipm_at p u) (\<lambda>_ s'. unat (allocationCounter s') \<le> u + 3)"
  proof cases
    case 2
    then have "Suc u mod 256 = 0" by (simp add: mod_Suc)
    then have "runs GenerateSingleIP (ipm_at p (Suc u)) (\<lambda>_ s'. unat (allocationCounter s') \<le> u + 3)" by (intro zero) simp_all
    then show ?thesis using 2 u unfolding runs_def by (subst GenerateSingleIP_at) auto
  qed (simp_all add: zero direct)
  then have "runs GenerateSingleIP s (\<lambda>_ s'. unat (allocationCounter s') \<le> u + 3)" using s by metis
  then show ?thesis by (simp add: u_def)
qed

lemma GenerateIPMACPair_runs:
  assumes "unat (allocationCounter s) < 65536"
  shows "runs GenerateIPMACPair s (\<lambda>_ s'. unat (allocationCounter s') = unat (allocationCounter s) + 1)"
proof -
  define p u where "p = networkPrefix s" and "u = unat (allocationCounter s)"
  have s: "s = ipm_at p u" by (cases s) (simp add: p_def u_def)
  have u: "u < 65536" using assms by (simp add: u_def)
  have "unat (of_nat (Suc u) :: uint32) = Suc u" "unat (of_nat u :: uint32) = u" using u by (intro unat_small, simp)+
  then show ?thesis unfolding s GenerateIPMACPair_def
    by (simp add: runs_def gbind_def raw_at [OF u] go_monad)
qed

lemma runs_exec_or:
  "works env \<Longrightarrow> runs (exec_or env cleanup args rest) np Q = runs rest (np\<lparr>np_commands := np_commands np @ [args]\<rparr>) Q"
  by (simp add: exec_or_def exec_fails_def works_def wp)

lemma createNetwork_runs:
  assumes "works env" and "roomy (Suc k) np"
  shows "runs (createNetwork env) np (\<lambda>cfg np'. cfg \<noteq> None \<and> roomy k np' \<and> np_pool np' = np_pool np)"
proof -
  have a: "unat (allocationCounter (np_InternalIPManager np)) < 65536" "unat (allocationCounter (np_ExposedIPManager np)) + 3 \<le> 65536"
    using assms(2) by (simp_all add: roomy_def)
  show ?thesis
    unfolding createNetwork_def createTAP_def createVETHPair_def configureVETH_def Let_def
    apply (simp add: wp runs_exec_or [OF assms(1)] case_prod_unfold)
    apply (rule runs_mono [OF GenerateIPMACPair_runs [OF a(1)]])
    apply (rule runs_mono [OF GenerateSingleIP_runs [OF a(2)]])
    using assms(2) by (simp add: roomy_def)
qed

lemma populateLoop_runs:
  assumes "works env" and "roomy (n + k) np" and "None \<notin> set (np_pool np)"
  shows "runs (populateLoop env n) np (\<lambda>_ np'. roomy k np' \<and> None \<notin> set (np_pool np'))"
  using assms(2,3)
proof (induction n arbitrary: np)
  case (Suc n)
  then have "roomy (Suc (n + k)) np" by simp
  note r = createNetwork_runs [OF assms(1) this]
  show ?case unfolding populateLoop.simps runs_gbind runs_gthen runs_gmodify
    by (rule runs_mono [OF r]) (use Suc in \<open>auto simp: roomy_def intro!: Suc.IH\<close>)
qed (simp add: wp)


lemma NewFirecrackerRuntime_runs:
  assumes "works env" and size: "wnc_FirecrackerNetworkPoolSize cfg \<le> 1024"
  shows "\<exists>s. NewFirecrackerRuntime env devices True pm nodeName cfg = Ret () s \<and> roomy 1 (fr_NetworkManager s) \<and>
    None \<notin> set (np_pool (fr_NetworkManager s)) \<and> fr_ports s = \<lparr>portsInUse = [], ports_drawn = 0\<rparr> \<and> fr_ProcessMonitor s = pm \<and> sandboxes s = []"
proof -
  let ?n = "wnc_FirecrackerNetworkPoolSize cfg - wnc_FirecrackerNetworkPoolSize cfg smod 16"
  have "?n \<le> 1024 + 16" using size smod_int_range [of 16 "wnc_FirecrackerNetworkPoolSize cfg"] by auto
  then have "nat (if ?n < 16 then 16 else ?n) \<le> 1040" by (simp only: nat_le_iff) simp
  then have r: "roomy (nat (if ?n < 16 then 16 else ?n) + 1) \<lparr>np_InternalIPManager = NewIPManager a, np_ExposedIPManager = NewIPManager b,
     np_InterfaceNameGenerator = 0, np_NetNSNameGenerator = 0, np_MaxNetworkPoolSize = m, np_pool = [], np_commands = c\<rparr>" for a b m c
    by (simp only: roomy_def NewIPManager_def) simp
  have "runs (\<lambda>_. NewNetworkPoolManager env c a b (wnc_FirecrackerNetworkPoolSize cfg)) s
      (\<lambda>_ np. roomy 1 np \<and> None \<notin> set (np_pool np))" for a b c s
    using populateLoop_runs [OF assms(1) r] unfolding NewNetworkPoolManager_def Let_def populate_def runs_def gbind_def gget_def by simp
  then show ?thesis unfolding NewFirecrackerRuntime_def Let_def runs_def
    by (fastforce simp: NewSandboxManager_def AtomicMap_defs split: outcome.splits)
qed

lemma SendReadinessProbe_runs:
  assumes "\<exists>i \<le> 22. healthy i"
  shows "\<exists>tries. SendReadinessProbe healthy = Some (True, tries)"
proof -
  have "SendReadinessProbe healthy = probeLoop healthy 0 (probe_backoff 0)" by (simp add: SendReadinessProbe_def probe_backoff_def)
  then show ?thesis using probeLoop_returns [of 0 healthy] assms by auto
qed

lemma AssignRandomPort_runs:
  assumes "\<exists>j. map_of (portsInUse st) (1024 + int (rnd (ports_drawn st + j) mod 64000)) = None"
  shows "runs (AssignRandomPort rnd) st (\<lambda>_ _. True)"
proof -
  let ?free = "\<lambda>j. map_of (portsInUse st) (1024 + int (rnd (ports_drawn st + j) mod 64000)) = None"
  have "?free (LEAST j. ?free j)" using assms by (rule LeastI_ex)
  moreover have "\<not> ?free i" if "i < (LEAST j. ?free j)" for i using that by (rule not_less_Least)
  ultimately show ?thesis using portLoop_finds [of "portsInUse st" rnd "ports_drawn st"] by (simp add: runs_def AssignRandomPort_def)
qed


lemma GetOneConfig_runs:
  assumes "works env" and "roomy 1 np" and "None \<notin> set (np_pool np)"
  shows "runs (GetOneConfig env) np (\<lambda>r _. fst r \<noteq> None)"
proof (cases "np_pool np")
  case Nil
  show ?thesis using runs_mono [OF createNetwork_runs [OF assms(1), of 0 np]] assms(2) by (simp add: GetOneConfig_def wp Nil)
next
  case (Cons cfg rest)
  then show ?thesis using assms(3) by (cases cfg) (simp_all add: GetOneConfig_def wp)
qed

lemma StartFirecrackerVM_runs:
  assumes "works env" and "roomy 1 (fr_NetworkManager s)" and "None \<notin> set (np_pool (fr_NetworkManager s))"
  shows "runs (StartFirecrackerVM env vmcs snapshot) s (\<lambda>r s'. fst r = None \<and> vm_VM (snd r) \<noteq> None \<and>
     fr_ports s' = fr_ports s \<and> fr_ProcessMonitor s' = fr_ProcessMonitor s)"
  unfolding StartFirecrackerVM_def wp case_prod_unfold
  by (rule runs_mono [OF GetOneConfig_runs [OF assms]]) (use assms(1) in \<open>simp add: wp Let_def works_def\<close>)

lemma takeSnapshot_runs: "works env \<Longrightarrow> runs (takeSnapshot env inp vmcs m True) s (\<lambda>passed _. passed)"
  by (simp add: takeSnapshot_def wp works_def split: option.splits)

lemma FC_CreateSandbox_runs:
  assumes "works env" and "roomy 1 (fr_NetworkManager s)" and "None \<notin> set (np_pool (fr_NetworkManager s))"
    and free: "\<exists>j. map_of (portsInUse (fr_ports s)) (1024 + int (me_ports env (ports_drawn (fr_ports s) + j) mod 64000)) = None"
    and idle: "\<not> pm_wlocked (fr_ProcessMonitor s)" "pm_rlocks (fr_ProcessMonitor s) = 0"
  shows "runs (FC_CreateSandbox env inp) s (\<lambda>r _. sc_Success (fst r))"
proof -
  have start: "runs (StartFirecrackerVM env vmcs snapshot) (s\<lparr>fr_ids := k\<rparr>) (\<lambda>r s'. fst r = None \<and> vm_VM (snd r) \<noteq> None \<and>
     fr_ports s' = fr_ports s \<and> fr_ProcessMonitor s' = fr_ProcessMonitor s)" for vmcs snapshot k
    using StartFirecrackerVM_runs [OF assms(1), of "s\<lparr>fr_ids := k\<rparr>" vmcs snapshot] assms(2,3) by simp
  have lock: "runs pm_Lock pm Q = Q () (pm\<lparr>pm_wlocked := True\<rparr>)" if "\<not> pm_wlocked pm" "pm_rlocks pm = 0" for pm Q
    using that by (simp add: runs_def pm_Lock_def)
  have port: "runs (AssignRandomPort (me_ports env)) (fr_ports s) (\<lambda>_ _. True)" by (rule AssignRandomPort_runs [OF free])
  show ?thesis
    unfolding FC_CreateSandbox_def createVMCS_def wp case_prod_unfold fst_conv snd_conv
  proof (rule runs_mono [OF start], elim conjE exE, goal_cases)
    case (1 r s1)
    then obtain m where m: "vm_VM (snd r) = Some m" by blast
    have "me_PID env m \<noteq> None" and healthy: "\<exists>i \<le> 22. me_healthy env m i" using assms(1) by (simp_all add: works_def)
    then obtain pid where pid: "me_PID env m = Some pid" by blast
    obtain tries where tries: "SendReadinessProbe (me_healthy env m) = Some (True, tries)" using SendReadinessProbe_runs [OF healthy] by blast
    show ?case using 1 m pid tries idle
      apply (simp add: wp Let_def)
      apply (rule runs_mono [OF port])
      apply (simp add: wp AddChannel_def lock AddRules_def)
      using runs_mono [OF takeSnapshot_runs [OF assms(1)]] by (simp add: wp)
  qed
qed


lemma works_reliable: "works env \<Longrightarrow> reliable env"
  by (simp add: works_def reliable_def)

text \<open>
  C14. Creating a sandbox succeeds on a machine that works: the commands to the system succeed, machines start and are
  healthy at one of the 23 attempts of the readiness probe, there are addresses left, the pool holds no failed network,
  a free port is drawn at some time and nobody holds the lock of the process monitor. The creation then returns, reports
  success with the host port of the sandbox, and the sandbox is added at the end of the list.
\<close>
theorem working_machine_gives_sandbox:
  assumes "works env" and "inj (me_ids env)" and "fc_reachable env s"
    and "roomy 1 (fr_NetworkManager s)" and "None \<notin> set (np_pool (fr_NetworkManager s))"
    and "\<exists>j. map_of (portsInUse (fr_ports s)) (1024 + int (me_ports env (ports_drawn (fr_ports s) + j) mod 64000)) = None"
    and "\<not> pm_wlocked (fr_ProcessMonitor s)" and "pm_rlocks (fr_ProcessMonitor s) = 0"
  shows "runs (FC_CreateSandbox env inp) s (\<lambda>r s'. sc_Success (fst r) \<and>
     (\<exists>md. sandboxes s' = sandboxes s @ [(sc_ID (fst r), md)] \<and>
        sc_PortMappings (fst r) = Some ((si_PortForwarding inp)\<lparr>pm_HostPort := md_HostPort md\<rparr>)))"
proof -
  obtain r s' where r: "FC_CreateSandbox env inp s = Ret r s'" and ok: "sc_Success (fst r)"
    using FC_CreateSandbox_runs [OF assms(1,4-8)] by (rule runsE)
  have "created env inp (sandboxes s) r s'" by (rule rets_Ret [OF FC_CreateSandbox_books [OF assms(2) reachable_books [OF assms(3,2)]] r])
  then show ?thesis using ok by (simp add: runs_def r created_def)
qed

definition demo_machines :: machine_env where
  "demo_machines = \<lparr>me_run = (\<lambda>_ _. True), me_NewMachine = (\<lambda>_ _. True), me_Start = (\<lambda>_. True), me_Resume = (\<lambda>_. True), me_Pause = (\<lambda>_. True),
     me_CreateSnapshot = (\<lambda>_. True), me_PID = (\<lambda>m. Some (of_nat m)), me_healthy = (\<lambda>_ i. i = 3), me_MkdirAll = True,
     me_names = id, me_ids = id, me_ports = id\<rparr>"

definition demo_worker :: WorkerNodeConfig where
  "demo_worker = \<lparr>wnc_WorkerNodeIP = [], wnc_ControlPlaneAddress = [], wnc_Port = 0, wnc_Verbosity = [], wnc_CRIType = ''firecracker'',
     wnc_CRIPath = [], wnc_CNIConfigPath = [], wnc_PrefetchImage = False, wnc_FirecrackerKernel = ''kernel'', wnc_FirecrackerFileSystem = ''fs'',
     wnc_FirecrackerInternalIPPrefix = ''169.254'', wnc_FirecrackerExposedIPPrefix = ''10.0'', wnc_FirecrackerVMDebugMode = False,
     wnc_FirecrackerUseSnapshots = False, wnc_FirecrackerNetworkPoolSize = 1\<rparr>"

definition demo_function :: ServiceInfo where
  "demo_function = \<lparr>si_Name = ''f'', si_Image = ''img'', si_RequestedCpu = 1, si_RequestedMemory = 64,
     si_PortForwarding = \<lparr>pm_HostPort = 0, pm_GuestPort = 80, pm_Protocol = L4Protocol_TCP\<rparr>,
     si_AutoscalingConfig = \<lparr>ScalingUpperBound = 10, ScalingLowerBound = 0, PanicThresholdPercentage = 2, MaxScaleUpRate = 1000,
       MaxScaleDownRate = 2, ContainerConcurrency = 1, ContainerConcurrencyTargetPercentage = 70, StableWindowWidthSeconds = 60,
       PanicWindowWidthSeconds = 6, ScalingPeriodSeconds = 2, ScalingMethod = 0\<rparr>\<rparr>"

definition demo_monitor :: ProcessMonitor where
  "demo_monitor = \<lparr>NotifyChannels = [], pm_wlocked = False, pm_rlocks = 0, pm_watching = [], pm_received = []\<rparr>"

lemma demo_machines_works: "works demo_machines" "inj (me_ids demo_machines)"
  by (auto simp: works_def demo_machines_def intro!: exI [of _ "3 :: nat"])

lemma demo_fc:
  "\<exists>s. fc_reachable demo_machines s \<and> roomy 1 (fr_NetworkManager s) \<and> None \<notin> set (np_pool (fr_NetworkManager s)) \<and>
     fr_ports s = \<lparr>portsInUse = [], ports_drawn = 0\<rparr> \<and> fr_ProcessMonitor s = demo_monitor \<and> sandboxes s = []"
proof -
  have "wnc_FirecrackerNetworkPoolSize demo_worker \<le> 1024" by (simp add: demo_worker_def)
  from NewFirecrackerRuntime_runs [OF demo_machines_works(1) this, of "Some []" demo_monitor "''node''"]
  show ?thesis by (auto intro: fc_started)
qed

lemma demo_fc_runs:
  "\<exists>s. fc_reachable demo_machines s \<and> runs (FC_CreateSandbox demo_machines inp) s (\<lambda>r _. sc_Success (fst r)) \<and> sandboxes s = []"
proof -
  obtain s where s: "fc_reachable demo_machines s" "roomy 1 (fr_NetworkManager s)" "None \<notin> set (np_pool (fr_NetworkManager s))"
     "fr_ports s = \<lparr>portsInUse = [], ports_drawn = 0\<rparr>" "fr_ProcessMonitor s = demo_monitor" "sandboxes s = []" using demo_fc by blast
  have "runs (FC_CreateSandbox demo_machines inp) s (\<lambda>r _. sc_Success (fst r))"
    by (rule FC_CreateSandbox_runs [OF demo_machines_works(1) s(2,3)]) (simp_all add: s(4,5) demo_monitor_def)
  then show ?thesis using s(1,6) by blast
qed

theorem working_machine_gives_sandbox_witness:
  "\<exists>s. fc_reachable demo_machines s \<and> runs (FC_CreateSandbox demo_machines demo_function) s (\<lambda>r s'. \<exists>md. sandboxes s' = [(sc_ID (fst r), md)])"
proof -
  obtain s where s: "fc_reachable demo_machines s" "roomy 1 (fr_NetworkManager s)" "None \<notin> set (np_pool (fr_NetworkManager s))"
     "fr_ports s = \<lparr>portsInUse = [], ports_drawn = 0\<rparr>" "fr_ProcessMonitor s = demo_monitor" "sandboxes s = []" using demo_fc by blast
  have "runs (FC_CreateSandbox demo_machines demo_function) s (\<lambda>r s'. sc_Success (fst r) \<and>
     (\<exists>md. sandboxes s' = sandboxes s @ [(sc_ID (fst r), md)] \<and>
        sc_PortMappings (fst r) = Some ((si_PortForwarding demo_function)\<lparr>pm_HostPort := md_HostPort md\<rparr>)))"
    by (rule working_machine_gives_sandbox [OF demo_machines_works s(1-3)]) (simp_all add: s(4,5) demo_monitor_def)
  then have "runs (FC_CreateSandbox demo_machines demo_function) s (\<lambda>r s'. \<exists>md. sandboxes s' = [(sc_ID (fst r), md)])"
    by (rule runs_mono) (auto simp: s(6))
  then show ?thesis using s(1) by blast
qed

theorem sandbox_books_balance_witness:
  "\<exists>s k md. fc_reachable demo_machines s \<and> sandboxes s = [(k, md)] \<and> fst ` set (portsInUse (fr_ports s)) = {md_HostPort md} \<and>
     fr_running s = [machine_of md] \<and> md_IP md \<notin> set (map nc_ExposedIP (pool_nets (fr_NetworkManager s)))"
proof -
  obtain s where s: "fc_reachable demo_machines s" "runs (FC_CreateSandbox demo_machines demo_function) s (\<lambda>r _. sc_Success (fst r))" "sandboxes s = []"
    using demo_fc_runs by blast
  obtain r s' where r: "FC_CreateSandbox demo_machines demo_function s = Ret r s'" and ok: "sc_Success (fst r)" using s(2) by (rule runsE)
  have s': "fc_reachable demo_machines s'" by (rule fc_continued [OF s(1) create_step [OF r]])
  have "created demo_machines demo_function (sandboxes s) r s'"
    by (rule rets_Ret [OF FC_CreateSandbox_books [OF demo_machines_works(2) reachable_books [OF s(1) demo_machines_works(2)]] r])
  then obtain k md where one: "sandboxes s' = [(k, md)]" using ok s(3) by (auto simp: created_def)
  have "fst ` set (portsInUse (fr_ports s')) = {md_HostPort md} \<and> fr_running s' = [machine_of md] \<and>
     md_IP md \<notin> set (map nc_ExposedIP (pool_nets (fr_NetworkManager s')))"
    using sandbox_books_balance [OF demo_machines_works(2) s'] works_reliable [OF demo_machines_works(1)] by (simp add: one)
  then show ?thesis using s' one by blast
qed


section \<open>Where the runtime errs\<close>

text \<open>A machine that cannot be asked for its process is left running, without a sandbox, while its network waits in the pool for the next one.\<close>

lemma machine_without_pid_keeps_running:
  assumes "me_NewMachine env m = (\<lambda>_. True)" "me_Start env m" "me_Resume env m" "me_PID env m = None"
    and m: "fr_machines s = m" and pool: "np_pool (fr_NetworkManager s) = Some net # rest"
    and room: "int (length rest) < np_MaxNetworkPoolSize (fr_NetworkManager s)"
    and free: "\<exists>j. map_of (portsInUse (fr_ports s)) (1024 + int (me_ports env (ports_drawn (fr_ports s) + j) mod 64000)) = None"
  shows "runs (FC_CreateSandbox env inp) s (\<lambda>r s'. \<not> sc_Success (fst r) \<and> sandboxes s' = sandboxes s \<and>
     fr_running s' = fr_running s @ [m] \<and> np_pool (fr_NetworkManager s') = rest @ [Some net])"
proof -
  have port: "runs (AssignRandomPort (me_ports env)) (fr_ports s) (\<lambda>_ _. True)" by (rule AssignRandomPort_runs [OF free])
  show ?thesis
    using assms(1-4) m unfolding FC_CreateSandbox_def createVMCS_def StartFirecrackerVM_def wp case_prod_unfold fst_conv snd_conv GetOneConfig_def
    apply (simp add: wp Let_def pool)
    apply (rule runs_mono [OF port])
    apply (simp add: wp giveUp_def GiveUpNetwork_def UnassignPort_def room)
    done
qed

text \<open>
  The channel of a sandbox stays registered when its process has exited. A second exit with the same process ID, which the
  system may use again, blocks the monitor with the lock held, and no sandbox can be created any more.
\<close>

lemma reused_pid_blocks_monitor:
  assumes "map_of (NotifyChannels s) pid = Some c" and "c \<in> set (pm_watching s)" "distinct (pm_watching s)"
    and "\<not> pm_wlocked s" "pm_rlocks s = 0"
  shows "\<exists>s1 s2 e. monitorRound [(pid, a)] s = Ret () s1 \<and> monitorRound [(pid, b)] s1 = Blocked e s2 \<and>
     (\<forall>p ch. AddChannel p ch s2 = Blocked ''Lock'' s2)"
proof -
  have "c \<notin> set (remove1 c (pm_watching s))" using assms(3) by simp
  then show ?thesis using assms(1,2,4,5)
    by (simp add: monitorRound_def sendExit_def pm_RLock_def AddChannel_def pm_Lock_def go_monad gthen_def gbind_def gdefer_def)
qed

end
