(* ===== verification/Containerd.thy ===== *)
theory Containerd
  imports Firecracker
begin

text \<open>
  The containerd runtime of a worker node (\<^verbatim>\<open>internal/worker_node/sandbox/containerd\<close>): images, containers, tasks and their
  networks, and the creation and deletion of sandboxes. The containerd and CNI libraries are an argument that tells which calls
  succeed; the state keeps which containers, tasks and networks they have created and not yet deleted. The lemmas show
  what a sandbox holds, with the ports and rules of \<^verbatim>\<open>Firecracker\<close>.
\<close>

section \<open>The runtime\<close>

record container_env =
  \<comment> \<open>containers are numbered in the order in which they are created; all answers tell success\<close>
  ce_Pull :: "nat \<Rightarrow> string \<Rightarrow> bool"
  ce_NewContainer :: "nat \<Rightarrow> bool"
  ce_NewTask :: "nat \<Rightarrow> bool"
  ce_Wait :: "nat \<Rightarrow> bool"
  ce_Setup :: "nat \<Rightarrow> string option"
  ce_Start :: "nat \<Rightarrow> bool"
  ce_Pid :: "nat \<Rightarrow> uint32"
  ce_Remove :: "nat \<Rightarrow> bool"
  ce_Kill :: "nat \<Rightarrow> bool"
  ce_TaskDelete :: "nat \<Rightarrow> bool"
  ce_ContainerDelete :: "nat \<Rightarrow> bool"
  \<comment> \<open>the draws of the names of containers and of ports\<close>
  ce_ids :: "nat \<Rightarrow> nat"
  ce_ports :: "nat \<Rightarrow> nat"

record Container =
  ct_number :: nat
  ct_ID :: string

record ContainerdMetadata =
  \<comment> \<open>a task is known by the number of its container\<close>
  cm_Task :: nat
  cm_Container :: Container

record cr_runtime =
  \<comment> \<open>an image is known by its URL; the last fields are what the libraries keep\<close>
  cr_ImageManager :: "(string, string) AtomicMap"
  cr_SandboxManager :: "ContainerdMetadata SandboxManager"
  cr_ProcessMonitor :: ProcessMonitor
  cr_IPT :: "ipt_call list"
  cr_ports :: port_table
  cr_pulls :: nat
  cr_ids :: nat
  cr_channels :: nat
  cr_containers :: "nat list"
  cr_tasks :: "nat list"
  cr_networks :: "nat list"

definition FetchImage :: "container_env \<Rightarrow> string \<Rightarrow> (cr_runtime, string option) go" where
  "FetchImage env imageURL = gbind (gget cr_pulls) (\<lambda>n. gthen (gmodify (\<lambda>s. s\<lparr>cr_pulls := n + 1\<rparr>))
     (gret (if ce_Pull env n imageURL then Some imageURL else None)))"

definition GetImage :: "container_env \<Rightarrow> string \<Rightarrow> (cr_runtime, string option) go" where
  "GetImage env url = gbind (gget (\<lambda>s. AtomicMap_Get (cr_ImageManager s) url)) (\<lambda>img. case img of
       Some i \<Rightarrow> gret (Some i)
     | None \<Rightarrow> gbind (FetchImage env url) (\<lambda>fetched. case fetched of
         None \<Rightarrow> gret None
       | Some i \<Rightarrow> gthen (gmodify (\<lambda>s. s\<lparr>cr_ImageManager := AtomicMap_Set url i (cr_ImageManager s)\<rparr>)) (gret (Some i))))"

definition CreateContainer :: "container_env \<Rightarrow> string \<Rightarrow> (cr_runtime, Container option) go" where
  \<comment> \<open>the library copies the image\<close>
  "CreateContainer env img = gbind (gget cr_ids) (\<lambda>n.
     gthen (gmodify (\<lambda>s. s\<lparr>cr_ids := n + 1\<rparr>))
       (if ce_NewContainer env n then gthen (gmodify (\<lambda>s. s\<lparr>cr_containers := cr_containers s @ [n]\<rparr>))
          (gret (Some \<lparr>ct_number = n, ct_ID = ''workload-'' @ dec (ce_ids env n)\<rparr>))
        else gret None))"

definition StartContainer :: "container_env \<Rightarrow> Container \<Rightarrow> (cr_runtime, (nat \<times> string \<times> string) option) go" where
  \<comment> \<open>the task, its address and its network namespace, or nothing on an error, in which case nothing is undone\<close>
  "StartContainer env container = (let c = ct_number container in
     if \<not> ce_NewTask env c then gret None
     else gthen (gmodify (\<lambda>s. s\<lparr>cr_tasks := cr_tasks s @ [c]\<rparr>))
      (if \<not> ce_Wait env c then gret None
       else case ce_Setup env c of
           None \<Rightarrow> gret None
         | Some ip \<Rightarrow> gthen (gmodify (\<lambda>s. s\<lparr>cr_networks := cr_networks s @ [c]\<rparr>))
            (if \<not> ce_Start env c then gret None
             else gret (Some (c, ip, ''/proc/'' @ dec (unat (ce_Pid env c)) @ ''/ns/net'')))))"

definition DeleteContainer :: "container_env \<Rightarrow> ContainerdMetadata \<Rightarrow> (cr_runtime, string option) go" where
  "DeleteContainer env md = (let c = ct_number (cm_Container md); t = cm_Task md in
     if \<not> ce_Remove env c then gret (Some ''network'')
     else gthen (gmodify (\<lambda>s. s\<lparr>cr_networks := remove1 c (cr_networks s)\<rparr>))
      (if \<not> ce_Kill env t then gret (Some ''kill'')
       else if \<not> ce_TaskDelete env t then gret (Some ''delete'')
       else gthen (gmodify (\<lambda>s. s\<lparr>cr_tasks := remove1 t (cr_tasks s)\<rparr>))
        (if \<not> ce_ContainerDelete env c then gret (Some ''container'')
         else gthen (gmodify (\<lambda>s. s\<lparr>cr_containers := remove1 c (cr_containers s)\<rparr>)) (gret None))))"

abbreviation cr_on_sandboxes :: "(ContainerdMetadata SandboxManager, 'a) go \<Rightarrow> (cr_runtime, 'a) go" where
  "cr_on_sandboxes m \<equiv> gzoom cr_SandboxManager (\<lambda>t s. s\<lparr>cr_SandboxManager := t\<rparr>) m"

abbreviation cr_on_monitor :: "(ProcessMonitor, 'a) go \<Rightarrow> (cr_runtime, 'a) go" where
  "cr_on_monitor m \<equiv> gzoom cr_ProcessMonitor (\<lambda>t s. s\<lparr>cr_ProcessMonitor := t\<rparr>) m"

abbreviation cr_on_ipt :: "(ipt_call list, 'a) go \<Rightarrow> (cr_runtime, 'a) go" where
  "cr_on_ipt m \<equiv> gzoom cr_IPT (\<lambda>t s. s\<lparr>cr_IPT := t\<rparr>) m"

abbreviation cr_on_ports :: "(port_table, 'a) go \<Rightarrow> (cr_runtime, 'a) go" where
  "cr_on_ports m \<equiv> gzoom cr_ports (\<lambda>t s. s\<lparr>cr_ports := t\<rparr>) m"

definition CR_CreateSandbox :: "container_env \<Rightarrow> ServiceInfo \<Rightarrow> (cr_runtime, SandboxCreationStatus \<times> string option) go" where
  "CR_CreateSandbox env inp =
     (let failed = (\<lambda>e. gret (\<lparr>sc_Success = False, sc_ID = [], sc_PortMappings = None\<rparr>, Some e))
      in gbind (GetImage env (si_Image inp)) (\<lambda>img. case img of None \<Rightarrow> failed ''image'' | Some i \<Rightarrow>
         gbind (CreateContainer env i) (\<lambda>container. case container of None \<Rightarrow> failed ''container'' | Some ct \<Rightarrow>
         gbind (StartContainer env ct) (\<lambda>started. case started of None \<Rightarrow> failed ''start'' | Some (task, ip, netNs) \<Rightarrow>
         gbind (cr_on_ports (AssignRandomPort (ce_ports env))) (\<lambda>port.
         gbind (gget cr_channels) (\<lambda>channel.
           let md = \<lparr>md_ServiceName = si_Name inp, md_RuntimeMetadata = \<lparr>cm_Task = task, cm_Container = ct\<rparr>, md_HostPort = port, md_IP = ip,
                 md_GuestPort = pm_GuestPort (si_PortForwarding inp), md_NetNs = netNs, md_ExitStatusChannel = channel\<rparr>
           in gthen (gmodify (\<lambda>s. s\<lparr>cr_channels := channel + 1\<rparr>))
             (gthen (cr_on_monitor (AddChannel (ce_Pid env task) channel))
             (gthen (cr_on_sandboxes (gmodify (AddSandbox (ct_ID ct) md)))
             (gthen (cr_on_ipt (AddRules port ip (md_GuestPort md)))
             (gthen (cr_on_monitor (gmodify (\<lambda>s. s\<lparr>pm_watching := channel # pm_watching s\<rparr>)))
               (gret (\<lparr>sc_Success = True, sc_ID = ct_ID ct,
                  sc_PortMappings = Some ((si_PortForwarding inp)\<lparr>pm_HostPort := port\<rparr>)\<rparr>, None))))))))))))"

definition CR_DeleteSandbox :: "container_env \<Rightarrow> string \<Rightarrow> (cr_runtime, ActionStatus \<times> string option) go" where
  "CR_DeleteSandbox env ident =
     gbind (cr_on_sandboxes (SM_DeleteSandbox ident)) (\<lambda>metadata. case metadata of
         None \<Rightarrow> gret (Failed, None)
       | Some md \<Rightarrow>
           gthen (cr_on_ipt (DeleteRules (md_HostPort md) (md_IP md) (md_GuestPort md)))
          (gthen (cr_on_ports (UnassignPort (md_HostPort md)))
          (gbind (DeleteContainer env (md_RuntimeMetadata md)) (\<lambda>err.
             gret (if err \<noteq> None then (Failed, err) else (Success, None))))))"

definition CR_ListEndpoints :: "cr_runtime \<Rightarrow> ProtoEndpoint list" where
  "CR_ListEndpoints s = SM_ListEndpoints (cr_SandboxManager s)"

definition NewContainerdRuntime :: "container_env \<Rightarrow> bool \<Rightarrow> bool \<Rightarrow> bool \<Rightarrow> ProcessMonitor \<Rightarrow> WorkerNodeConfig \<Rightarrow> ContainerdMetadata SandboxManager \<Rightarrow>
  (cr_runtime, unit) outcome" where
  \<comment> \<open>whether the clients of containerd and of CNI and iptables can be created; failed prefetching is logged\<close>
  "NewContainerdRuntime env client cni ipt pm cfg sandboxManager =
     (let runtime = \<lparr>cr_ImageManager = NewAtomicMap, cr_SandboxManager = sandboxManager, cr_ProcessMonitor = pm, cr_IPT = [],
          cr_ports = \<lparr>portsInUse = [], ports_drawn = 0\<rparr>, cr_pulls = 0, cr_ids = 0, cr_channels = 0, cr_containers = [], cr_tasks = [], cr_networks = []\<rparr>
      in if \<not> client then Panic ''Failed to create a containerd client'' runtime
         else if \<not> cni then Panic ''Failed to create a CNI client'' runtime
         else if \<not> ipt then Panic ''Error while accessing iptables'' runtime
         else if wnc_PrefetchImage cfg
           then gthen (GetImage env ''docker.io/cvetkovic/dirigent_empty_function:latest'')
             (gthen (GetImage env ''docker.io/cvetkovic/dirigent_trace_function:latest'') (gret ())) runtime
         else Ret () runtime)"


section \<open>What a sandbox holds\<close>

abbreviation cr_sandboxes :: "cr_runtime \<Rightarrow> (string \<times> ContainerdMetadata Metadata) list" where
  "cr_sandboxes s \<equiv> entries (sm_Metadata (cr_SandboxManager s))"

definition container_of :: "ContainerdMetadata Metadata \<Rightarrow> nat" where
  "container_of md = ct_number (cm_Container (md_RuntimeMetadata md))"

definition dependable :: "container_env \<Rightarrow> bool" where
  \<comment> \<open>a container that has been created can be started and deleted\<close>
  "dependable env \<longleftrightarrow> (\<forall>c. ce_NewTask env c \<and> ce_Wait env c \<and> ce_Setup env c \<noteq> None \<and> ce_Start env c \<and>
     ce_Remove env c \<and> ce_Kill env c \<and> ce_TaskDelete env c \<and> ce_ContainerDelete env c)"

definition cr_held :: "container_env \<Rightarrow> cr_runtime \<Rightarrow> nat list \<Rightarrow> bool" where
  "cr_held env s cs \<longleftrightarrow> (dependable env \<longrightarrow> mset (cr_containers s) = mset cs \<and> mset (cr_tasks s) = mset cs \<and> mset (cr_networks s) = mset cs)"

definition cr_books_of :: "container_env \<Rightarrow> cr_runtime \<Rightarrow> ContainerdMetadata Metadata list \<Rightarrow> bool" where
  "cr_books_of env s ms \<longleftrightarrow> ports_ok (cr_ports s) (map md_HostPort ms) \<and> rules_ok (cr_IPT s) ms \<and> cr_held env s (map container_of ms) \<and>
     (\<forall>md \<in> set ms. cm_Task (md_RuntimeMetadata md) = container_of md)"

definition containerName :: "container_env \<Rightarrow> nat \<Rightarrow> string" where
  "containerName env i = ''workload-'' @ dec (ce_ids env i)"

definition cr_books :: "container_env \<Rightarrow> cr_runtime \<Rightarrow> bool" where
  "cr_books env s \<longleftrightarrow> cr_books_of env s (map snd (cr_sandboxes s)) \<and> gm_wf (cr_sandboxes s) \<and>
     (\<forall>k \<in> fst ` set (cr_sandboxes s). \<exists>i < cr_ids s. k = containerName env i)"

lemma cr_books_of_mset:
  assumes "cr_books_of env s ms" and "mset ms = mset ms'"
  shows "cr_books_of env s ms'"
proof -
  have b: "ports_ok (cr_ports s) (map md_HostPort ms)" "rules_ok (cr_IPT s) ms" using assms(1) by (simp_all add: cr_books_of_def)
  have "ports_ok (cr_ports s) (map md_HostPort ms')" by (rule ports.ok_mset [OF b(1)]) (simp add: assms(2))
  moreover have "rules_ok (cr_IPT s) ms'" using b(2) by (simp add: rules_ok_def forwarding_mset [OF assms(2)])
  moreover have "set ms' = set ms" by (rule mset_eq_setD [OF assms(2) [symmetric]])
  ultimately show ?thesis using assms(1) by (simp add: cr_books_of_def cr_held_def assms(2))
qed

lemma DeleteContainer_held:
  assumes "cr_held env s (ct_number (cm_Container md) # cs)" and "cm_Task md = ct_number (cm_Container md)"
  shows "rets (DeleteContainer env md) s (\<lambda>_ s'. cr_held env s' cs \<and> cr_ports s' = cr_ports s \<and> cr_IPT s' = cr_IPT s \<and>
     cr_SandboxManager s' = cr_SandboxManager s \<and> cr_ids s' = cr_ids s)"
proof (cases "dependable env")
  case True
  then show ?thesis using assms by (simp add: DeleteContainer_def Let_def rets_simps dependable_def cr_held_def)
next
  case False
  then show ?thesis by (simp add: DeleteContainer_def Let_def rets_simps cr_held_def)
qed

lemma CR_DeleteSandbox_books:
  assumes "cr_books env s"
  shows "rets (CR_DeleteSandbox env k) s (\<lambda>_ s'. cr_books env s' \<and> cr_sandboxes s' = gm_del k (cr_sandboxes s))"
proof (cases "map_of (cr_sandboxes s) k")
  case None
  then have "gm_del k (cr_sandboxes s) = cr_sandboxes s" by (simp add: map_of_eq_None_iff)
  with None assms show ?thesis by (simp add: CR_DeleteSandbox_def SM_DeleteSandbox_def AtomicMap_defs rets_simps)
next
  case (Some md)
  have wf: "gm_wf (cr_sandboxes s)" and keys: "\<forall>k \<in> fst ` set (cr_sandboxes s). \<exists>i < cr_ids s. k = containerName env i"
    and b: "cr_books_of env s (map snd (cr_sandboxes s))" using assms by (simp_all add: cr_books_def)
  let ?ms = "map snd (gm_del k (cr_sandboxes s))"
  have "cr_books_of env s (md # ?ms)" by (rule cr_books_of_mset [OF b mset_gm_del [OF wf Some]])
  then have p: "ports_ok (cr_ports s) (md_HostPort md # map md_HostPort ?ms)" and r: "rules_ok (cr_IPT s) (md # ?ms)"
    and h: "cr_held env s (container_of md # map container_of ?ms)" and t: "cm_Task (md_RuntimeMetadata md) = container_of md"
    and ts: "\<forall>md \<in> set ?ms. cm_Task (md_RuntimeMetadata md) = container_of md"
    by (simp_all add: cr_books_of_def)
  have p': "ports_ok ((cr_ports s)\<lparr>portsInUse := gm_del (md_HostPort md) (portsInUse (cr_ports s))\<rparr>) (map md_HostPort ?ms)"
    using UnassignPort_ok [OF p] by (simp add: UnassignPort_def rets_simps)
  note held = DeleteContainer_held [of env _ "md_RuntimeMetadata md" "map container_of ?ms", folded container_of_def, OF _ t]
  show ?thesis
    using Some apply (simp add: CR_DeleteSandbox_def SM_DeleteSandbox_def AtomicMap_Get_def DeleteRules_def UnassignPort_def rets_simps)
    apply (rule rets_mono [OF held])
    subgoal using h by (simp add: cr_held_def)
    subgoal using p' rules_ok_delete [OF r] ts wf keys by (auto simp: cr_books_def cr_books_of_def AtomicMap_defs set_gm_del)
    done
qed


lemma GetImage_keeps:
  "rets (GetImage env url) s (\<lambda>_ s'. cr_ports s' = cr_ports s \<and> cr_IPT s' = cr_IPT s \<and> cr_SandboxManager s' = cr_SandboxManager s \<and>
     cr_ids s' = cr_ids s \<and> cr_containers s' = cr_containers s \<and> cr_tasks s' = cr_tasks s \<and> cr_networks s' = cr_networks s)"
  by (auto simp: GetImage_def FetchImage_def rets_simps split: option.splits)

lemma StartContainer_held:
  assumes "cr_held env (s\<lparr>cr_containers := con\<rparr>) cs"
  shows "rets (StartContainer env ct) (s\<lparr>cr_containers := con @ [ct_number ct]\<rparr>) (\<lambda>r s'. (if r = None then cr_held env s' cs else
       cr_held env s' (ct_number ct # cs) \<and> fst (the r) = ct_number ct) \<and> cr_ports s' = cr_ports s \<and> cr_IPT s' = cr_IPT s \<and>
     cr_SandboxManager s' = cr_SandboxManager s \<and> cr_ids s' = cr_ids s)"
proof (cases "dependable env")
  case True
  then obtain ip where "ce_Setup env (ct_number ct) = Some ip" unfolding dependable_def by blast
  with True assms show ?thesis by (simp add: StartContainer_def Let_def rets_simps dependable_def cr_held_def)
next
  case False
  then show ?thesis by (auto simp: StartContainer_def Let_def rets_simps cr_held_def split: option.splits)
qed

definition cr_created ::
  "container_env \<Rightarrow> ServiceInfo \<Rightarrow> (string \<times> ContainerdMetadata Metadata) list \<Rightarrow> SandboxCreationStatus \<times> string option \<Rightarrow> cr_runtime \<Rightarrow> bool" where
  "cr_created env inp old r s \<longleftrightarrow> cr_books env s \<and>
     (if sc_Success (fst r) then \<exists>md. cr_sandboxes s = old @ [(sc_ID (fst r), md)] \<and>
        sc_PortMappings (fst r) = Some ((si_PortForwarding inp)\<lparr>pm_HostPort := md_HostPort md\<rparr>)
      else cr_sandboxes s = old)"

lemma cr_books_added:
  assumes "cr_books_of env s (md # map snd old)" and "cr_sandboxes s = gm_set k md old" and "gm_wf old"
    and "\<forall>k \<in> fst ` set old. \<exists>i < n. k = containerName env i" and "k = containerName env n" and "cr_ids s = Suc n" and "inj (ce_ids env)"
  shows "cr_books env s" and "cr_sandboxes s = old @ [(k, md)]"
proof -
  have "k \<notin> fst ` set old"
  proof
    assume "k \<in> fst ` set old"
    then obtain i where "i < n" "ce_ids env i = ce_ids env n" using assms(4,5) by (auto simp: containerName_def)
    then show False using injD [OF assms(7)] by blast
  qed
  then show set: "cr_sandboxes s = old @ [(k, md)]" using assms(2) by (simp add: gm_set_fresh)
  have "cr_books_of env s (map snd (cr_sandboxes s))" by (rule cr_books_of_mset [OF assms(1)]) (simp add: set)
  moreover have "gm_wf (cr_sandboxes s)" using assms(2,3) by simp
  moreover have "\<exists>i < cr_ids s. k' = containerName env i" if "k' \<in> fst ` set (cr_sandboxes s)" for k'
    using that assms(4-6) set by (auto intro: less_SucI)
  ultimately show "cr_books env s" by (simp add: cr_books_def)
qed

lemma cr_registered:
  assumes held: "cr_held env s (ct_number ct # map container_of (map snd old))" and p: "ports_ok (cr_ports s) (map md_HostPort (map snd old))"
    and r: "rules_ok (cr_IPT s) (map snd old)" and t: "\<forall>md \<in> set (map snd old). cm_Task (md_RuntimeMetadata md) = container_of md"
    and old: "cr_sandboxes s = old" "gm_wf old" "\<forall>k \<in> fst ` set old. \<exists>i < n. k = containerName env i"
    and n: "ct_ID ct = containerName env n" "cr_ids s = Suc n" "inj (ce_ids env)"
    and md: "md_RuntimeMetadata md = \<lparr>cm_Task = ct_number ct, cm_Container = ct\<rparr>" "md_HostPort md = port" "md_IP md = ip"
    and port: "ports_ok pt (port # map md_HostPort (map snd old))"
  shows "rets (gthen (gmodify (\<lambda>s. s\<lparr>cr_channels := ch\<rparr>)) (gthen (cr_on_monitor (AddChannel pid channel))
     (gthen (cr_on_sandboxes (gmodify (AddSandbox (ct_ID ct) md)))
     (gthen (cr_on_ipt (AddRules port ip (md_GuestPort md)))
     (gthen (cr_on_monitor (gmodify watch))
       (gret (\<lparr>sc_Success = True, sc_ID = ct_ID ct, sc_PortMappings = Some ((si_PortForwarding inp)\<lparr>pm_HostPort := port\<rparr>)\<rparr>, None))))))
     ) (s\<lparr>cr_ports := pt\<rparr>) (cr_created env inp old)"
  unfolding rets_simps
proof (rule rets_any, goal_cases)
  case (1 x pm)
  let ?calls = "cr_IPT s @ [IptAppend ''PREROUTING'' (preroutingRule port ip (md_GuestPort md)),
    IptAppend ''OUTPUT'' (outputRule port ip (md_GuestPort md)), IptAppendUnique ''POSTROUTING'' [''-j'', ''MASQUERADE''], IptForwardAccept]"
  let ?s = "s\<lparr>cr_ports := pt, cr_channels := ch, cr_SandboxManager := AddSandbox (ct_ID ct) md (cr_SandboxManager s), cr_IPT := ?calls, cr_ProcessMonitor := watch pm\<rparr>"
  have "rules_ok ?calls (md # map snd old)" by (rule rules_ok_add [OF r]) (simp_all add: md)
  then have b: "cr_books_of env ?s (md # map snd old)" using held p t md port by (simp add: cr_books_of_def container_of_def cr_held_def)
  have set: "cr_sandboxes ?s = gm_set (ct_ID ct) md old" using old(1) by (simp add: AddSandbox_def AtomicMap_defs)
  have "cr_ids ?s = Suc n" using n(2) by simp
  note new = cr_books_added [OF b set old(2,3) n(1) this n(3)]
  show ?case using new md(2) by (simp add: AddRules_def rets_simps cr_created_def)
qed

lemma CR_CreateSandbox_books:
  assumes inj: "inj (ce_ids env)" and "cr_books env s"
  shows "rets (CR_CreateSandbox env inp) s (cr_created env inp (cr_sandboxes s))"
  unfolding CR_CreateSandbox_def rets_simps Let_def
proof (rule rets_mono [OF GetImage_keeps], goal_cases)
  case (1 img s0)
  let ?old = "cr_sandboxes s" and ?n = "cr_ids s"
  define s1 where "s1 = s0\<lparr>cr_ids := Suc ?n\<rparr>"
  have wf: "gm_wf ?old" and keys: "\<forall>k \<in> fst ` set ?old. \<exists>i < ?n. k = containerName env i"
    and b: "cr_books_of env s (map snd ?old)" using assms(2) by (simp_all add: cr_books_def)
  have b0: "cr_created env inp ?old (\<lparr>sc_Success = False, sc_ID = [], sc_PortMappings = None\<rparr>, Some e) s'"
    if "cr_held env s' (map container_of (map snd ?old))" "cr_ports s' = cr_ports s" "cr_IPT s' = cr_IPT s"
      "cr_SandboxManager s' = cr_SandboxManager s" "cr_ids s' = ?n \<or> cr_ids s' = Suc ?n" for s' e
    using that(5)
  proof
    assume n: "cr_ids s' = ?n"
    show ?thesis using that(1-4) n b wf keys by (simp add: cr_created_def cr_books_def cr_books_of_def)
  next
    assume n: "cr_ids s' = Suc ?n"
    have "\<forall>k \<in> fst ` set ?old. \<exists>i < Suc ?n. k = containerName env i" using keys less_SucI by blast
    then show ?thesis using that(1-4) n b wf by (simp add: cr_created_def cr_books_def cr_books_of_def)
  qed
  have held: "cr_held env (s1\<lparr>cr_containers := cr_containers s\<rparr>) (map container_of (map snd ?old))"
    using b 1 by (simp add: cr_books_of_def cr_held_def s1_def)
  show ?case
  proof (cases "img = None \<or> \<not> ce_NewContainer env ?n")
    case True
    have "cr_held env s0 (map container_of (map snd ?old))" using held 1 by (simp add: cr_held_def s1_def)
    then show ?thesis using True 1 b0 held
      by (auto simp: rets_simps CreateContainer_def s1_def cr_held_def split: option.splits)
  next
    case False
    then obtain i where i: "img = Some i" "ce_NewContainer env ?n" by (cases img) auto
    define ct where "ct = \<lparr>ct_number = ?n, ct_ID = containerName env ?n\<rparr>"
    have start: "rets (StartContainer env ct) (s0\<lparr>cr_ids := Suc ?n, cr_containers := cr_containers s @ [?n]\<rparr>) Q"
      if "\<And>r s'. (if r = None then cr_held env s' (map container_of (map snd ?old)) else
         cr_held env s' (ct_number ct # map container_of (map snd ?old)) \<and> fst (the r) = ct_number ct) \<and> cr_ports s' = cr_ports s \<and> cr_IPT s' = cr_IPT s \<and>
         cr_SandboxManager s' = cr_SandboxManager s \<and> cr_ids s' = Suc ?n \<Longrightarrow> Q r s'" for Q
    proof -
      have "s0\<lparr>cr_ids := Suc ?n, cr_containers := cr_containers s @ [?n]\<rparr> = s1\<lparr>cr_containers := cr_containers s @ [ct_number ct]\<rparr>"
        by (simp add: s1_def ct_def)
      then show ?thesis by (simp only:) (rule rets_mono [OF StartContainer_held [OF held]], rule that, use 1 in \<open>auto simp: s1_def split: if_splits\<close>)
    qed
    have create: "rets (CreateContainer env i) s0 Q" if "Q (Some ct) (s0\<lparr>cr_ids := Suc ?n, cr_containers := cr_containers s @ [?n]\<rparr>)" for Q
      using i 1 that by (simp add: CreateContainer_def rets_simps ct_def containerName_def)
    show ?thesis unfolding i(1) option.case rets_simps(2)
    proof (rule create, unfold option.case rets_simps, rule start, goal_cases)
      case (1 r s2)
      show ?case
      proof (cases r)
        case None
        then show ?thesis using 1 b0 [of s2 "''start''"] by (simp add: rets_simps)
      next
        case (Some x)
        obtain ip ns where x: "r = Some (ct_number ct, ip, ns)" using 1 Some by (cases x) auto
        note s2 = 1
        have p: "ports_ok (cr_ports s2) (map md_HostPort (map snd ?old))" using 1 b by (simp add: cr_books_of_def)
        show ?thesis unfolding x option.case prod.case rets_simps(2,4,7)
        proof (rule rets_mono [OF AssignRandomPort_ok [OF p]], goal_cases)
          case (1 port pt)
          then show ?case
            by (intro cr_registered [OF _ _ _ _ _ wf keys _ _ inj]) (use s2 b x in \<open>simp_all add: cr_books_of_def ct_def\<close>)
        qed
      qed
    qed
  qed
qed

end
