(* ===== verification/Worker_Node.thy ===== *)
theory Worker_Node
  imports Containerd Net_Helpers
begin

text \<open>
  The daemon of a worker node (\<^verbatim>\<open>internal/worker_node/worker_node.go\<close>, \<^verbatim>\<open>api/worker_node_api_server.go\<close>) with the three
  runtimes it can use. The contract of a runtime is a locale that the Firecracker and the containerd runtime are shown
  to satisfy, and from which follows what is left when the daemon has cleaned up. The answers of the control plane to the
  attempts of a poll are an argument, as many as fit into the time of the poll.
\<close>

section \<open>The runtime without sandboxes\<close>

text \<open>\<^verbatim>\<open>sandbox/fake_snapshot/runtime.go\<close>: sandboxes exist only in the answers.\<close>

definition FS_CreateSandbox :: "nat \<Rightarrow> SandboxCreationStatus" where
  "FS_CreateSandbox rnd = \<lparr>sc_Success = True, sc_ID = ''dummy-sandbox-'' @ dec rnd,
     sc_PortMappings = Some \<lparr>pm_HostPort = 80, pm_GuestPort = 80, pm_Protocol = L4Protocol_TCP\<rparr>\<rparr>"

definition FS_DeleteSandbox :: "string \<Rightarrow> ActionStatus" where
  "FS_DeleteSandbox ident = Success"

definition FS_ListEndpoints :: "ProtoEndpoint list" where
  "FS_ListEndpoints = []"

section \<open>The three runtimes\<close>

datatype SandboxRuntime = Containerd_rt cr_runtime | Firecracker_rt fc_runtime | FakeSnapshot_rt "unit SandboxManager" nat

record worker_env =
  we_containerd :: container_env
  we_firecracker :: machine_env
  we_random :: "nat \<Rightarrow> nat"

definition inside :: "('t \<Rightarrow> 's) \<Rightarrow> ('t, 'a) outcome \<Rightarrow> ('s, 'a) outcome" where
  "inside f r = (case r of Ret x t \<Rightarrow> Ret x (f t) | Panic e t \<Rightarrow> Panic e (f t) | Blocked e t \<Rightarrow> Blocked e (f t))"

definition rt_CreateSandbox :: "worker_env \<Rightarrow> ServiceInfo \<Rightarrow> (SandboxRuntime, SandboxCreationStatus \<times> string option) go" where
  "rt_CreateSandbox we inp rt = (case rt of
       Containerd_rt s \<Rightarrow> inside Containerd_rt (CR_CreateSandbox (we_containerd we) inp s)
     | Firecracker_rt s \<Rightarrow> inside Firecracker_rt (FC_CreateSandbox (we_firecracker we) inp s)
     | FakeSnapshot_rt m n \<Rightarrow> Ret (FS_CreateSandbox (we_random we n), None) (FakeSnapshot_rt m (n + 1)))"

definition rt_DeleteSandbox :: "worker_env \<Rightarrow> string \<Rightarrow> (SandboxRuntime, ActionStatus \<times> string option) go" where
  "rt_DeleteSandbox we ident rt = (case rt of
       Containerd_rt s \<Rightarrow> inside Containerd_rt (CR_DeleteSandbox (we_containerd we) ident s)
     | Firecracker_rt s \<Rightarrow> inside Firecracker_rt (gbind (FC_DeleteSandbox (we_firecracker we) ident) (\<lambda>r. gret (r, None)) s)
     | FakeSnapshot_rt m n \<Rightarrow> Ret (FS_DeleteSandbox ident, None) rt)"

definition rt_ListEndpoints :: "SandboxRuntime \<Rightarrow> ProtoEndpoint list" where
  "rt_ListEndpoints rt = (case rt of
       Containerd_rt s \<Rightarrow> CR_ListEndpoints s
     | Firecracker_rt s \<Rightarrow> FC_ListEndpoints s
     | FakeSnapshot_rt m n \<Rightarrow> FS_ListEndpoints)"

definition ValidateHostConfig :: "bool \<Rightarrow> SandboxRuntime \<Rightarrow> bool" where
  \<comment> \<open>whether there is access to KVM\<close>
  "ValidateHostConfig kvm rt = (case rt of Firecracker_rt s \<Rightarrow> kvm | _ \<Rightarrow> True)"

definition rt_keys :: "SandboxRuntime \<Rightarrow> string list" where
  \<comment> \<open>\<^verbatim>\<open>SandboxManager.Metadata.Keys()\<close> of the manager that the daemon shares with the runtime\<close>
  "rt_keys rt = (case rt of
       Containerd_rt s \<Rightarrow> AtomicMap_Keys (sm_Metadata (cr_SandboxManager s))
     | Firecracker_rt s \<Rightarrow> AtomicMap_Keys (sm_Metadata (fr_SandboxManager s))
     | FakeSnapshot_rt m n \<Rightarrow> AtomicMap_Keys (sm_Metadata m))"

section \<open>The daemon\<close>

record WorkerDaemon =
  \<comment> \<open>\<open>wn_rt_cpApi\<close>: the connection to the control plane that was given to the runtime\<close>
  wn_cpApi :: string
  wn_rt_cpApi :: string
  wn_SandboxRuntime :: SandboxRuntime
  wn_Name :: string

record host =
  \<comment> \<open>what the daemon finds on its machine\<close>
  h_name :: "string option"
  h_root :: bool
  h_kvm :: bool
  h_iptables :: bool
  h_containerd :: bool
  h_cni :: bool
  h_devices :: "string list option"
  h_monitor :: ProcessMonitor

definition NewRuntime :: "worker_env \<Rightarrow> host \<Rightarrow> WorkerNodeConfig \<Rightarrow> string \<Rightarrow> (SandboxRuntime, unit) outcome" where
  "NewRuntime we h cfg nodeName =
     (if wnc_CRIType cfg = ''containerd'' then inside Containerd_rt (NewContainerdRuntime (we_containerd we) (h_containerd h) (h_cni h)
          (h_iptables h) (h_monitor h) cfg (NewSandboxManager nodeName))
      else if wnc_CRIType cfg = ''firecracker'' then inside Firecracker_rt (NewFirecrackerRuntime (we_firecracker we) (h_devices h)
          (h_iptables h) (h_monitor h) nodeName cfg)
      else if wnc_CRIType cfg = ''scalability_test'' then Ret () (FakeSnapshot_rt (NewSandboxManager nodeName) 0)
      else Panic ''Unsupported sandbox type.'' (FakeSnapshot_rt (NewSandboxManager nodeName) 0))"

definition NewWorkerDaemon :: "worker_env \<Rightarrow> host \<Rightarrow> nat \<Rightarrow> string \<Rightarrow> WorkerNodeConfig \<Rightarrow> string list \<Rightarrow> (WorkerDaemon, unit) outcome" where
  \<comment> \<open>of the draw for the name, the connection to the control plane and the names given\<close>
  "NewWorkerDaemon we h rnd cpApi cfg names =
     (let hostName = (case names of n # _ \<Rightarrow> n | [] \<Rightarrow> (case h_name h of None \<Rightarrow> [] | Some n \<Rightarrow> n));
          nodeName = hostName @ ''-'' @ dec rnd;
          node = (\<lambda>rt. \<lparr>wn_cpApi = cpApi, wn_rt_cpApi = cpApi, wn_SandboxRuntime = rt, wn_Name = nodeName\<rparr>)
      in if \<not> h_root h then Panic ''Cannot create a worker daemon without sudo.'' (node (FakeSnapshot_rt (NewSandboxManager nodeName) 0))
         else case NewRuntime we h cfg nodeName of
           Ret _ rt \<Rightarrow> if \<not> ValidateHostConfig (h_kvm h) rt then Panic ''The host machine configuration is invalid'' (node rt) else Ret () (node rt)
         | Panic e rt \<Rightarrow> Panic e (node rt)
         | Blocked e rt \<Rightarrow> Blocked e (node rt))"

abbreviation on_runtime :: "(SandboxRuntime, 'a) go \<Rightarrow> (WorkerDaemon, 'a) go" where
  "on_runtime m \<equiv> gzoom wn_SandboxRuntime (\<lambda>rt w. w\<lparr>wn_SandboxRuntime := rt\<rparr>) m"

definition Wn_CreateSandbox :: "worker_env \<Rightarrow> ServiceInfo \<Rightarrow> (WorkerDaemon, SandboxCreationStatus \<times> string option) go" where
  "Wn_CreateSandbox we inp = on_runtime (rt_CreateSandbox we inp)"

definition Wn_DeleteSandbox :: "worker_env \<Rightarrow> string \<Rightarrow> (WorkerDaemon, ActionStatus \<times> string option) go" where
  "Wn_DeleteSandbox we ident = on_runtime (rt_DeleteSandbox we ident)"

definition Wn_ListEndpoints :: "WorkerDaemon \<Rightarrow> ProtoEndpoint list" where
  "Wn_ListEndpoints w = rt_ListEndpoints (wn_SandboxRuntime w)"

definition CleanResources :: "worker_env \<Rightarrow> (WorkerDaemon, unit) go" where
  \<comment> \<open>an error is only logged\<close>
  "CleanResources we = gbind (gget (\<lambda>w. rt_keys (wn_SandboxRuntime w))) (\<lambda>keys.
     gthen (grange keys (\<lambda>key. gthen (on_runtime (rt_DeleteSandbox we key)) (gret (None :: unit option)))) (gret ()))"


subsection \<open>Talking to the control plane\<close>

text \<open>
  \<^verbatim>\<open>wait.PollUntilContextCancel\<close> is an argument: what it returns, nothing or an error, for the condition that it polls, which
  is given by what it says at each attempt.
\<close>

type_synonym poller = "(nat \<Rightarrow> string + bool) \<Rightarrow> string option"

datatype instruction = RegisterAction | DeregisterAction

definition nodeInfo :: "WorkerDaemon \<Rightarrow> WorkerNodeConfig \<Rightarrow> uint64 \<Rightarrow> uint64 \<Rightarrow> NodeInfo" where
  "nodeInfo w cfg cores memory = \<lparr>ni_NodeID = wn_Name w, ni_IP = wnc_WorkerNodeIP cfg, ni_Port = to_int32 (wnc_Port cfg),
     ni_CpuCores = cores, ni_MemorySize = memory\<rparr>"

definition sendInstructionToControlPlane ::
  "poller \<Rightarrow> (nat \<Rightarrow> instruction \<Rightarrow> NodeInfo \<Rightarrow> ActionStatus option) \<Rightarrow> uint64 \<Rightarrow> uint64 \<Rightarrow> WorkerNodeConfig \<Rightarrow> instruction \<Rightarrow> (WorkerDaemon, unit) go" where
  \<comment> \<open>\<open>call i\<close>: the answer to the \<open>i\<close>-th call, nothing on an error\<close>
  "sendInstructionToControlPlane poll call cores memory cfg action = gbind (gget (\<lambda>w. nodeInfo w cfg cores memory)) (\<lambda>info.
     let cond = (\<lambda>i. case call i action info of None \<Rightarrow> Inr False | Some resp \<Rightarrow> Inr (as_Success resp))
     in case poll cond of
          Some e \<Rightarrow> gpanic ''Failed to register the node with the control plane''
        | None \<Rightarrow> gret ())"

definition RegisterNodeWithControlPlane ::
  "poller \<Rightarrow> (nat \<Rightarrow> instruction \<Rightarrow> NodeInfo \<Rightarrow> ActionStatus option) \<Rightarrow> uint64 \<Rightarrow> uint64 \<Rightarrow> WorkerNodeConfig \<Rightarrow> (WorkerDaemon, unit) go" where
  \<comment> \<open>ten seconds, with an attempt every five\<close>
  "RegisterNodeWithControlPlane poll call cores memory cfg = sendInstructionToControlPlane poll call cores memory cfg RegisterAction"

definition DeregisterNodeFromControlPlane ::
  "poller \<Rightarrow> (nat \<Rightarrow> instruction \<Rightarrow> NodeInfo \<Rightarrow> ActionStatus option) \<Rightarrow> uint64 \<Rightarrow> uint64 \<Rightarrow> WorkerNodeConfig \<Rightarrow> (WorkerDaemon, unit) go" where
  \<comment> \<open>one second\<close>
  "DeregisterNodeFromControlPlane poll call cores memory cfg = sendInstructionToControlPlane poll call cores memory cfg DeregisterAction"

definition StopWorkerNode ::
  "worker_env \<Rightarrow> poller \<Rightarrow> (nat \<Rightarrow> instruction \<Rightarrow> NodeInfo \<Rightarrow> ActionStatus option) \<Rightarrow> uint64 \<Rightarrow> uint64 \<Rightarrow> WorkerNodeConfig \<Rightarrow> (WorkerDaemon, unit) go" where
  "StopWorkerNode we poll call cores memory cfg = gthen (CleanResources we) (DeregisterNodeFromControlPlane poll call cores memory cfg)"

definition getWorkerStatistics :: "uint64 \<Rightarrow> uint64 \<Rightarrow> WorkerDaemon \<Rightarrow> NodeHeartbeatMessage" where
  "getWorkerStatistics cpu memory w = \<lparr>hb_NodeID = wn_Name w, hb_CpuUsage = cpu, hb_MemoryUsage = memory\<rparr>"

definition sendHeartbeatLoop ::
  "poller \<Rightarrow> (string \<Rightarrow> nat \<Rightarrow> NodeHeartbeatMessage \<Rightarrow> string + ActionStatus option) \<Rightarrow> (nat \<Rightarrow> uint64 \<times> uint64) \<Rightarrow> (nat \<Rightarrow> string \<Rightarrow> bool) \<Rightarrow> (nat \<Rightarrow> nat) \<Rightarrow>
   WorkerNodeConfig \<Rightarrow> (WorkerDaemon, unit) go" where
  \<comment> \<open>five seconds, with an attempt every two and a half; \<open>call addr i\<close>: the answer of the replica to the \<open>i\<close>-th call\<close>
  "sendHeartbeatLoop poll call usage dial rnd cfg = gbind (gget (\<lambda>w. w)) (\<lambda>w.
     let cond = (\<lambda>i. case call (wn_cpApi w) i (getWorkerStatistics (fst (usage i)) (snd (usage i)) w) of
           Inl e \<Rightarrow> Inl e | Inr None \<Rightarrow> Inr False | Inr (Some resp) \<Rightarrow> Inr (as_Success resp))
     in case poll cond of
          None \<Rightarrow> gret ()
        | Some e \<Rightarrow> gbind (NewControlPlaneConnection dial rnd (wnc_ControlPlaneAddress cfg)) (\<lambda>addr.
            gmodify (\<lambda>w. w\<lparr>wn_cpApi := addr\<rparr>)))"

definition watchSandbox :: "string \<Rightarrow> string \<Rightarrow> uint32 \<Rightarrow> WorkerDaemon \<Rightarrow> (string \<times> Failure) option" where
  \<comment> \<open>what \<^verbatim>\<open>WatchExitChannel\<close> reports, and over which connection\<close>
  "watchSandbox serviceName ident exitCode w = map_option (\<lambda>f. (wn_rt_cpApi w, f)) (WatchExitChannel True serviceName ident exitCode)"

section \<open>The contract of a runtime\<close>

locale sandbox_table =
  fixes inv :: "'s \<Rightarrow> bool" and keys :: "'s \<Rightarrow> string list" and delete :: "string \<Rightarrow> ('s, 'd) go"
  assumes distinct_keys: "inv s \<Longrightarrow> distinct (keys s)"
    and delete: "inv s \<Longrightarrow> runs (delete k) s (\<lambda>_ s'. inv s' \<and> set (keys s') = set (keys s) - {k})"
begin

lemma delete_all:
  "inv s \<Longrightarrow> runs (grange ks (\<lambda>k. gthen (delete k) (gret (None :: unit option)))) s (\<lambda>_ s'. inv s' \<and> set (keys s') = set (keys s) - set ks)"
proof (induction ks arbitrary: s)
  case (Cons k ks)
  show ?case unfolding grange.simps wp
  proof (rule runs_mono [OF delete [OF Cons.prems]], goal_cases)
    case (1 x s1)
    then have "runs (grange ks (\<lambda>k. gthen (delete k) (gret (None :: unit option)))) s1 (\<lambda>_ s'. inv s' \<and> set (keys s') = set (keys s1) - set ks)"
      by (intro Cons.IH) simp
    then show ?case using 1 by (auto elim!: runs_mono)
  qed
qed (simp add: wp)

lemma clean: "inv s \<Longrightarrow> runs (grange (keys s) (\<lambda>k. gthen (delete k) (gret (None :: unit option)))) s (\<lambda>_ s'. inv s' \<and> keys s' = [])"
  using runs_mono [OF delete_all [of s "keys s"]] by auto

end

locale sandbox_runtime = sandbox_table +
  fixes create :: "ServiceInfo \<Rightarrow> ('a, SandboxCreationStatus \<times> string option) go"
  assumes create: "inv s \<Longrightarrow> rets (create inp) s (\<lambda>r s'. inv s' \<and> keys s' = (if sc_Success (fst r) then keys s @ [sc_ID (fst r)] else keys s))"
begin

lemma create_new: "inv s \<Longrightarrow> rets (create inp) s (\<lambda>r _. sc_Success (fst r) \<longrightarrow> sc_ID (fst r) \<notin> set (keys s))"
proof -
  assume "inv s"
  from create [OF this] show ?thesis
    by (rule rets_mono) (use distinct_keys in \<open>force split: if_splits\<close>)
qed

lemma create_delete:
  assumes "inv s" and "create inp s = Ret r s1" and "sc_Success (fst r)"
  shows "runs (delete (sc_ID (fst r))) s1 (\<lambda>_ s'. inv s' \<and> set (keys s') = set (keys s))"
proof -
  have s1: "inv s1" "keys s1 = keys s @ [sc_ID (fst r)]" using rets_Ret [OF create [OF assms(1)] assms(2)] assms(3) by simp_all
  show ?thesis by (rule runs_mono [OF delete [OF s1(1)]]) (use s1(2) distinct_keys [OF s1(1)] in auto)
qed

end

lemma runs_rets: "runs m s (\<lambda>_ _. True) \<Longrightarrow> rets m s Q \<Longrightarrow> runs m s Q"
  by (simp add: runs_def rets_def split: outcome.splits)

lemma FC_DeleteSandbox_returns: "fc_books env s \<Longrightarrow> runs (FC_DeleteSandbox env k) s (\<lambda>_ _. True)"
proof (cases "map_of (sandboxes s) k")
  case (Some md)
  assume "fc_books env s"
  then have "md \<in> snd ` set (sandboxes s)" "\<forall>md \<in> set (map snd (sandboxes s)). vm_VM (md_RuntimeMetadata md) = Some (machine_of md)"
    using map_of_SomeD [OF Some] by (force simp: fc_books_def books_of_def)+
  then have "vm_VM (md_RuntimeMetadata md) = Some (machine_of md)" by auto
  with Some show ?thesis
    by (simp add: FC_DeleteSandbox_def SM_DeleteSandbox_def AtomicMap_defs DeleteRules_def UnassignPort_def StopFirecrackerVM_def giveUp_def
          GiveUpNetwork_def deleteNetworkNamespaceByName_def deleteDeviceByName_def exec_fails_def wp split: option.splits)
qed (simp add: FC_DeleteSandbox_def SM_DeleteSandbox_def AtomicMap_defs wp)

lemma CR_DeleteSandbox_returns: "runs (CR_DeleteSandbox env k) s (\<lambda>_ _. True)"
  by (simp add: CR_DeleteSandbox_def SM_DeleteSandbox_def AtomicMap_defs DeleteRules_def UnassignPort_def DeleteContainer_def Let_def wp split: option.splits)

interpretation fc: sandbox_runtime "\<lambda>s. inj (me_ids env) \<and> fc_books env s" "\<lambda>s. map fst (sandboxes s)" "FC_DeleteSandbox env" "FC_CreateSandbox env"
proof
  fix s k inp
  assume s: "inj (me_ids env) \<and> fc_books env s"
  then show "distinct (map fst (sandboxes s))" by (simp add: fc_books_def gm_wf_def)
  show "runs (FC_DeleteSandbox env k) s (\<lambda>_ s'. (inj (me_ids env) \<and> fc_books env s') \<and> set (map fst (sandboxes s')) = set (map fst (sandboxes s)) - {k})"
    by (rule runs_rets [OF FC_DeleteSandbox_returns rets_mono [OF FC_DeleteSandbox_books]]) (use s in \<open>auto simp: set_gm_del\<close>)
  show "rets (FC_CreateSandbox env inp) s (\<lambda>r s'. (inj (me_ids env) \<and> fc_books env s') \<and>
      map fst (sandboxes s') = (if sc_Success (fst r) then map fst (sandboxes s) @ [sc_ID (fst r)] else map fst (sandboxes s)))"
    by (rule rets_mono [OF FC_CreateSandbox_books]) (use s in \<open>auto simp: created_def\<close>)
qed

interpretation cr: sandbox_runtime "\<lambda>s. inj (ce_ids env) \<and> cr_books env s" "\<lambda>s. map fst (cr_sandboxes s)" "CR_DeleteSandbox env" "CR_CreateSandbox env"
proof
  fix s k inp
  assume s: "inj (ce_ids env) \<and> cr_books env s"
  then show "distinct (map fst (cr_sandboxes s))" by (simp add: cr_books_def gm_wf_def)
  show "runs (CR_DeleteSandbox env k) s (\<lambda>_ s'. (inj (ce_ids env) \<and> cr_books env s') \<and> set (map fst (cr_sandboxes s')) = set (map fst (cr_sandboxes s)) - {k})"
    by (rule runs_rets [OF CR_DeleteSandbox_returns rets_mono [OF CR_DeleteSandbox_books]]) (use s in \<open>auto simp: set_gm_del\<close>)
  show "rets (CR_CreateSandbox env inp) s (\<lambda>r s'. (inj (ce_ids env) \<and> cr_books env s') \<and>
      map fst (cr_sandboxes s') = (if sc_Success (fst r) then map fst (cr_sandboxes s) @ [sc_ID (fst r)] else map fst (cr_sandboxes s)))"
    by (rule rets_mono [OF CR_CreateSandbox_books]) (use s in \<open>auto simp: cr_created_def\<close>)
qed


section \<open>The daemon and its runtime\<close>

definition rt_inv :: "worker_env \<Rightarrow> SandboxRuntime \<Rightarrow> bool" where
  "rt_inv we rt = (case rt of
       Containerd_rt s \<Rightarrow> inj (ce_ids (we_containerd we)) \<and> cr_books (we_containerd we) s
     | Firecracker_rt s \<Rightarrow> inj (me_ids (we_firecracker we)) \<and> fc_books (we_firecracker we) s
     | FakeSnapshot_rt m n \<Rightarrow> entries (sm_Metadata m) = [])"

lemma runs_inside: "(case inside f (m t) of Ret x s \<Rightarrow> Q x s | _ \<Rightarrow> False) = runs m t (\<lambda>x t'. Q x (f t'))"
  by (simp add: runs_def inside_def split: outcome.splits)

lemma inside_Ret: "inside f r = Ret x s \<longleftrightarrow> (\<exists>t. r = Ret x t \<and> s = f t)"
  by (auto simp: inside_def split: outcome.splits)

lemma rt_keys_simps:
  "rt_keys (Containerd_rt c) = map fst (cr_sandboxes c)" "rt_keys (Firecracker_rt f) = map fst (sandboxes f)"
  "rt_keys (FakeSnapshot_rt m n) = map fst (entries (sm_Metadata m))"
  by (simp_all add: rt_keys_def AtomicMap_Keys_def)

interpretation worker: sandbox_table "rt_inv we" rt_keys "rt_DeleteSandbox we"
proof
  fix rt k
  assume i: "rt_inv we rt"
  show "distinct (rt_keys rt)"
    using i cr.distinct_keys fc.distinct_keys by (cases rt) (auto simp: rt_inv_def rt_keys_simps)
  show "runs (rt_DeleteSandbox we k) rt (\<lambda>_ rt'. rt_inv we rt' \<and> set (rt_keys rt') = set (rt_keys rt) - {k})"
  proof (cases rt)
    case (Containerd_rt c)
    with i show ?thesis using cr.delete [of "we_containerd we" c k]
      by (simp add: runs_def [of "rt_DeleteSandbox we k"] rt_DeleteSandbox_def runs_inside rt_inv_def rt_keys_simps)
  next
    case (Firecracker_rt f)
    with i show ?thesis using fc.delete [of "we_firecracker we" f k]
      by (simp add: runs_def [of "rt_DeleteSandbox we k"] rt_DeleteSandbox_def runs_inside rt_inv_def rt_keys_simps wp)
  next
    case (FakeSnapshot_rt m n)
    with i show ?thesis by (simp add: runs_def rt_DeleteSandbox_def rt_inv_def rt_keys_simps)
  qed
qed

definition holds_nothing :: "worker_env \<Rightarrow> SandboxRuntime \<Rightarrow> bool" where
  "holds_nothing we rt = (case rt of
       Containerd_rt s \<Rightarrow> portsInUse (cr_ports s) = [] \<and> rules_ok (cr_IPT s) ([] :: ContainerdMetadata Metadata list) \<and>
         (dependable (we_containerd we) \<longrightarrow> cr_containers s = [] \<and> cr_tasks s = [] \<and> cr_networks s = [])
     | Firecracker_rt s \<Rightarrow> portsInUse (fr_ports s) = [] \<and> rules_ok (fr_IPT s) ([] :: VMControlStructure Metadata list) \<and>
         (reliable (we_firecracker we) \<longrightarrow> fr_running s = [])
     | FakeSnapshot_rt m n \<Rightarrow> True)"

lemma empty_holds_nothing: "rt_inv we rt \<Longrightarrow> rt_keys rt = [] \<Longrightarrow> holds_nothing we rt \<and> rt_ListEndpoints rt = []"
  by (cases rt) (auto simp: rt_inv_def rt_keys_simps holds_nothing_def cr_books_def cr_books_of_def cr_held_def fc_books_def books_of_def ports_ok_def
    rt_ListEndpoints_def CR_ListEndpoints_def FC_ListEndpoints_def FS_ListEndpoints_def SM_ListEndpoints_def AtomicMap_KeyValues_def)

inductive wn_step :: "worker_env \<Rightarrow> WorkerDaemon \<Rightarrow> WorkerDaemon \<Rightarrow> bool" for we where
  wn_create: "Wn_CreateSandbox we inp w = Ret r w' \<Longrightarrow> wn_step we w w'"
| wn_delete: "Wn_DeleteSandbox we k w = Ret r w' \<Longrightarrow> wn_step we w w'"
| wn_heartbeat: "sendHeartbeatLoop poll call usage dial rnd cfg w = Ret () w' \<Longrightarrow> wn_step we w w'"
| wn_networks: "wn_SandboxRuntime w = Firecracker_rt s \<Longrightarrow> on_network (populate (we_firecracker we)) s = Ret () s' \<Longrightarrow>
    wn_step we w (w\<lparr>wn_SandboxRuntime := Firecracker_rt s'\<rparr>)"
| wn_fc_exits: "wn_SandboxRuntime w = Firecracker_rt s \<Longrightarrow> on_monitor (monitorRound events) s = Ret () s' \<Longrightarrow>
    wn_step we w (w\<lparr>wn_SandboxRuntime := Firecracker_rt s'\<rparr>)"
| wn_cr_exits: "wn_SandboxRuntime w = Containerd_rt c \<Longrightarrow> cr_on_monitor (monitorRound events) c = Ret () c' \<Longrightarrow>
    wn_step we w (w\<lparr>wn_SandboxRuntime := Containerd_rt c'\<rparr>)"

inductive wn_reachable :: "worker_env \<Rightarrow> WorkerDaemon \<Rightarrow> bool" for we where
  wn_started: "NewWorkerDaemon we h rnd cpApi cfg names = Ret () w \<Longrightarrow> wn_reachable we w"
| wn_continued: "wn_reachable we w \<Longrightarrow> wn_step we w w' \<Longrightarrow> wn_reachable we w'"

lemma gzoom_Ret: "gzoom get put m s = Ret x s' \<longleftrightarrow> (\<exists>t. m (get s) = Ret x t \<and> s' = put t s)"
  by (auto simp: gzoom_def split: outcome.splits)

lemma rt_CreateSandbox_inv:
  assumes "rt_inv we rt" and "rt_CreateSandbox we inp rt = Ret r rt'"
  shows "rt_inv we rt'"
proof (cases rt)
  case (Containerd_rt c)
  with assms obtain c' where c': "CR_CreateSandbox (we_containerd we) inp c = Ret r c'" "rt' = Containerd_rt c'"
    by (auto simp: rt_CreateSandbox_def inside_Ret)
  then show ?thesis using rets_Ret [OF cr.create [of "we_containerd we" c inp]] assms(1) Containerd_rt by (simp add: rt_inv_def)
next
  case (Firecracker_rt f)
  with assms obtain f' where f': "FC_CreateSandbox (we_firecracker we) inp f = Ret r f'" "rt' = Firecracker_rt f'"
    by (auto simp: rt_CreateSandbox_def inside_Ret)
  then show ?thesis using rets_Ret [OF fc.create [of "we_firecracker we" f inp]] assms(1) Firecracker_rt by (simp add: rt_inv_def)
next
  case (FakeSnapshot_rt m n)
  with assms show ?thesis by (auto simp: rt_CreateSandbox_def rt_inv_def)
qed

lemma wn_step_inv:
  assumes "wn_step we w w'" and "rt_inv we (wn_SandboxRuntime w)"
  shows "rt_inv we (wn_SandboxRuntime w')"
  using assms(1)
proof cases
  case (wn_create inp r)
  then obtain rt where "rt_CreateSandbox we inp (wn_SandboxRuntime w) = Ret r rt" "w' = w\<lparr>wn_SandboxRuntime := rt\<rparr>"
    by (auto simp: Wn_CreateSandbox_def gzoom_Ret)
  then show ?thesis using rt_CreateSandbox_inv [OF assms(2)] by simp
next
  case (wn_delete k r)
  then show ?thesis using worker.delete [OF assms(2), of k] by (auto simp: Wn_DeleteSandbox_def gzoom_Ret runs_def)
next
  case (wn_heartbeat poll call usage dial rnd cfg)
  then have "wn_SandboxRuntime w' = wn_SandboxRuntime w"
    by (auto simp: sendHeartbeatLoop_def NewControlPlaneConnection_def EstablishGRPCConnectionPoll_def go_monad Let_def split: option.splits if_splits)
  then show ?thesis using assms(2) by simp
next
  case (wn_networks s s')
  then have "fc_step (we_firecracker we) s s'" by (intro fill_step)
  then show ?thesis using assms(2) wn_networks(1,2) by (auto simp: rt_inv_def intro: fc_step_books)
next
  case (wn_fc_exits s events s')
  then have "fc_step (we_firecracker we) s s'" by (intro monitor_step)
  then show ?thesis using assms(2) wn_fc_exits(1,2) by (auto simp: rt_inv_def intro: fc_step_books)
next
  case (wn_cr_exits c events c')
  then obtain t where "c' = c\<lparr>cr_ProcessMonitor := t\<rparr>" by (auto simp: gzoom_Ret)
  then show ?thesis using assms(2) wn_cr_exits(1,2) by (simp add: rt_inv_def cr_books_def cr_books_of_def cr_held_def)
qed

lemma NewWorkerDaemon_inv:
  assumes "inj (ce_ids (we_containerd we))" "inj (me_ids (we_firecracker we))" and "NewWorkerDaemon we h rnd cpApi cfg names = Ret () w"
  shows "rt_inv we (wn_SandboxRuntime w)"
proof -
  obtain name where r: "NewRuntime we h cfg name = Ret () (wn_SandboxRuntime w)"
    using assms(3) by (auto simp: NewWorkerDaemon_def Let_def split: if_splits outcome.splits)
  have new: "cr_books (we_containerd we) c" if "NewContainerdRuntime (we_containerd we) a b i pm cfg (NewSandboxManager name) = Ret () c" for a b i pm c
  proof -
    have "cr_ports c = \<lparr>portsInUse = [], ports_drawn = 0\<rparr> \<and> cr_IPT c = [] \<and> cr_SandboxManager c = NewSandboxManager name \<and>
       cr_containers c = [] \<and> cr_tasks c = [] \<and> cr_networks c = []"
      using that by (auto simp: NewContainerdRuntime_def Let_def GetImage_def FetchImage_def go_monad split: if_splits option.splits)
    then show ?thesis
      by (simp add: cr_books_def cr_books_of_def cr_held_def NewSandboxManager_def NewAtomicMap_def ports_ok_def rules_ok_def forwards_simps forwarding_def)
  qed
  have fake: "rt_inv we (FakeSnapshot_rt (NewSandboxManager name) 0)" by (simp add: rt_inv_def NewSandboxManager_def NewAtomicMap_def)
  show ?thesis using r assms(1,2) new books_started fake
    by (cases "wn_SandboxRuntime w") (auto simp: NewRuntime_def inside_Ret rt_inv_def split: if_splits)
qed

lemma wn_reachable_inv:
  assumes "wn_reachable we w" and "inj (ce_ids (we_containerd we))" "inj (me_ids (we_firecracker we))"
  shows "rt_inv we (wn_SandboxRuntime w)"
  using assms(1) by induction (use NewWorkerDaemon_inv [OF assms(2,3)] wn_step_inv in blast)+

text \<open>
  C15. A worker node that cleans up holds nothing any more. Whatever sandboxes have been created and deleted before, by
  whichever of the three runtimes, \<^verbatim>\<open>CleanResources\<close> returns, and afterwards no sandbox is listed, no host port is in use and
  every rule for forwarding has been deleted as often as it was added. If the libraries do not fail, no container, task or container
  network is left, and no virtual machine runs. The random names of the sandboxes are assumed to differ.
\<close>
theorem cleaned_worker_holds_nothing:
  assumes "inj (ce_ids (we_containerd we))" and "inj (me_ids (we_firecracker we))" and "wn_reachable we w"
  shows "runs (CleanResources we) w (\<lambda>_ w'. Wn_ListEndpoints w' = [] \<and> holds_nothing we (wn_SandboxRuntime w'))"
proof -
  have zoom: "runs (grange ks (\<lambda>k. gthen (on_runtime (rt_DeleteSandbox we k)) (gret None))) w Q =
      runs (grange ks (\<lambda>k. gthen (rt_DeleteSandbox we k) (gret (None :: unit option)))) (wn_SandboxRuntime w)
        (\<lambda>x rt. Q x (w\<lparr>wn_SandboxRuntime := rt\<rparr>))" for ks w Q
    by (induction ks arbitrary: w Q) (simp_all add: wp)
  have "runs (grange (rt_keys (wn_SandboxRuntime w)) (\<lambda>k. gthen (rt_DeleteSandbox we k) (gret (None :: unit option)))) (wn_SandboxRuntime w)
      (\<lambda>_ rt. rt_inv we rt \<and> rt_keys rt = [])"
    by (rule worker.clean [OF wn_reachable_inv [OF assms(3,1,2)]])
  then show ?thesis unfolding CleanResources_def wp zoom
    by (rule runs_mono) (use empty_holds_nothing in \<open>auto simp: Wn_ListEndpoints_def\<close>)
qed


definition demo_containers :: container_env where
  "demo_containers = \<lparr>ce_Pull = (\<lambda>_ _. True), ce_NewContainer = (\<lambda>_. True), ce_NewTask = (\<lambda>_. True), ce_Wait = (\<lambda>_. True),
     ce_Setup = (\<lambda>c. Some (''10.1.0.'' @ dec (c + 2))), ce_Start = (\<lambda>_. True), ce_Pid = (\<lambda>c. of_nat c + 100), ce_Remove = (\<lambda>_. True),
     ce_Kill = (\<lambda>_. True), ce_TaskDelete = (\<lambda>_. True), ce_ContainerDelete = (\<lambda>_. True), ce_ids = id, ce_ports = id\<rparr>"

definition demo_we :: worker_env where
  "demo_we = \<lparr>we_containerd = demo_containers, we_firecracker = demo_machines, we_random = id\<rparr>"

definition demo_daemon :: "(WorkerDaemon, unit) outcome" where
  "demo_daemon = NewWorkerDaemon demo_we \<lparr>h_name = Some ''host'', h_root = True, h_kvm = True, h_iptables = True, h_containerd = True, h_cni = True,
     h_devices = Some [], h_monitor = demo_monitor\<rparr> 7 ''cp'' (demo_worker\<lparr>wnc_CRIType := ''containerd''\<rparr>) []"

lemma returned_Ret: "returned r \<Longrightarrow> \<exists>x. r = Ret x (out_state r)"
  by (cases r) (simp_all add: returned_def)

lemma daemon_started:
  "returned (NewWorkerDaemon we h rnd cpApi cfg names) \<Longrightarrow> wn_reachable we (out_state (NewWorkerDaemon we h rnd cpApi cfg names))"
  using returned_Ret [of "NewWorkerDaemon we h rnd cpApi cfg names"] by (auto intro: wn_started)

lemma CR_CreateSandbox_runs:
  assumes "dependable env" and "\<forall>n u. ce_Pull env n u" and "\<forall>c. ce_NewContainer env c"
    and "\<exists>j. map_of (portsInUse (cr_ports s)) (1024 + int (ce_ports env (ports_drawn (cr_ports s) + j) mod 64000)) = None"
    and "\<not> pm_wlocked (cr_ProcessMonitor s)" "pm_rlocks (cr_ProcessMonitor s) = 0"
  shows "runs (CR_CreateSandbox env inp) s (\<lambda>r _. sc_Success (fst r))"
proof -
  have lock: "runs pm_Lock pm Q = Q () (pm\<lparr>pm_wlocked := True\<rparr>)" if "\<not> pm_wlocked pm" "pm_rlocks pm = 0" for pm Q
    using that by (simp add: runs_def pm_Lock_def)
  have img: "runs (GetImage env url) s (\<lambda>i s'. i \<noteq> None \<and> cr_ports s' = cr_ports s \<and> cr_ProcessMonitor s' = cr_ProcessMonitor s)" for url
    using assms(2) by (simp add: GetImage_def FetchImage_def wp split: option.splits)
  have port: "runs (AssignRandomPort (ce_ports env)) (cr_ports s) (\<lambda>_ _. True)" by (rule AssignRandomPort_runs [OF assms(4)])
  have net: "ce_Setup env (cr_ids s1) \<noteq> None" for s1 using assms(1) by (simp add: dependable_def)
  show ?thesis unfolding CR_CreateSandbox_def wp Let_def
  proof (rule runs_mono [OF img], elim conjE, goal_cases)
    case (1 i s1)
    obtain url where "i = Some url" using 1 by blast
    moreover obtain ip where "ce_Setup env (cr_ids s1) = Some ip" using net by blast
    ultimately show ?case using 1 assms(1,3,5,6)
      apply (simp add: CreateContainer_def StartContainer_def dependable_def wp Let_def)
      apply (rule runs_mono [OF port])
      apply (simp add: wp AddChannel_def lock AddRules_def)
      done
  qed
qed

lemma demo_daemon_ready:
  "returned demo_daemon \<and> (case wn_SandboxRuntime (out_state demo_daemon) of
     Containerd_rt s \<Rightarrow> portsInUse (cr_ports s) = [] \<and> cr_ProcessMonitor s = demo_monitor | _ \<Rightarrow> False)"
  by code_simp

theorem cleaned_worker_holds_nothing_witness:
  "\<exists>w. wn_reachable demo_we w \<and> rt_keys (wn_SandboxRuntime w) \<noteq> [] \<and>
     runs (CleanResources demo_we) w (\<lambda>_ w'. Wn_ListEndpoints w' = [] \<and> holds_nothing demo_we (wn_SandboxRuntime w'))"
proof -
  have inj: "inj (ce_ids (we_containerd demo_we))" "inj (me_ids (we_firecracker demo_we))"
    by (simp_all add: demo_we_def demo_containers_def demo_machines_def)
  let ?w = "out_state demo_daemon"
  have w: "wn_reachable demo_we ?w" using demo_daemon_ready unfolding demo_daemon_def by (intro daemon_started) blast
  obtain s where s: "wn_SandboxRuntime ?w = Containerd_rt s" "portsInUse (cr_ports s) = []" "cr_ProcessMonitor s = demo_monitor"
    using demo_daemon_ready by (cases "wn_SandboxRuntime ?w") auto
  have "runs (CR_CreateSandbox demo_containers demo_function) s (\<lambda>r _. sc_Success (fst r))"
    by (rule CR_CreateSandbox_runs) (simp_all add: s demo_containers_def dependable_def demo_monitor_def)
  then obtain r s' where r: "CR_CreateSandbox demo_containers demo_function s = Ret r s'" "sc_Success (fst r)" by (rule runsE)
  have "inj (ce_ids demo_containers) \<and> cr_books demo_containers s"
    using wn_reachable_inv [OF w inj] s(1) by (simp add: rt_inv_def demo_we_def)
  from rets_Ret [OF cr.create [OF this] r(1)] have keys: "map fst (cr_sandboxes s') \<noteq> []" using r(2) by simp
  let ?w' = "?w\<lparr>wn_SandboxRuntime := Containerd_rt s'\<rparr>"
  have "Wn_CreateSandbox demo_we demo_function ?w = Ret r ?w'"
    using r(1) s(1) by (simp add: Wn_CreateSandbox_def gzoom_Ret rt_CreateSandbox_def inside_Ret demo_we_def)
  then have w': "wn_reachable demo_we ?w'" using w by (blast intro: wn_continued wn_create)
  show ?thesis using cleaned_worker_holds_nothing [OF inj w'] w' keys by (intro exI [of _ ?w']) (simp add: rt_keys_simps)
qed

section \<open>Registration\<close>

definition polls :: "nat \<Rightarrow> poller \<Rightarrow> bool" where
  \<comment> \<open>the documented behaviour, when there is time for \<open>n\<close> attempts: the condition is asked until it is done or gives an error\<close>
  "polls n poll \<longleftrightarrow> (\<forall>cond. poll cond = None \<longleftrightarrow> (\<exists>i < n. cond i = Inr True \<and> (\<forall>j < i. cond j = Inr False)))"

text \<open>A worker node is registered exactly when one of the calls that fit into the time succeeds; otherwise the daemon ends.\<close>

lemma registration_succeeds:
  assumes "polls n poll"
  shows "runs (RegisterNodeWithControlPlane poll call cores memory cfg) w (\<lambda>_ w'. w' = w) \<longleftrightarrow>
     (\<exists>i < n. \<exists>resp. call i RegisterAction (nodeInfo w cfg cores memory) = Some resp \<and> as_Success resp)"
proof -
  let ?f = "\<lambda>i. case call i RegisterAction (nodeInfo w cfg cores memory) of None \<Rightarrow> False | Some resp \<Rightarrow> as_Success resp"
  have cond: "(\<lambda>i. case call i RegisterAction (nodeInfo w cfg cores memory) of None \<Rightarrow> Inr False | Some resp \<Rightarrow> Inr (as_Success resp)) =
      (\<lambda>i. Inr (?f i))" by (auto split: option.splits)
  have first: "\<exists>i. i \<le> k \<and> ?f i \<and> (\<forall>j < i. \<not> ?f j)" if "?f k" for k
    using LeastI [of ?f k, OF that] Least_le [of ?f k, OF that] not_less_Least [of _ ?f] by blast
  have "poll (\<lambda>i. Inr (?f i)) = None \<longleftrightarrow> (\<exists>i < n. ?f i \<and> (\<forall>j < i. \<not> ?f j))" using assms by (simp add: polls_def)
  also have "\<dots> \<longleftrightarrow> (\<exists>i < n. ?f i)" using first order_le_less_trans by blast
  finally have "poll (\<lambda>i. Inr (?f i)) = None \<longleftrightarrow> (\<exists>i < n. ?f i)" .
  moreover have "?f i \<longleftrightarrow> (\<exists>resp. call i RegisterAction (nodeInfo w cfg cores memory) = Some resp \<and> as_Success resp)" for i
    by (auto split: option.splits)
  moreover have "runs (RegisterNodeWithControlPlane poll call cores memory cfg) w (\<lambda>_ w'. w' = w) \<longleftrightarrow> poll (\<lambda>i. Inr (?f i)) = None"
    unfolding RegisterNodeWithControlPlane_def sendInstructionToControlPlane_def Let_def wp cond by (auto simp: wp split: option.splits)
  ultimately show ?thesis by simp
qed

text \<open>After a change of the control plane, failures are still reported over the connection that the runtime was given at the start.\<close>

lemma failures_reported_to_old_replica:
  assumes "sendHeartbeatLoop poll call usage dial rnd cfg w = Ret () w'"
  shows "watchSandbox f k code w' = watchSandbox f k code w"
  using assms by (auto simp: sendHeartbeatLoop_def NewControlPlaneConnection_def EstablishGRPCConnectionPoll_def watchSandbox_def go_monad Let_def
    split: option.splits if_splits)

end
