(* ===== verification/Spec2Isabelle.thy ===== *)
theory Spec2Isabelle
  imports Request_Flow Api_Server Worker_Node
begin

text \<open>
  Dirigent is a cluster manager for serverless functions. This development models its control plane, its data plane and its
  worker nodes, in the order in which a function passes through them.

  \<^bold>\<open>The system.\<close> Clients register functions with the control plane, which runs as a number of replicas that elect a leader.
  The leader places sandboxes of the functions on worker nodes, announces them to the data planes and scales every function by the load
  that the data planes report. It keeps data planes, worker nodes and services in a database, from which a new leader rebuilds
  its state. A data plane receives invocations, waits for a sandbox where there is none (cold start), balances the load over
  the sandboxes and drains a sandbox before it is removed. A worker node creates and deletes sandboxes, as containers or as virtual
  machines, and reports failures. A load balancer (HAProxy) in front of the data planes is configured by the control plane.

  \<^bold>\<open>How code is modelled.\<close> A piece of Go code that runs in one goroutine is a state transformer that returns, panics (or ends
  the process) or blocks for ever (\<open>Go_Base\<close>). Locks are part of the state, so a lock that is taken twice is a deadlock of
  the model. Go maps are association lists, whose order stands for the order in which \<^verbatim>\<open>range\<close> visits them. Goroutines are
  definitions of their own; where their interleaving matters they are steps of an inductive relation. Third-party code (Redis, protobuf,
  gRPC connections, HAProxy, containerd, CNI, Firecracker, iptables, viper) is an argument of the definitions that use it, with
  its documented behaviour as a named hypothesis where a property needs it. Times and random numbers are arguments.
  Three calculi carry the proofs: \<open>runs\<close> (the code returns, and then), \<open>rets\<close> (if it returns, then) and \<open>blocks\<close> (it waits for
  ever), with the collections \<open>wp\<close>, \<open>pc\<close> and \<open>bp\<close>.

  \<^bold>\<open>Shared parts.\<close>
  \<^item> \<open>Go_Base\<close>: outcomes, the state monad, the calculi, Go maps, decimal numbers.
  \<^item> \<open>Sync_Maps\<close>: \<^verbatim>\<open>pkg/synchronization\<close>, \<^verbatim>\<open>pkg/atomic_map\<close>, \<^verbatim>\<open>pkg/map\<close>; the contract of a keyed store and that both maps keep it.
  \<^item> \<open>Proto_Types\<close>: the messages of \<^verbatim>\<open>api/proto\<close>. \<open>Configuration\<close>: \<^verbatim>\<open>pkg/config\<close>, with the round trip of configuration paths.
  \<^item> \<open>Net_Helpers\<close>: \<^verbatim>\<open>pkg/grpc_helpers\<close>, addresses and connections.

  \<^bold>\<open>Control plane.\<close>
  \<^item> \<open>Autoscaling\<close>: \<^verbatim>\<open>autoscaling.go\<close>. The window averages are moving means, the cached metric is the sum of the last reports, the panic
    mode never scales down and ends, an idle function is scaled to zero.
  \<^item> \<open>Workers\<close>, \<open>Placement\<close>: \<^verbatim>\<open>core\<close>, \<^verbatim>\<open>workers\<close>, \<^verbatim>\<open>data_plane\<close>, \<^verbatim>\<open>placement_policy\<close> and \<^verbatim>\<open>eviction_policy\<close>. A policy answers with a
    schedulable node; round robin cycles.
  \<^item> \<open>Persistence\<close>: \<^verbatim>\<open>persistence\<close> and \<^verbatim>\<open>redis_helpers\<close>. What is stored is read back.
  \<^item> \<open>Scaling\<close>: \<^verbatim>\<open>controller.go\<close> and \<^verbatim>\<open>scaling_loop.go\<close>. The books of a service balance, the desired scale is reached, a sandbox is
    drained before it is deleted.
  \<^item> \<open>Control_Plane\<close>, \<open>Registry\<close>, \<open>Registry_Services\<close>, \<open>Deadlocks\<close>, \<open>Cluster_State\<close>: \<^verbatim>\<open>control_plane.go\<close>, \<^verbatim>\<open>helpers.go\<close>, \<^verbatim>\<open>failure.go\<close>. Every
    sequence of calls refines an abstract cluster of three sets of names, without panics and deadlocks as long as the persistence layer and
    the data planes give no errors; the error paths that deadlock are shown apart.
  \<^item> \<open>Leader_Election\<close>: \<^verbatim>\<open>leader_election\<close>. At most one leader per term, in executions in which no reply to a call of an
    earlier term is handled; with such a reply the code can have two.
  \<^item> \<open>HAProxy\<close>: \<^verbatim>\<open>internal/data_plane/haproxy\<close>. A revision brings the load balancer to the configuration asked for.
  \<^item> \<open>Reconstruction\<close>, \<open>Api_Server\<close>: \<^verbatim>\<open>reconstruction.go\<close>, \<^verbatim>\<open>api/control_plane_api_server.go\<close>, \<^verbatim>\<open>election_management.go\<close>. The replicas serve like
    the leader alone, and an elected leader restores the cluster.

  \<^bold>\<open>Data plane.\<close>
  \<^item> \<open>Function_Metadata\<close>, \<open>Load_Balancing\<close>, \<open>Request_Flow\<close>: \<^verbatim>\<open>function_metadata\<close>, \<^verbatim>\<open>proxy/load_balancing\<close>, \<^verbatim>\<open>proxy/sync_proxy_handler.go\<close>. The
    books of requests balance in every interleaving of requests with updates of the sandboxes and drains; policies balance and
    find capacity.

  \<^bold>\<open>Worker node.\<close>
  \<^item> \<open>Worker_Managers\<close>: \<^verbatim>\<open>worker_node/managers\<close> and the host ports. Addresses are well-formed and differ.
  \<^item> \<open>Firecracker\<close>: \<^verbatim>\<open>sandbox/firecracker\<close>. Ports, networks, forwarding rules and machines are held exactly by the sandboxes that
    are listed, and a machine that works gives a sandbox.
  \<^item> \<open>Containerd\<close>, \<open>Worker_Node\<close>: \<^verbatim>\<open>sandbox/containerd\<close>, \<^verbatim>\<open>worker_node.go\<close>, \<^verbatim>\<open>api/worker_node_api_server.go\<close>. The contract of a runtime is a locale,
    interpreted on both; a worker that has cleaned up holds nothing.

  \<^bold>\<open>Loops and bounds.\<close> A loop that may not end (the port draw, the readiness probe, the compare-and-swap loop of round robin, the
  search for capacity, the scan of the database, the retries of a revision, the drain of a channel, the connection poll) is a partial function into options, and that it ends is a theorem where it does; the readiness
  probe ends after at most 23 attempts. The forwarding of a call between replicas has the number of hops as fuel; two hops are
  enough when the replicas agree on the leader. Counters on which the code wraps are words; terms of the election, ports and
  sizes are unbounded integers. \<^verbatim>\<open>float64\<close> is \<open>real\<close>.

  \<^bold>\<open>Not modelled.\<close> The entry points under \<^verbatim>\<open>cmd\<close> and the simulators only connect the parts and wait for signals. The daemon of the data plane
  (\<^verbatim>\<open>data_plane.go\<close>, \<^verbatim>\<open>api/data_plane_api_server.go\<close>) sets up servers around \<open>Function_Metadata\<close>. The asynchronous proxy with
  its request store and the HTTP registration server are not covered yet: they are mostly HTTP and Redis input and output. Tracing,
  logging, profiling and hardware statistics only write or read measurements. The proxy's buffers and HTTP transports configure
  the library. Generated stubs, mocks, the workload functions, scripts and plots are not part of the manager.
\<close>

end
